(* ===== verification/Rkx_Prelude.thy ===== *)
theory Rkx_Prelude
  imports Main "HOL-Library.Word" "HOL-Library.Multiset"
begin

text \<open>
  Shared vocabulary of the ReKernel-X development: the machine integers of the C and C++ code as
  words of their width, memory as byte lists with bounds-checked access, the C string functions the
  sources call, little-endian encodings (the module is built for AArch64 only, see
  \<^verbatim>\<open>README.md\<close>), and the generic list and word lemmas of the component theories.
  A read or write outside an object is the value \<open>None\<close>, so that "stays in bounds" is a theorem.
\<close>

unbundle bit_operations_syntax

section \<open>Machine integers and memory\<close>

type_synonym u8 = "8 word"
type_synonym u16 = "16 word"
type_synonym u32 = "32 word"
type_synonym s32 = "32 word"
type_synonym u64 = "64 word"
type_synonym bytes = "8 word list"

named_theorems rkx_codec \<open>equations of the byte encoders and decoders\<close>
named_theorems rkx_cstr \<open>equations of the C string functions\<close>
named_theorems rkx_const \<open>the numeric values of the constants of the sources\<close>

definition load :: "bytes \<Rightarrow> nat \<Rightarrow> nat \<Rightarrow> bytes option" where
  "load buf off n = (if off + n \<le> length buf then Some (take n (drop off buf)) else None)"

definition load8 :: "bytes \<Rightarrow> nat \<Rightarrow> u8 option" where
  "load8 buf off = (if off < length buf then Some (buf ! off) else None)"

definition store8 :: "bytes \<Rightarrow> nat \<Rightarrow> u8 \<Rightarrow> bytes option" where
  "store8 buf off v = (if off < length buf then Some (buf[off := v]) else None)"

text \<open>\<^verbatim>\<open>memcpy\<close> of a source object into a buffer at an offset.\<close>

definition store :: "bytes \<Rightarrow> nat \<Rightarrow> bytes \<Rightarrow> bytes option" where
  "store buf off d =
     (if off + length d \<le> length buf then Some (take off buf @ d @ drop (off + length d) buf)
      else None)"

lemma load_append [rkx_codec]:
  "load (pre @ d @ post) (length pre) (length d) = Some d"
  by (simp add: load_def)

lemma load_SomeD: "load buf off n = Some d \<Longrightarrow> length d = n \<and> off + n \<le> length buf"
  by (auto simp: load_def split: if_splits)

lemma load_eq_Some: "off + n \<le> length buf \<Longrightarrow> load buf off n = Some (take n (drop off buf))"
  by (simp add: load_def)

lemma store_length: "store buf off d = Some buf' \<Longrightarrow> length buf' = length buf"
  by (auto simp: store_def split: if_splits)

lemma store8_length: "store8 buf off v = Some buf' \<Longrightarrow> length buf' = length buf"
  by (auto simp: store8_def split: if_splits)

lemma unat_ucast_up:
  assumes "LENGTH('a) \<le> LENGTH('b)"
  shows "unat (ucast (w :: 'a::len word) :: 'b::len word) = unat w"
proof -
  have "unat w < 2 ^ LENGTH('b)"
    by (rule less_le_trans [OF unsigned_less power_increasing]) (use assms in simp_all)
  then show ?thesis by (simp add: unsigned_ucast_eq take_bit_nat_eq_self)
qed

lemma and_not_3: "w AND NOT 3 = push_bit 2 (drop_bit 2 (w :: 'a::len word))"
proof -
  have "w AND NOT 3 = w AND NOT (mask 2)" by (simp add: mask_eq_exp_minus_1)
  also have "\<dots> = push_bit 2 (drop_bit 2 w)"
    by (rule bit_word_eqI) (auto simp: bit_simps simp del: add_2_eq_Suc)
  finally show ?thesis .
qed

lemma unat_and_not_3: "unat (w AND NOT 3 :: 'a::len word) = unat w div 4 * 4"
proof -
  have "unat w div 4 * 4 \<le> unat w" by simp
  then have lt: "unat w div 4 * 4 < 2 ^ LENGTH('a)" by (rule le_less_trans) (rule unsigned_less)
  have "unat (push_bit 2 (drop_bit 2 w)) = take_bit LENGTH('a) (push_bit 2 (drop_bit 2 (unat w)))"
    by (simp only: unsigned_push_bit_eq unsigned_drop_bit_eq) (simp add: take_bit_nat_eq_self)
  also have "push_bit 2 (drop_bit 2 (unat w)) = unat w div 4 * 4"
    by (simp add: push_bit_eq_mult drop_bit_eq_div)
  finally show ?thesis using lt by (simp only: and_not_3 take_bit_nat_eq_self)
qed

lemma ucast_of_int_64_32: "ucast (word_of_int k :: u64) = (word_of_int k :: u32)"
  by (rule bit_word_eqI) (simp add: bit_simps)

section \<open>C strings\<close>

text \<open>
  A \<^verbatim>\<open>char *\<close> is the list of the bytes from the pointer to the end of its object;
  the string it denotes is what precedes the first NUL.
\<close>

definition cstr :: "bytes \<Rightarrow> bytes" where
  "cstr s = takeWhile (\<lambda>c. c \<noteq> 0) s"

definition strlen :: "bytes \<Rightarrow> nat" where
  "strlen s = length (cstr s)"

definition strnlen :: "bytes \<Rightarrow> nat \<Rightarrow> nat" where
  "strnlen s n = length (takeWhile (\<lambda>c. c \<noteq> 0) (take n s))"

text \<open>\<^verbatim>\<open>!strcmp(a, b)\<close>\<close>

definition strcmp_eq :: "bytes \<Rightarrow> bytes \<Rightarrow> bool" where
  "strcmp_eq a b \<longleftrightarrow> cstr a = cstr b"

text \<open>
  \<^verbatim>\<open>strscpy(dst, src, n)\<close>: at most \<open>n - 1\<close> bytes of the string, always a NUL, the
  rest of the destination as it was.
\<close>

definition strscpy :: "bytes \<Rightarrow> bytes \<Rightarrow> nat \<Rightarrow> bytes" where
  "strscpy dst src n =
     (let s = take (n - 1) (cstr src) in s @ 0 # drop (length s + 1) dst)"

text \<open>A \<^verbatim>\<open>char\<close> array of \<open>n\<close> bytes initialised from a string literal.\<close>

definition ascii :: "string \<Rightarrow> bytes" where
  "ascii s = map (\<lambda>c. of_nat (of_char c)) s"

definition char_array :: "nat \<Rightarrow> string \<Rightarrow> bytes" where
  "char_array n s = ascii s @ replicate (n - length s) 0"

lemma cstr_nonzero: "0 \<notin> set (cstr s)"
  by (auto simp: cstr_def dest: set_takeWhileD)

lemma cstr_append_nul [rkx_cstr]: "0 \<notin> set s \<Longrightarrow> cstr (s @ 0 # rest) = s"
  unfolding cstr_def by (subst takeWhile_append2) auto

lemma cstr_no_nul [rkx_cstr]: "0 \<notin> set s \<Longrightarrow> cstr s = s"
  unfolding cstr_def by (auto simp: takeWhile_eq_all_conv)

lemma cstr_cstr [simp]: "cstr (cstr s) = cstr s"
  by (simp add: cstr_no_nul cstr_nonzero)

lemma strlen_le: "strlen s \<le> length s"
  by (simp add: strlen_def cstr_def length_takeWhile_le)

lemma strlen_lt: "0 \<in> set s \<Longrightarrow> strlen s < length s"
proof -
  assume "0 \<in> set s"
  then obtain a b where "s = a @ 0 # b" "0 \<notin> set a"
    by (auto dest: split_list_first)
  then show ?thesis by (simp add: strlen_def cstr_append_nul)
qed

lemma take_strlen [rkx_cstr]: "take (strlen s) s = cstr s"
  unfolding strlen_def cstr_def by (rule takeWhile_eq_take [symmetric])

lemma cstr_take: "cstr (take n s) = take n (cstr s)"
  unfolding cstr_def by (induction s arbitrary: n) (auto simp: take_Cons split: nat.splits)

lemma strnlen_eq [rkx_cstr]: "strnlen s n = min n (strlen s)"
  using cstr_take [of n s] by (simp add: strnlen_def strlen_def cstr_def)

lemma cstr_strscpy [rkx_cstr]: "cstr (strscpy dst src n) = take (n - 1) (cstr src)"
  using cstr_nonzero [of src]
  by (auto simp: strscpy_def Let_def intro!: cstr_append_nul dest: in_set_takeD)

lemma length_strscpy:
  "0 < n \<Longrightarrow> length dst = n \<Longrightarrow> length (strscpy dst src n) = n"
  by (simp add: strscpy_def Let_def)

lemma nul_strscpy [simp]: "0 \<in> set (strscpy dst src n)"
  by (simp add: strscpy_def Let_def)

lemma length_ascii [simp]: "length (ascii s) = length s"
  by (simp add: ascii_def)

lemma length_char_array [simp]: "length s \<le> n \<Longrightarrow> length (char_array n s) = n"
  by (simp add: char_array_def)

section \<open>Little-endian encodings\<close>

definition le16 :: "u16 \<Rightarrow> bytes" where
  "le16 w = [ucast w, ucast (drop_bit 8 w)]"

definition le32 :: "u32 \<Rightarrow> bytes" where
  "le32 w = [ucast w, ucast (drop_bit 8 w), ucast (drop_bit 16 w), ucast (drop_bit 24 w)]"

definition of_le16 :: "bytes \<Rightarrow> u16" where
  "of_le16 b = ucast (b ! 0) OR push_bit 8 (ucast (b ! 1))"

definition of_le32 :: "bytes \<Rightarrow> u32" where
  "of_le32 b = ucast (b ! 0) OR push_bit 8 (ucast (b ! 1)) OR push_bit 16 (ucast (b ! 2))
     OR push_bit 24 (ucast (b ! 3))"

text \<open>Big-endian, for the network headers (\<^verbatim>\<open>ntohs\<close>).\<close>

definition of_be16 :: "bytes \<Rightarrow> u16" where
  "of_be16 b = ucast (b ! 1) OR push_bit 8 (ucast (b ! 0))"

lemma length_le16 [simp]: "length (le16 w) = 2"
  by (simp add: le16_def)

lemma length_le32 [simp]: "length (le32 w) = 4"
  by (simp add: le32_def)

lemma of_le16_le16 [simp]: "of_le16 (le16 w) = w"
  unfolding of_le16_def le16_def
  by (rule bit_word_eqI) (auto simp: bit_simps)

lemma of_le32_le32 [simp]: "of_le32 (le32 w) = w"
proof (rule bit_word_eqI)
  fix n assume "n < LENGTH(32)"
  then consider "n < 8" | "8 \<le> n" "n < 16" | "16 \<le> n" "n < 24" | "24 \<le> n" "n < 32"
    by (auto simp: not_less) linarith
  then show "bit (of_le32 (le32 w)) n \<longleftrightarrow> bit w n"
    by cases (auto simp: of_le32_def le32_def bit_simps)
qed

end
