(* ===== verification/Rkx_Uapi.thy ===== *)
theory Rkx_Uapi
  imports Rkx_Prelude
begin

text \<open>
  The kernel side of the ABI, \<^verbatim>\<open>LKM-Source/rkx.h\<close>: the limits, the generic netlink
  commands and attributes with their wire values, the free-async strategies, and the event
  structures. A tagged union \<^verbatim>\<open>struct rkx_event\<close> is a datatype whose constructor is the
  tag; a tag outside the enumeration is kept as \<open>EV_OTHER\<close>, because
  \<^verbatim>\<open>rkx_send_message\<close> has a branch for it.
\<close>

section \<open>Limits and return values\<close>

definition RKX_ERROR :: int where [rkx_const]: "RKX_ERROR = -1"
definition RKX_SUCCESS :: int where [rkx_const]: "RKX_SUCCESS = 0"
definition EINVAL :: int where [rkx_const]: "EINVAL = 22"
definition ENOMEM :: int where [rkx_const]: "ENOMEM = 12"
definition EFAULT :: int where [rkx_const]: "EFAULT = 14"
definition ESRCH :: int where [rkx_const]: "ESRCH = 3"

definition RKX_MAX_SYSTEM_UID :: u32 where [rkx_const]: "RKX_MAX_SYSTEM_UID = 2000"
definition RKX_MIN_APP_UID :: u32 where [rkx_const]: "RKX_MIN_APP_UID = 10000"
definition RKX_RESERVE_ORDER :: nat where [rkx_const]: "RKX_RESERVE_ORDER = 17"

definition RKX_WARN_AHEAD_SPACE :: u64 where
  "RKX_WARN_AHEAD_SPACE = push_bit RKX_RESERVE_ORDER 1"

definition RKX_INTERFACETOKEN_BUFF_SIZE :: nat where
  [rkx_const]: "RKX_INTERFACETOKEN_BUFF_SIZE = 140"

definition RKX_PARCEL_OFFSET :: nat where
  [rkx_const]: "RKX_PARCEL_OFFSET = 16"

definition RKX_GENL_FAMILY_NAME :: string where "RKX_GENL_FAMILY_NAME = ''rekernel_x2''"
definition RKX_GENL_VERSION :: u8 where [rkx_const]: "RKX_GENL_VERSION = 1"
definition RKX_GENL_MCGRP_NAME :: string where "RKX_GENL_MCGRP_NAME = ''events''"

section \<open>Commands and attributes\<close>

datatype rkx_genl_cmd =
    RKX_C_UNSPEC | RKX_C_EVENT | RKX_C_ADD_MONITOR_NET | RKX_C_DEL_MONITOR_NET
  | RKX_C_ADD_FREE_ASYNC | RKX_C_DEL_FREE_ASYNC

fun cmd_code :: "rkx_genl_cmd \<Rightarrow> u8" where
  "cmd_code RKX_C_UNSPEC = 0"
| "cmd_code RKX_C_EVENT = 1"
| "cmd_code RKX_C_ADD_MONITOR_NET = 2"
| "cmd_code RKX_C_DEL_MONITOR_NET = 3"
| "cmd_code RKX_C_ADD_FREE_ASYNC = 4"
| "cmd_code RKX_C_DEL_FREE_ASYNC = 5"

datatype rkx_genl_attr =
    RKX_A_UNSPEC | RKX_A_EVENT
  | RKX_A_BINDER | RKX_A_BINDER_TYPE | RKX_A_BINDER_ONEWAY | RKX_A_BINDER_FROM_PID
  | RKX_A_BINDER_FROM_UID | RKX_A_BINDER_TARGET_PID | RKX_A_BINDER_TARGET_UID
  | RKX_A_BINDER_CODE | RKX_A_BINDER_RPC_NAME
  | RKX_A_SIGNAL | RKX_A_SIGNAL_SIGNAL | RKX_A_SIGNAL_KILLER_PID | RKX_A_SIGNAL_KILLER_UID
  | RKX_A_SIGNAL_DST_PID | RKX_A_SIGNAL_DST_UID
  | RKX_A_NETWORK | RKX_A_NETWORK_PROTO | RKX_A_NETWORK_TARGET_UID | RKX_A_NETWORK_DATA_LEN
  | RKX_A_UID
  | RKX_A_FREE_ASYNC_STRATEGY | RKX_A_FREE_ASYNC_RPC_NAME | RKX_A_FREE_ASYNC_CODE

fun attr_code :: "rkx_genl_attr \<Rightarrow> u16" where
  "attr_code RKX_A_UNSPEC = 0"
| "attr_code RKX_A_EVENT = 1"
| "attr_code RKX_A_BINDER = 10"
| "attr_code RKX_A_BINDER_TYPE = 11"
| "attr_code RKX_A_BINDER_ONEWAY = 12"
| "attr_code RKX_A_BINDER_FROM_PID = 13"
| "attr_code RKX_A_BINDER_FROM_UID = 14"
| "attr_code RKX_A_BINDER_TARGET_PID = 15"
| "attr_code RKX_A_BINDER_TARGET_UID = 16"
| "attr_code RKX_A_BINDER_CODE = 17"
| "attr_code RKX_A_BINDER_RPC_NAME = 18"
| "attr_code RKX_A_SIGNAL = 20"
| "attr_code RKX_A_SIGNAL_SIGNAL = 21"
| "attr_code RKX_A_SIGNAL_KILLER_PID = 22"
| "attr_code RKX_A_SIGNAL_KILLER_UID = 23"
| "attr_code RKX_A_SIGNAL_DST_PID = 24"
| "attr_code RKX_A_SIGNAL_DST_UID = 25"
| "attr_code RKX_A_NETWORK = 30"
| "attr_code RKX_A_NETWORK_PROTO = 31"
| "attr_code RKX_A_NETWORK_TARGET_UID = 32"
| "attr_code RKX_A_NETWORK_DATA_LEN = 33"
| "attr_code RKX_A_UID = 40"
| "attr_code RKX_A_FREE_ASYNC_STRATEGY = 41"
| "attr_code RKX_A_FREE_ASYNC_RPC_NAME = 42"
| "attr_code RKX_A_FREE_ASYNC_CODE = 43"

definition RKX_A_MAX :: nat where [rkx_const]: "RKX_A_MAX = 49"

section \<open>Enumerations carried in 8-bit fields\<close>

definition RKX_FREE_ASYNC_SKIP :: u8 where [rkx_const]: "RKX_FREE_ASYNC_SKIP = 1"
definition RKX_FREE_ASYNC_BY_CODE :: u8 where [rkx_const]: "RKX_FREE_ASYNC_BY_CODE = 2"
definition RKX_FREE_ASYNC_BY_DATA :: u8 where [rkx_const]: "RKX_FREE_ASYNC_BY_DATA = 3"

definition RKX_EVT_BINDER :: u8 where [rkx_const]: "RKX_EVT_BINDER = 1"
definition RKX_EVT_SIGNAL :: u8 where [rkx_const]: "RKX_EVT_SIGNAL = 2"
definition RKX_EVT_NETWORK :: u8 where [rkx_const]: "RKX_EVT_NETWORK = 3"

definition RKX_BINDER_TRANSACTION :: u8 where [rkx_const]: "RKX_BINDER_TRANSACTION = 1"
definition RKX_BINDER_REPLY :: u8 where [rkx_const]: "RKX_BINDER_REPLY = 2"
definition RKX_BINDER_FREE_BUFFER_FULL :: u8 where [rkx_const]: "RKX_BINDER_FREE_BUFFER_FULL = 3"

definition RKX_NET_PROTO_IPV4 :: u8 where [rkx_const]: "RKX_NET_PROTO_IPV4 = 4"
definition RKX_NET_PROTO_IPV6 :: u8 where [rkx_const]: "RKX_NET_PROTO_IPV6 = 6"

section \<open>Event structures\<close>

record rkx_binder_event =
  be_binder_type :: u8
  be_oneway :: u8
  be_from_pid :: s32
  be_from_uid :: u32
  be_target_pid :: s32
  be_target_uid :: u32
  be_code :: s32
  be_rpc_name :: bytes

record rkx_signal_event =
  se_signal :: s32
  se_killer_pid :: s32
  se_killer_uid :: u32
  se_dst_pid :: s32
  se_dst_uid :: u32

record rkx_network_event =
  ne_proto :: u8
  ne_target_uid :: u32
  ne_data_len :: s32

datatype rkx_event =
    EV_BINDER rkx_binder_event
  | EV_SIGNAL rkx_signal_event
  | EV_NETWORK rkx_network_event
  | EV_OTHER u8

fun ev_type :: "rkx_event \<Rightarrow> u8" where
  "ev_type (EV_BINDER b) = RKX_EVT_BINDER"
| "ev_type (EV_SIGNAL s) = RKX_EVT_SIGNAL"
| "ev_type (EV_NETWORK n) = RKX_EVT_NETWORK"
| "ev_type (EV_OTHER t) = t"

text \<open>
  What the code relies on of an event: its tag is one of the enumeration, and the name is a
  NUL-terminated string in an array of \<^verbatim>\<open>RKX_INTERFACETOKEN_BUFF_SIZE\<close> bytes.
\<close>

fun event_wf :: "rkx_event \<Rightarrow> bool" where
  "event_wf (EV_BINDER b) \<longleftrightarrow>
     length (be_rpc_name b) = RKX_INTERFACETOKEN_BUFF_SIZE \<and> 0 \<in> set (be_rpc_name b)"
| "event_wf (EV_SIGNAL s) \<longleftrightarrow> True"
| "event_wf (EV_NETWORK n) \<longleftrightarrow> True"
| "event_wf (EV_OTHER t) \<longleftrightarrow> False"

lemma error_neq_success [simp]: "RKX_ERROR \<noteq> RKX_SUCCESS" "RKX_SUCCESS \<noteq> RKX_ERROR"
  by (simp_all add: rkx_const)

lemma attr_code_inj: "attr_code a = attr_code b \<Longrightarrow> a = b"
  by (cases a; cases b; simp)

lemma attr_code_le_max: "unat (attr_code a) \<le> RKX_A_MAX"
  by (cases a; simp add: RKX_A_MAX_def)

lemma cmd_code_inj: "cmd_code a = cmd_code b \<Longrightarrow> a = b"
  by (cases a; cases b; simp)

end
