(* ===== verification/Rkx_Hook.thy ===== *)
theory Rkx_Hook
  imports Rkx_Uapi
begin

text \<open>
  The two contracts every hook of the module keeps. \<open>event_hook\<close>: what a kernel hook does with
  one call (it touches no memory out of bounds, hands at most one well-formed event to
  \<^verbatim>\<open>rkx_send_message\<close>, and none before the netlink family is registered).
  \<open>registration\<close>: a pair of register and unregister functions guarded by flags, which module
  initialisation and exit compose. A hook returns the events it passes to
  \<^verbatim>\<open>rkx_send_message\<close>, or \<open>None\<close> if it faults.
\<close>

section \<open>Event hooks\<close>

locale event_hook =
  fixes pre :: "'e \<Rightarrow> 'i \<Rightarrow> bool"
    and hook :: "'e \<Rightarrow> bool \<Rightarrow> 'i \<Rightarrow> rkx_event list option"
  assumes hook_wf: "pre e i \<Longrightarrow> \<exists>evs. hook e ready i = Some evs \<and> length evs \<le> 1 \<and> list_all event_wf evs"
    and hook_quiet: "pre e i \<Longrightarrow> hook e False i = Some []"
begin

lemma hook_cases:
  assumes "pre e i"
  obtains "hook e ready i = Some []" | ev where "hook e ready i = Some [ev]" "event_wf ev"
proof -
  from hook_wf [OF assms] obtain evs where
    evs: "hook e ready i = Some evs" "length evs \<le> 1" "list_all event_wf evs" by blast
  show thesis
  proof (cases evs)
    case Nil
    with evs(1) show thesis by (simp add: that(1))
  next
    case (Cons ev rest)
    with evs that(2) [of ev] show thesis by auto
  qed
qed

lemma hook_events_wf: "pre e i \<Longrightarrow> hook e ready i = Some evs \<Longrightarrow> list_all event_wf evs"
  using hook_wf [of e i ready] by auto

lemma hook_at_most_one: "pre e i \<Longrightarrow> hook e ready i = Some evs \<Longrightarrow> length evs \<le> 1"
  using hook_wf [of e i ready] by auto

lemma hook_event_ready: "pre e i \<Longrightarrow> hook e ready i = Some (ev # evs) \<Longrightarrow> ready"
  using hook_quiet [of e i] by (cases ready) auto

end

section \<open>Registration\<close>

text \<open>
  The environment \<open>'e\<close> holds the return codes of the kernel's registration functions. \<open>active\<close> is
  that the kernel holds anything of the component (a tracepoint, a family, a queue), \<open>full\<close> that it
  holds all of it, and \<open>ok\<close> that the component's flags describe what the kernel holds.
\<close>

locale registration =
  fixes register :: "'e \<Rightarrow> 's \<Rightarrow> int \<times> 's"
    and unregister :: "'e \<Rightarrow> 's \<Rightarrow> 's"
    and ok :: "'s \<Rightarrow> bool"
    and active :: "'s \<Rightarrow> bool"
    and full :: "'s \<Rightarrow> bool"
  assumes ok_register: "ok s \<Longrightarrow> \<not> active s \<Longrightarrow> ok (snd (register e s))"
    and register_ok: "ok s \<Longrightarrow> \<not> active s \<Longrightarrow> fst (register e s) = RKX_SUCCESS \<Longrightarrow>
      full (snd (register e s))"
    and register_fail: "ok s \<Longrightarrow> \<not> active s \<Longrightarrow> fst (register e s) \<noteq> RKX_SUCCESS \<Longrightarrow>
      \<not> active (snd (register e s))"
    and ok_unregister: "ok s \<Longrightarrow> ok (unregister e s)"
    and unregister_inactive: "ok s \<Longrightarrow> \<not> active (unregister e s)"
    and unregister_idle: "ok s \<Longrightarrow> \<not> active s \<Longrightarrow> unregister e s = s"
begin

lemma unregister_twice: "ok s \<Longrightarrow> unregister e (unregister e s) = unregister e s"
  by (rule unregister_idle) (auto simp: ok_unregister unregister_inactive)

lemma register_unregister:
  "ok s \<Longrightarrow> \<not> active s \<Longrightarrow> \<not> active (unregister e (snd (register e s)))"
  by (rule unregister_inactive) (rule ok_register)

end

end
