(* ===== verification/Rkx_Frozen.thy ===== *)
theory Rkx_Frozen
  imports Rkx_Uapi "HOL-Library.Product_Lexorder"
begin

text \<open>
  \<^verbatim>\<open>LKM-Source/rkx_frozen.c\<close>: is a task frozen? A task pointer is a number, and the
  kernel's task table maps it to the fields the module reads. The freezer predicates and bit masks of
  the kernel, and the kernel version the module is compiled against, are fields of the environment
  \<open>kernel\<close>; a conditional compilation is a case on that version.
\<close>

type_synonym task_ref = nat
type_synonym version = "nat \<times> nat \<times> nat"

record task_struct =
  tsk_uid :: u32
  tsk_tgid :: s32
  tsk_state :: u32
  tsk_jobctl :: u64
  tsk_group_leader :: "task_ref option"

record kernel =
  LINUX_VERSION :: version
  task :: "task_ref \<Rightarrow> task_struct"
  cgroup_task_frozen :: "task_ref \<Rightarrow> bool"
  cgroup_task_freeze :: "task_ref \<Rightarrow> bool"
  frozen :: "task_ref \<Rightarrow> bool"
  freezing :: "task_ref \<Rightarrow> bool"
  TASK_FROZEN :: u32
  JOBCTL_TRAP_FREEZE :: u64

definition rkx_is_frozen_state_compatible :: "kernel \<Rightarrow> task_ref \<Rightarrow> bool" where
  "rkx_is_frozen_state_compatible k t =
     (if LINUX_VERSION k \<ge> (6, 1, 0) then tsk_state (task k t) AND TASK_FROZEN k \<noteq> 0
      else frozen k t)"

definition rkx_is_jobctl_frozen_compatible :: "kernel \<Rightarrow> task_ref \<Rightarrow> bool" where
  "rkx_is_jobctl_frozen_compatible k t =
     (if LINUX_VERSION k < (5, 15, 0) then cgroup_task_freeze k t
      else tsk_jobctl (task k t) AND JOBCTL_TRAP_FREEZE k \<noteq> 0)"

definition rkx_is_frozen :: "kernel \<Rightarrow> task_ref \<Rightarrow> bool" where
  "rkx_is_frozen k t =
     (if cgroup_task_frozen k t \<or> rkx_is_jobctl_frozen_compatible k t then True
      else case tsk_group_leader (task k t) of
             None \<Rightarrow> False
           | Some leader \<Rightarrow> rkx_is_frozen_state_compatible k leader \<or> freezing k leader)"

text \<open>
  Every thread of a process is frozen as soon as its leader is marked by the freezer, and a task
  with neither a freezer mark nor a frozen leader is running.
\<close>

lemma leader_frozen:
  assumes "tsk_group_leader (task k t) = Some l" "freezing k l"
  shows "rkx_is_frozen k t"
  using assms by (simp add: rkx_is_frozen_def)

lemma not_frozen_iff:
  "\<not> rkx_is_frozen k t \<longleftrightarrow>
     \<not> cgroup_task_frozen k t \<and> \<not> rkx_is_jobctl_frozen_compatible k t \<and>
     (\<forall>l. tsk_group_leader (task k t) = Some l \<longrightarrow>
        \<not> rkx_is_frozen_state_compatible k l \<and> \<not> freezing k l)"
  by (auto simp: rkx_is_frozen_def split: option.splits)

end
