(* ===== verification/Rkx_Token.thy ===== *)
theory Rkx_Token
  imports Rkx_Uapi
begin

text \<open>
  Extraction of the interface name from the head of a binder parcel. The same loop is in
  \<^verbatim>\<open>rkx_binder_trans_vh\<close> (\<^verbatim>\<open>rkx_binder.c\<close>) and
  \<^verbatim>\<open>rkx_parse_interface_token\<close> (\<^verbatim>\<open>rkx_binder_kp.c\<close>): it copies every second
  byte from offset 16 on, that is the low bytes of the UTF-16 name, until a zero byte. Every read and
  write of the loop is bounds-checked in the model.
\<close>

function token_loop ::
  "nat \<Rightarrow> nat \<Rightarrow> bytes \<Rightarrow> nat \<Rightarrow> nat \<Rightarrow> nat \<Rightarrow> bytes \<Rightarrow> (nat \<times> bytes) option" where
  "token_loop lim sz buf i j p rpc_name =
     (if i < lim \<and> j < sz then
        (case load8 buf p of
           None \<Rightarrow> None
         | Some c \<Rightarrow>
             if c \<noteq> 0 then
               (case store8 rpc_name i c of
                  None \<Rightarrow> None
                | Some rpc_name' \<Rightarrow> token_loop lim sz buf (i + 1) (j + 2) (p + 2) rpc_name')
             else Some (i, rpc_name))
      else Some (i, rpc_name))"
  by pat_completeness auto
termination
  by (relation "measure (\<lambda>(lim, sz, buf, i, j, p, rpc_name). sz - j)") auto

declare token_loop.simps [simp del]

text \<open>The characters of the name that lie within the first \<open>sz\<close> bytes of the parcel.\<close>

definition token_units :: "nat \<Rightarrow> bytes \<Rightarrow> bytes" where
  "token_units sz buf = map (\<lambda>m. buf ! (RKX_PARCEL_OFFSET + 2 * m))
     [0..<(sz - RKX_PARCEL_OFFSET) div 2]"

definition token :: "nat \<Rightarrow> bytes \<Rightarrow> bytes" where
  "token sz buf = takeWhile (\<lambda>c. c \<noteq> 0) (token_units sz buf)"

lemma token_loop_from:
  assumes "sz \<le> length buf" "lim \<le> length rpc" "i \<le> lim"
    and "u = map (\<lambda>m. buf ! (16 + 2 * m)) [i..<(sz - 16) div 2]"
    and "t = take (lim - i) (takeWhile (\<lambda>c. c \<noteq> 0) u)"
  shows "token_loop lim sz buf i (17 + 2 * i) (16 + 2 * i) rpc =
    Some (i + length t, take i rpc @ t @ drop (i + length t) rpc)"
  using assms
proof (induction "lim - i" arbitrary: i rpc u t)
  case 0
  then show ?case by (simp add: token_loop.simps)
next
  case (Suc n)
  show ?case
  proof (cases "17 + 2 * i < sz")
    case False
    then have "u = []" using Suc.prems by simp
    with False Suc.prems show ?thesis by (simp add: token_loop.simps)
  next
    case True
    let ?c = "buf ! (16 + 2 * i)"
    let ?u = "map (\<lambda>m. buf ! (16 + 2 * m)) [Suc i..<(sz - 16) div 2]"
    have i: "i < (sz - 16) div 2" "i < lim" using True Suc.hyps(2) by auto
    then have u: "u = ?c # ?u"
      using Suc.prems(4) by (simp add: upt_conv_Cons)
    have p: "16 + 2 * i < length buf" using True Suc.prems(1) by simp
    show ?thesis
    proof (cases "?c = 0")
      case zero: True
      then show ?thesis
        using True i p u Suc.prems by (simp add: token_loop.simps load8_def)
    next
      case False
      let ?t = "take (lim - Suc i) (takeWhile (\<lambda>c. c \<noteq> 0) ?u)"
      have t: "t = ?c # ?t"
        using Suc.prems(5) False u i by (simp add: take_Cons' Suc_diff_Suc)
      have st: "store8 rpc i ?c = Some (rpc[i := ?c])"
        using i Suc.prems(2) by (simp add: store8_def)
      have "token_loop lim sz buf i (17 + 2 * i) (16 + 2 * i) rpc =
          token_loop lim sz buf (Suc i) (17 + 2 * Suc i) (16 + 2 * Suc i) (rpc[i := ?c])"
        using True False i p st
        by (subst token_loop.simps) (simp add: load8_def)
      also have "\<dots> = Some (Suc i + length ?t,
          take (Suc i) (rpc[i := ?c]) @ ?t @ drop (Suc i + length ?t) (rpc[i := ?c]))"
        using Suc.hyps(2) Suc.prems i by (intro Suc.hyps(1)) auto
      also have "take (Suc i) (rpc[i := ?c]) = take i rpc @ [?c]"
        using i Suc.prems(2) by (simp add: take_Suc_conv_app_nth)
      finally show ?thesis by (simp add: t)
    qed
  qed
qed

text \<open>Both callers start the loop at the first character, on a large enough destination.\<close>

lemma token_loop_start:
  assumes "sz \<le> length buf" "lim \<le> length rpc"
  shows "token_loop lim sz buf 0 (RKX_PARCEL_OFFSET + 1) RKX_PARCEL_OFFSET rpc =
    (let t = take lim (token sz buf) in Some (length t, t @ drop (length t) rpc))"
  using token_loop_from [OF assms, of 0 "token_units sz buf" "take lim (token sz buf)"]
  by (simp add: token_def token_units_def Let_def rkx_const)

lemma length_token: "length (token sz buf) \<le> (sz - RKX_PARCEL_OFFSET) div 2"
proof -
  have "length (token sz buf) \<le> length (token_units sz buf)"
    unfolding token_def by (rule length_takeWhile_le)
  then show ?thesis by (simp add: token_units_def)
qed

lemma token_nonzero: "0 \<notin> set (token sz buf)"
  by (auto simp: token_def dest: set_takeWhileD)

text \<open>No name of more than 62 characters fits in the 140 bytes the module looks at.\<close>

lemma length_token_140: "sz \<le> RKX_INTERFACETOKEN_BUFF_SIZE \<Longrightarrow> length (token sz buf) \<le> 62"
  using length_token [of sz buf] by (simp add: rkx_const)

section \<open>Parcels written by the framework\<close>

text \<open>
  \<^verbatim>\<open>writeInterfaceToken\<close> puts 16 bytes of header before the UTF-16 name and a
  terminating zero unit; \<^verbatim>\<open>RKX_PARCEL_OFFSET\<close> is kept in sync with it.
\<close>

definition utf16le :: "bytes \<Rightarrow> bytes" where
  "utf16le s = concat (map (\<lambda>c. [c, 0]) s)"

definition parcel :: "bytes \<Rightarrow> bytes \<Rightarrow> bytes \<Rightarrow> bytes" where
  "parcel header name rest = header @ utf16le name @ [0, 0] @ rest"

lemma length_utf16le [simp]: "length (utf16le s) = 2 * length s"
  by (induction s) (auto simp: utf16le_def)

lemma nth_utf16le: "m < length s \<Longrightarrow> utf16le s ! (2 * m) = s ! m"
proof (induction s arbitrary: m)
  case (Cons c s)
  then show ?case
    by (cases m) (auto simp: utf16le_def)
qed simp

lemma parcel_nth:
  assumes "length header = RKX_PARCEL_OFFSET" "m \<le> length name"
  shows "parcel header name rest ! (RKX_PARCEL_OFFSET + 2 * m) =
    (if m < length name then name ! m else 0)"
  using assms nth_utf16le [of m name] by (simp add: parcel_def nth_append)

lemma token_parcel:
  assumes h: "length header = RKX_PARCEL_OFFSET" and n: "0 \<notin> set name"
  shows "token sz (parcel header name rest) = take ((sz - RKX_PARCEL_OFFSET) div 2) name"
proof -
  let ?k = "(sz - RKX_PARCEL_OFFSET) div 2" and ?P = "parcel header name rest"
  show ?thesis
  proof (cases "?k \<le> length name")
    case True
    then have "token_units sz ?P = take ?k name"
      using parcel_nth [OF h] by (intro nth_equalityI) (auto simp: token_units_def)
    moreover have "takeWhile (\<lambda>c. c \<noteq> 0) (take ?k name) = take ?k name"
      using n by (auto simp: takeWhile_eq_all_conv dest: in_set_takeD)
    ultimately show ?thesis by (simp add: token_def)
  next
    case False
    then have "[0..<?k] = [0..<length name] @ length name # [Suc (length name)..<?k]"
      using upt_add_eq_append [of 0 "length name" "?k - length name"]
      by (simp add: upt_conv_Cons)
    moreover have "map (\<lambda>m. ?P ! (RKX_PARCEL_OFFSET + 2 * m)) [0..<length name] = name"
      using parcel_nth [OF h] by (intro nth_equalityI) auto
    ultimately have "token_units sz ?P =
        name @ 0 # map (\<lambda>m. ?P ! (RKX_PARCEL_OFFSET + 2 * m)) [Suc (length name)..<?k]"
      using parcel_nth [OF h, of "length name"] by (simp add: token_units_def)
    then show ?thesis
      using cstr_append_nul [OF n] False by (simp add: token_def cstr_def)
  qed
qed

text \<open>What the module keeps of a name: the part within the first 140 bytes of the parcel.\<close>

lemma token_parcel_140:
  assumes "length header = RKX_PARCEL_OFFSET" "0 \<notin> set name"
    and "n = min RKX_INTERFACETOKEN_BUFF_SIZE (length (parcel header name rest))"
  shows "token n (parcel header name rest) = take 62 name"
proof -
  have "(n - RKX_PARCEL_OFFSET) div 2 = 62 \<or>
      (length name \<le> (n - RKX_PARCEL_OFFSET) div 2 \<and> length name \<le> 62)"
    using assms(1) unfolding assms(3) by (simp add: parcel_def rkx_const min_def)
  then show ?thesis unfolding token_parcel [OF assms(1,2)] by auto
qed

end
