(* ===== verification/Rkx_Binder.thy ===== *)
theory Rkx_Binder
  imports Rkx_Hook Rkx_Frozen Rkx_Token
begin

text \<open>
  \<^verbatim>\<open>LKM-Source/rkx_binder.c\<close>: the three binder trace hooks (allocation of a buffer,
  reply, transaction) and their registration. The user-copy primitives and
  \<^verbatim>\<open>find_task_by_vpid\<close> are fields of the environment. A pointer the code compares with
  \<^verbatim>\<open>NULL\<close> is an option.
\<close>

section \<open>Arguments and environment of the hooks\<close>

definition TF_ONE_WAY :: u32 where "TF_ONE_WAY = 1"

record hook_proc =
  hp_pid :: s32
  hp_tsk :: "task_ref option"

record binder_alloc =
  ba_pid :: s32
  ba_free_async_space :: u64

record binder_transaction_data =
  tr_flags :: u32
  tr_code :: u32
  tr_data_size :: u64
  tr_buffer :: u64

text \<open>
  The third argument of the allocation hook: up to 5.14 the allocator itself, later the address of its
  \<^verbatim>\<open>free_async_space\<close> field, from which \<^verbatim>\<open>container_of\<close> recovers it.
\<close>

datatype alloc_arg = Alloc binder_alloc | Free_async_space "binder_alloc option"

record binder_env =
  bk :: kernel
  current :: task_ref
  find_task_by_vpid :: "s32 \<Rightarrow> task_ref option"
  sizeof_binder_buffer :: u64
  access_ok :: "u64 \<Rightarrow> u64 \<Rightarrow> bool"
  copy_from_user_inatomic :: "u64 \<Rightarrow> u64 \<Rightarrow> nat \<times> bytes"
  copy_from_user :: "u64 \<Rightarrow> u64 \<Rightarrow> nat \<times> bytes"

text \<open>
  Documented behaviour of the user copies: they return the number of bytes not copied, so with 0 the
  destination holds all of them.
\<close>

definition uaccess_ok :: "binder_env \<Rightarrow> bool" where
  "uaccess_ok env \<longleftrightarrow> (\<forall>src sz.
     (fst (copy_from_user_inatomic env src sz) = 0 \<longrightarrow>
        length (snd (copy_from_user_inatomic env src sz)) = unat sz) \<and>
     (fst (copy_from_user env src sz) = 0 \<longrightarrow>
        length (snd (copy_from_user env src sz)) = unat sz))"

definition zero_event :: rkx_binder_event where
  "zero_event = \<lparr>be_binder_type = 0, be_oneway = 0, be_from_pid = 0, be_from_uid = 0,
     be_target_pid = 0, be_target_uid = 0, be_code = 0,
     be_rpc_name = replicate RKX_INTERFACETOKEN_BUFF_SIZE 0\<rparr>"

text \<open>The sender and target fields every event of this file fills in.\<close>

definition binder_event :: "kernel \<Rightarrow> u8 \<Rightarrow> task_ref \<Rightarrow> task_ref \<Rightarrow> rkx_binder_event" where
  "binder_event k ty from target = zero_event\<lparr>
     be_binder_type := ty,
     be_from_pid := tsk_tgid (task k from), be_from_uid := tsk_uid (task k from),
     be_target_pid := tsk_tgid (task k target), be_target_uid := tsk_uid (task k target)\<rparr>"

section \<open>The hooks\<close>

definition alloc_of_arg :: "alloc_arg \<Rightarrow> binder_alloc option" where
  "alloc_of_arg a = (case a of Alloc al \<Rightarrow> Some al | Free_async_space al \<Rightarrow> al)"

definition rkx_binder_alloc_new_buf_locked_vh ::
  "binder_env \<Rightarrow> bool \<Rightarrow> u64 \<times> alloc_arg \<times> int \<Rightarrow> rkx_event list option" where
  "rkx_binder_alloc_new_buf_locked_vh env ready = (\<lambda>(sz, arg, is_async).
     case alloc_of_arg arg of
       None \<Rightarrow> Some []
     | Some alloc \<Rightarrow>
         if is_async \<noteq> 0 \<and>
            (ba_free_async_space alloc < 3 * (sz + sizeof_binder_buffer env) \<or>
             ba_free_async_space alloc < RKX_WARN_AHEAD_SPACE)
         then
           (case find_task_by_vpid env (ba_pid alloc) of
              None \<Rightarrow> Some []
            | Some p \<Rightarrow>
                if rkx_is_frozen (bk env) p \<and> ready then
                  Some [EV_BINDER ((binder_event (bk env) RKX_BINDER_FREE_BUFFER_FULL
                           (current env) p)\<lparr>be_oneway := 1, be_code := - 1,
                           be_rpc_name := char_array RKX_INTERFACETOKEN_BUFF_SIZE
                             ''FREE_BUFFER_FULL''\<rparr>)]
                else Some [])
         else Some [])"

definition rkx_binder_reply_vh ::
  "binder_env \<Rightarrow> bool \<Rightarrow> hook_proc option \<times> hook_proc \<Rightarrow> rkx_event list option" where
  "rkx_binder_reply_vh env ready = (\<lambda>(target_proc, proc).
     case target_proc of
       None \<Rightarrow> Some []
     | Some target \<Rightarrow>
         (case (hp_tsk target, hp_tsk proc) of
            (Some target_tsk, Some proc_tsk) \<Rightarrow>
              if tsk_uid (task (bk env) target_tsk) \<le> RKX_MAX_SYSTEM_UID \<and>
                 hp_pid proc \<noteq> hp_pid target \<and> rkx_is_frozen (bk env) target_tsk \<and> ready
              then
                Some [EV_BINDER ((binder_event (bk env) RKX_BINDER_REPLY proc_tsk target_tsk)
                        \<lparr>be_code := - 1,
                         be_rpc_name := char_array RKX_INTERFACETOKEN_BUFF_SIZE
                           ''SYNC_BINDER_REPLY''\<rparr>)]
              else Some []
          | _ \<Rightarrow> Some []))"

definition rk_copy_from_user_nofault :: "binder_env \<Rightarrow> u64 \<Rightarrow> u64 \<Rightarrow> int \<times> bytes" where
  "rk_copy_from_user_nofault env src sz =
     (let (ret, dst) = (if access_ok env src sz
                        then (int (fst (copy_from_user_inatomic env src sz)),
                              snd (copy_from_user_inatomic env src sz))
                        else (- EFAULT, []))
      in if ret \<noteq> 0 then (- EFAULT, dst) else (0, dst))"

definition rk_copy_from_user :: "binder_env \<Rightarrow> u64 \<Rightarrow> u64 \<Rightarrow> int \<times> bytes" where
  "rk_copy_from_user env src sz =
     (if LINUX_VERSION (bk env) \<ge> (6, 1, 0) then rk_copy_from_user_nofault env src sz
      else (int (fst (copy_from_user env src sz)), snd (copy_from_user env src sz)))"

text \<open>The guard both halves of the transaction hook share, after the test of the flags.\<close>

definition trans_guard ::
  "binder_env \<Rightarrow> hook_proc option \<Rightarrow> hook_proc \<Rightarrow> (task_ref \<times> task_ref) option" where
  "trans_guard env target_proc proc =
     (case target_proc of
        None \<Rightarrow> None
      | Some target \<Rightarrow>
          (case (hp_tsk target, hp_tsk proc) of
             (Some target_tsk, Some proc_tsk) \<Rightarrow>
               if tsk_uid (task (bk env) target_tsk) > RKX_MIN_APP_UID \<and>
                  hp_pid proc \<noteq> hp_pid target \<and> rkx_is_frozen (bk env) target_tsk
               then Some (proc_tsk, target_tsk) else None
           | _ \<Rightarrow> None))"

definition trans_sync ::
  "binder_env \<Rightarrow> bool \<Rightarrow> hook_proc option \<times> hook_proc \<times> binder_transaction_data \<Rightarrow>
     rkx_event list option" where
  "trans_sync env ready = (\<lambda>(target_proc, proc, tr).
     if tr_flags tr AND TF_ONE_WAY \<noteq> 0 then Some []
     else case trans_guard env target_proc proc of
            None \<Rightarrow> Some []
          | Some (proc_tsk, target_tsk) \<Rightarrow>
              if ready then
                Some [EV_BINDER ((binder_event (bk env) RKX_BINDER_TRANSACTION proc_tsk target_tsk)
                        \<lparr>be_code := - 1,
                         be_rpc_name := char_array RKX_INTERFACETOKEN_BUFF_SIZE ''SYNC_BINDER''\<rparr>)]
              else Some [])"

definition buf_data_size :: "binder_transaction_data \<Rightarrow> u64" where
  "buf_data_size tr =
     (if tr_data_size tr > of_nat RKX_INTERFACETOKEN_BUFF_SIZE
      then of_nat RKX_INTERFACETOKEN_BUFF_SIZE else tr_data_size tr)"

text \<open>The local array \<^verbatim>\<open>rpc_name\<close> after the copy loop of the asynchronous half.\<close>

definition trans_rpc_name :: "bytes \<Rightarrow> nat \<Rightarrow> bytes option" where
  "trans_rpc_name buf_data n =
     (let rpc_name = replicate RKX_INTERFACETOKEN_BUFF_SIZE 0
      in if n > RKX_PARCEL_OFFSET then
           (case token_loop RKX_INTERFACETOKEN_BUFF_SIZE n buf_data
                   0 (RKX_PARCEL_OFFSET + 1) RKX_PARCEL_OFFSET rpc_name of
              None \<Rightarrow> None
            | Some (i, rpc_name) \<Rightarrow>
                if i = RKX_INTERFACETOKEN_BUFF_SIZE then store8 rpc_name (i - 1) 0
                else Some rpc_name)
         else Some rpc_name)"

definition trans_async ::
  "binder_env \<Rightarrow> bool \<Rightarrow> hook_proc option \<times> hook_proc \<times> binder_transaction_data \<Rightarrow>
     rkx_event list option" where
  "trans_async env ready = (\<lambda>(target_proc, proc, tr).
     if tr_flags tr AND TF_ONE_WAY = 0 then Some []
     else case trans_guard env target_proc proc of
            None \<Rightarrow> Some []
          | Some (proc_tsk, target_tsk) \<Rightarrow>
              (let (ret, buf_data) = rk_copy_from_user env (tr_buffer tr) (buf_data_size tr)
               in if ret \<noteq> 0 then Some []
                  else
                    (case trans_rpc_name buf_data (unat (buf_data_size tr)) of
                       None \<Rightarrow> None
                     | Some rpc_name \<Rightarrow>
                         if ready then
                           (let event = (binder_event (bk env) RKX_BINDER_TRANSACTION
                                  proc_tsk target_tsk)\<lparr>be_oneway := 1, be_code := tr_code tr\<rparr>
                            in Some [EV_BINDER (event\<lparr>be_rpc_name :=
                                 strscpy (be_rpc_name event) rpc_name
                                   RKX_INTERFACETOKEN_BUFF_SIZE\<rparr>)])
                         else Some [])))"

definition rkx_binder_trans_vh ::
  "binder_env \<Rightarrow> bool \<Rightarrow> hook_proc option \<times> hook_proc \<times> binder_transaction_data \<Rightarrow>
     rkx_event list option" where
  "rkx_binder_trans_vh env ready args =
     (case trans_sync env ready args of
        None \<Rightarrow> None
      | Some evs \<Rightarrow> map_option (\<lambda>evs'. evs @ evs') (trans_async env ready args))"

section \<open>The hooks keep the event contract\<close>

lemma char_array_wf:
  "length s < RKX_INTERFACETOKEN_BUFF_SIZE \<Longrightarrow>
     length (char_array RKX_INTERFACETOKEN_BUFF_SIZE s) = RKX_INTERFACETOKEN_BUFF_SIZE \<and>
     0 \<in> set (char_array RKX_INTERFACETOKEN_BUFF_SIZE s)"
  by (auto simp: char_array_def)

lemma binder_event_name [simp]:
  "be_rpc_name (binder_event k ty f t) = replicate RKX_INTERFACETOKEN_BUFF_SIZE 0"
  by (simp add: binder_event_def zero_event_def)

lemma copy_from_user_len:
  assumes "uaccess_ok env" "rk_copy_from_user env src sz = (0, buf)"
  shows "length buf = unat sz"
  using assms
  by (auto simp: uaccess_ok_def rk_copy_from_user_def rk_copy_from_user_nofault_def Let_def
      rkx_const split: if_splits prod.splits)

lemma token_nil: "sz \<le> RKX_PARCEL_OFFSET \<Longrightarrow> token sz buf = []"
  by (simp add: token_def token_units_def)

lemma trans_rpc_name_eq:
  assumes "sz \<le> length buf" "sz \<le> RKX_INTERFACETOKEN_BUFF_SIZE"
  shows "trans_rpc_name buf sz =
    Some (token sz buf @ replicate (RKX_INTERFACETOKEN_BUFF_SIZE - length (token sz buf)) 0)"
proof -
  have "length (token sz buf) \<le> 62"
    by (rule length_token_140 [OF assms(2)])
  then show ?thesis
    using token_loop_start [OF assms(1), of RKX_INTERFACETOKEN_BUFF_SIZE
        "replicate RKX_INTERFACETOKEN_BUFF_SIZE 0"] token_nil [of sz buf]
    by (auto simp: trans_rpc_name_def Let_def rkx_const)
qed

lemma unat_buf_data_size:
  "unat (buf_data_size tr) = min RKX_INTERFACETOKEN_BUFF_SIZE (unat (tr_data_size tr))"
  by (auto simp: buf_data_size_def rkx_const word_less_nat_alt min_def)

lemma strscpy_token:
  assumes "sz \<le> RKX_INTERFACETOKEN_BUFF_SIZE"
  shows "strscpy d (token sz buf @
      replicate (RKX_INTERFACETOKEN_BUFF_SIZE - length (token sz buf)) 0) m =
    strscpy d (token sz buf @ [0]) m"
proof -
  have "length (token sz buf) < RKX_INTERFACETOKEN_BUFF_SIZE"
    using length_token_140 [OF assms, of buf] by (simp add: rkx_const)
  then obtain q where "RKX_INTERFACETOKEN_BUFF_SIZE - length (token sz buf) = Suc q"
    by (metis Suc_diff_Suc)
  then show ?thesis
    using cstr_append_nul [OF token_nonzero] by (simp add: strscpy_def)
qed

text \<open>What the asynchronous half sends, in one equation.\<close>

lemma trans_async_eq:
  assumes "uaccess_ok env"
  shows "trans_async env ready (target_proc, proc, tr) = Some
    (if tr_flags tr AND TF_ONE_WAY = 0 \<or> \<not> ready then []
     else case trans_guard env target_proc proc of
       None \<Rightarrow> []
     | Some (proc_tsk, target_tsk) \<Rightarrow>
         (let (ret, buf) = rk_copy_from_user env (tr_buffer tr) (buf_data_size tr)
          in if ret \<noteq> 0 then []
             else [EV_BINDER ((binder_event (bk env) RKX_BINDER_TRANSACTION proc_tsk target_tsk)
                     \<lparr>be_oneway := 1, be_code := tr_code tr,
                      be_rpc_name := strscpy (replicate RKX_INTERFACETOKEN_BUFF_SIZE 0)
                        (token (unat (buf_data_size tr)) buf @ [0])
                        RKX_INTERFACETOKEN_BUFF_SIZE\<rparr>)]))"
proof -
  obtain ret buf where c: "rk_copy_from_user env (tr_buffer tr) (buf_data_size tr) = (ret, buf)"
    by (cases "rk_copy_from_user env (tr_buffer tr) (buf_data_size tr)")
  have n: "unat (buf_data_size tr) \<le> RKX_INTERFACETOKEN_BUFF_SIZE"
    by (simp add: unat_buf_data_size)
  have "trans_rpc_name buf (unat (buf_data_size tr)) =
      Some (token (unat (buf_data_size tr)) buf @
        replicate (RKX_INTERFACETOKEN_BUFF_SIZE - length (token (unat (buf_data_size tr)) buf)) 0)"
    if "ret = 0"
    using trans_rpc_name_eq n copy_from_user_len [OF assms] c that by simp
  with c n show ?thesis
    by (cases "trans_guard env target_proc proc")
       (auto simp: trans_async_def strscpy_token)
qed

lemma trans_sync_some:
  "\<exists>evs. trans_sync env ready args = Some evs \<and> length evs \<le> 1 \<and> list_all event_wf evs \<and>
     (evs \<noteq> [] \<longrightarrow> ready \<and> tr_flags (snd (snd args)) AND TF_ONE_WAY = 0)"
  using char_array_wf [of "''SYNC_BINDER''"]
  by (auto simp: trans_sync_def rkx_const split: option.splits prod.splits)

lemma trans_async_some:
  assumes "uaccess_ok env"
  shows "\<exists>evs. trans_async env ready args = Some evs \<and> length evs \<le> 1 \<and> list_all event_wf evs \<and>
     (evs \<noteq> [] \<longrightarrow> ready \<and> tr_flags (snd (snd args)) AND TF_ONE_WAY \<noteq> 0)"
proof -
  obtain a b c where args: "args = (a, b, c)" by (cases args)
  show ?thesis
    unfolding args trans_async_eq [OF assms]
    by (auto simp: Let_def length_strscpy rkx_const split: option.splits prod.splits)
qed

interpretation alloc_hook: event_hook "\<lambda>_ _. True" rkx_binder_alloc_new_buf_locked_vh
  using char_array_wf [of "''FREE_BUFFER_FULL''"]
  by unfold_locales
     (auto simp: rkx_binder_alloc_new_buf_locked_vh_def rkx_const split: option.splits)

interpretation reply_hook: event_hook "\<lambda>_ _. True" rkx_binder_reply_vh
  using char_array_wf [of "''SYNC_BINDER_REPLY''"]
  by unfold_locales (auto simp: rkx_binder_reply_vh_def rkx_const split: option.splits)

interpretation trans_hook: event_hook "\<lambda>env _. uaccess_ok env" rkx_binder_trans_vh
proof unfold_locales
  fix env :: binder_env and args ready
  assume env: "uaccess_ok env"
  show "\<exists>evs. rkx_binder_trans_vh env ready args = Some evs \<and> length evs \<le> 1 \<and> list_all event_wf evs"
    using trans_sync_some [of env ready args] trans_async_some [OF env, of ready args]
    by (auto simp: rkx_binder_trans_vh_def)
  show "rkx_binder_trans_vh env False args = Some []"
    using trans_sync_some [of env False args] trans_async_some [OF env, of False args]
    by (auto simp: rkx_binder_trans_vh_def)
qed

section \<open>Registration of the hooks\<close>

text \<open>
  \<open>bh_attached\<close> is the kernel's side: the tracepoints that call into the module. The flags are the
  module's record of it. A registration that returns non-zero attaches nothing; the environment gives
  the three return codes.
\<close>

datatype binder_vh = VH_ALLOC_NEW_BUF | VH_REPLY | VH_TRANS

record binder_hooks =
  rkx_alloc_buf_hooked :: bool
  rkx_reply_hooked :: bool
  rkx_trans_hooked :: bool
  bh_attached :: "binder_vh set"

record binder_reg_env =
  rc_alloc :: int
  rc_reply :: int
  rc_trans :: int

definition unhook_trans :: "binder_hooks \<Rightarrow> binder_hooks" where
  "unhook_trans s = (if rkx_trans_hooked s
     then s\<lparr>bh_attached := bh_attached s - {VH_TRANS}, rkx_trans_hooked := False\<rparr> else s)"

definition unhook_reply :: "binder_hooks \<Rightarrow> binder_hooks" where
  "unhook_reply s = (if rkx_reply_hooked s
     then s\<lparr>bh_attached := bh_attached s - {VH_REPLY}, rkx_reply_hooked := False\<rparr> else s)"

definition unhook_alloc :: "binder_hooks \<Rightarrow> binder_hooks" where
  "unhook_alloc s = (if rkx_alloc_buf_hooked s
     then s\<lparr>bh_attached := bh_attached s - {VH_ALLOC_NEW_BUF}, rkx_alloc_buf_hooked := False\<rparr> else s)"

definition rkx_unregister_binder :: "binder_hooks \<Rightarrow> binder_hooks" where
  "rkx_unregister_binder s = unhook_alloc (unhook_reply (unhook_trans s))"

text \<open>A successful \<^verbatim>\<open>register_trace_android_vh_\<dots>\<close> call and the flag set after it.\<close>

definition hook_alloc :: "binder_hooks \<Rightarrow> binder_hooks" where
  "hook_alloc s = s\<lparr>bh_attached := insert VH_ALLOC_NEW_BUF (bh_attached s), rkx_alloc_buf_hooked := True\<rparr>"

definition hook_reply :: "binder_hooks \<Rightarrow> binder_hooks" where
  "hook_reply s = s\<lparr>bh_attached := insert VH_REPLY (bh_attached s), rkx_reply_hooked := True\<rparr>"

definition hook_trans :: "binder_hooks \<Rightarrow> binder_hooks" where
  "hook_trans s = s\<lparr>bh_attached := insert VH_TRANS (bh_attached s), rkx_trans_hooked := True\<rparr>"

definition rkx_register_binder :: "binder_reg_env \<Rightarrow> binder_hooks \<Rightarrow> int \<times> binder_hooks" where
  "rkx_register_binder env s =
     (if rc_alloc env \<noteq> RKX_SUCCESS then (rc_alloc env, rkx_unregister_binder s)
      else if rc_reply env \<noteq> RKX_SUCCESS
      then (rc_reply env, rkx_unregister_binder (hook_alloc s))
      else if rc_trans env \<noteq> RKX_SUCCESS
      then (rc_trans env, rkx_unregister_binder (hook_reply (hook_alloc s)))
      else (RKX_SUCCESS, hook_trans (hook_reply (hook_alloc s))))"

definition binder_flags_ok :: "binder_hooks \<Rightarrow> bool" where
  "binder_flags_ok s \<longleftrightarrow>
     (VH_ALLOC_NEW_BUF \<in> bh_attached s \<longleftrightarrow> rkx_alloc_buf_hooked s) \<and>
     (VH_REPLY \<in> bh_attached s \<longleftrightarrow> rkx_reply_hooked s) \<and>
     (VH_TRANS \<in> bh_attached s \<longleftrightarrow> rkx_trans_hooked s)"

definition binder_idle :: "binder_hooks \<Rightarrow> bool" where
  "binder_idle s \<longleftrightarrow> \<not> rkx_alloc_buf_hooked s \<and> \<not> rkx_reply_hooked s \<and> \<not> rkx_trans_hooked s"

lemma vh_set_empty:
  assumes "VH_ALLOC_NEW_BUF \<notin> A" "VH_REPLY \<notin> A" "VH_TRANS \<notin> A"
  shows "A = {}"
proof -
  have "x \<notin> A" for x using assms by (cases x) simp_all
  then show ?thesis by blast
qed

lemma vh_set_full:
  assumes "VH_ALLOC_NEW_BUF \<in> A" "VH_REPLY \<in> A" "VH_TRANS \<in> A"
  shows "A = UNIV"
proof -
  have "x \<in> A" for x using assms by (cases x) simp_all
  then show ?thesis by blast
qed

lemma binder_attached_iff: "binder_flags_ok s \<Longrightarrow> bh_attached s = {} \<longleftrightarrow> binder_idle s"
  using vh_set_empty [of "bh_attached s"] by (auto simp: binder_flags_ok_def binder_idle_def)

lemma unhook_flags_ok:
  "binder_flags_ok s \<Longrightarrow> binder_flags_ok (unhook_trans s)"
  "binder_flags_ok s \<Longrightarrow> binder_flags_ok (unhook_reply s)"
  "binder_flags_ok s \<Longrightarrow> binder_flags_ok (unhook_alloc s)"
  by (simp_all add: unhook_trans_def unhook_reply_def unhook_alloc_def binder_flags_ok_def)

lemma unregister_binder_ok: "binder_flags_ok s \<Longrightarrow> binder_flags_ok (rkx_unregister_binder s)"
  by (simp add: rkx_unregister_binder_def unhook_flags_ok)

lemma unregister_binder_idle: "binder_idle (rkx_unregister_binder s)"
  unfolding rkx_unregister_binder_def unhook_trans_def unhook_reply_def unhook_alloc_def binder_idle_def
  by (cases "rkx_trans_hooked s"; cases "rkx_reply_hooked s"; cases "rkx_alloc_buf_hooked s") simp_all

lemma unregister_binder_same: "binder_idle s \<Longrightarrow> rkx_unregister_binder s = s"
  by (simp add: rkx_unregister_binder_def unhook_trans_def unhook_reply_def unhook_alloc_def
      binder_idle_def)

lemma hook_flags_ok:
  "binder_flags_ok s \<Longrightarrow> binder_flags_ok (hook_alloc s)"
  "binder_flags_ok s \<Longrightarrow> binder_flags_ok (hook_reply s)"
  "binder_flags_ok s \<Longrightarrow> binder_flags_ok (hook_trans s)"
  by (simp_all add: binder_flags_ok_def hook_alloc_def hook_reply_def hook_trans_def)

lemma register_binder_ok: "binder_flags_ok s \<Longrightarrow> binder_flags_ok (snd (rkx_register_binder env s))"
  by (simp add: rkx_register_binder_def unregister_binder_ok hook_flags_ok)

lemma hook_all: "bh_attached (hook_trans (hook_reply (hook_alloc s))) = UNIV"
  by (rule vh_set_full) (simp_all add: hook_alloc_def hook_reply_def hook_trans_def)

lemma register_binder_rc:
  "fst (rkx_register_binder env s) = RKX_SUCCESS \<Longrightarrow>
     bh_attached (snd (rkx_register_binder env s)) = UNIV"
  "fst (rkx_register_binder env s) \<noteq> RKX_SUCCESS \<Longrightarrow>
     binder_idle (snd (rkx_register_binder env s))"
  by (simp_all add: rkx_register_binder_def unregister_binder_idle hook_all split: if_splits)

interpretation binder_reg: registration rkx_register_binder "\<lambda>_. rkx_unregister_binder"
  binder_flags_ok "\<lambda>s. bh_attached s \<noteq> {}" "\<lambda>s. bh_attached s = UNIV"
proof unfold_locales
  fix env and s :: binder_hooks
  assume ok: "binder_flags_ok s"
  show "binder_flags_ok (snd (rkx_register_binder env s))"
    by (rule register_binder_ok [OF ok])
  show "fst (rkx_register_binder env s) = RKX_SUCCESS \<Longrightarrow>
      bh_attached (snd (rkx_register_binder env s)) = UNIV"
    by (rule register_binder_rc)
  show "fst (rkx_register_binder env s) \<noteq> RKX_SUCCESS \<Longrightarrow>
      \<not> bh_attached (snd (rkx_register_binder env s)) \<noteq> {}"
    using register_binder_rc(2) binder_attached_iff [OF register_binder_ok [OF ok]] by blast
  show "binder_flags_ok (rkx_unregister_binder s)"
    by (rule unregister_binder_ok [OF ok])
  show "\<not> bh_attached (rkx_unregister_binder s) \<noteq> {}"
    using unregister_binder_idle binder_attached_iff [OF unregister_binder_ok [OF ok]] by blast
  show "\<not> bh_attached s \<noteq> {} \<Longrightarrow> rkx_unregister_binder s = s"
    using binder_attached_iff [OF ok] unregister_binder_same by blast
qed

section \<open>Properties\<close>

text \<open>A kernel with two tasks, both frozen, and user memory holding one parcel, for examples.\<close>

definition sample_kernel :: kernel where
  "sample_kernel = \<lparr>LINUX_VERSION = (6, 6, 0),
     task = (\<lambda>t. \<lparr>tsk_uid = (if t = 1 then 10086 else 1000), tsk_tgid = of_nat t, tsk_state = 0,
       tsk_jobctl = 0, tsk_group_leader = Some t\<rparr>),
     cgroup_task_frozen = (\<lambda>_. True), cgroup_task_freeze = (\<lambda>_. False), frozen = (\<lambda>_. False),
     freezing = (\<lambda>_. False), TASK_FROZEN = 32768, JOBCTL_TRAP_FREEZE = 8388608\<rparr>"

definition sample_parcel :: bytes where
  "sample_parcel = parcel (replicate RKX_PARCEL_OFFSET 7) [73, 65] [1, 2]"

definition sample_binder_env :: binder_env where
  "sample_binder_env = \<lparr>bk = sample_kernel, current = 0, find_task_by_vpid = (\<lambda>_. Some 1),
     sizeof_binder_buffer = 88, access_ok = (\<lambda>_ _. True),
     copy_from_user_inatomic = (\<lambda>_ n. if unat n \<le> length sample_parcel
       then (0, take (unat n) sample_parcel) else (1, [])),
     copy_from_user = (\<lambda>_ n. (1, []))\<rparr>"

definition sample_tr :: binder_transaction_data where
  "sample_tr = \<lparr>tr_flags = 1, tr_code = 5, tr_data_size = of_nat (length sample_parcel), tr_buffer = 4096\<rparr>"

definition proc_of :: "s32 \<Rightarrow> task_ref \<Rightarrow> hook_proc" where
  "proc_of pid t = \<lparr>hp_pid = pid, hp_tsk = Some t\<rparr>"

lemma sample_uaccess: "uaccess_ok sample_binder_env"
  by (simp add: uaccess_ok_def sample_binder_env_def)

lemma length_sample_parcel: "length sample_parcel = 24"
  by (simp add: sample_parcel_def parcel_def rkx_const)

lemma sample_guard: "trans_guard sample_binder_env (Some (proc_of 1 1)) (proc_of 2 0) = Some (0, 1)"
  by (simp add: trans_guard_def sample_binder_env_def sample_kernel_def proc_of_def rkx_is_frozen_def
      RKX_MIN_APP_UID_def)

lemma sample_copy:
  "rk_copy_from_user sample_binder_env (tr_buffer sample_tr) (buf_data_size sample_tr) =
     (0, take (unat (buf_data_size sample_tr)) sample_parcel)"
  by (simp add: rk_copy_from_user_def rk_copy_from_user_nofault_def sample_binder_env_def
      sample_kernel_def sample_tr_def buf_data_size_def length_sample_parcel rkx_const)

lemma one_way_iff: "tr_flags tr AND TF_ONE_WAY = 0 \<longleftrightarrow> \<not> bit (tr_flags tr) 0"
  by (simp add: TF_ONE_WAY_def and_one_eq bit_0 mod2_eq_if)

text \<open>The name depends only on the bytes the module copied.\<close>

lemma token_take_same: "sz \<le> length buf \<Longrightarrow> token sz (take sz buf) = token sz buf"
proof -
  have "token_units sz (take sz buf) = token_units sz buf"
    by (auto simp: token_units_def)
  then show ?thesis by (simp add: token_def)
qed



text \<open>
  C29: the interface name goes round. When a one-way transaction carries a parcel the framework wrote
  for an interface, the event of the hook carries that interface's name: all of it up to 62
  characters, which is what fits in the 140 bytes the module copies.
\<close>

theorem trans_vh_interface_name:
  assumes "uaccess_ok env" "trans_guard env target_proc proc = Some (from, target)"
    and "bit (tr_flags tr) 0" "length header = RKX_PARCEL_OFFSET" "0 \<notin> set name"
    and "unat (tr_data_size tr) = length (parcel header name rest)"
    and "rk_copy_from_user env (tr_buffer tr) (buf_data_size tr) =
      (0, take (unat (buf_data_size tr)) (parcel header name rest))"
  shows "\<exists>ev. rkx_binder_trans_vh env True (target_proc, proc, tr) = Some [EV_BINDER ev] \<and>
    cstr (be_rpc_name ev) = take 62 name"
proof -
  let ?n = "unat (buf_data_size tr)" and ?p = "parcel header name rest"
  have flag: "tr_flags tr AND TF_ONE_WAY \<noteq> 0"
    using assms(3) by (simp add: one_way_iff)
  have n: "?n = min 140 (length ?p)"
    using assms(6) by (simp add: unat_buf_data_size rkx_const)
  then have t: "token ?n (take ?n ?p) = take 62 name"
    using token_take_same [of ?n ?p] token_parcel_140 [OF assms(4,5), of ?n rest] by (simp add: rkx_const)
  have "0 \<notin> set (take 62 name)" using assms(5) by (auto dest: in_set_takeD)
  then show ?thesis
    using flag assms(2,7) t trans_async_eq [OF assms(1), of True target_proc proc tr]
    by (simp add: rkx_binder_trans_vh_def trans_sync_def rkx_cstr rkx_const)
qed

theorem trans_vh_interface_name_witness:
  "\<exists>ev. rkx_binder_trans_vh sample_binder_env True (Some (proc_of 1 1), proc_of 2 0, sample_tr) =
       Some [EV_BINDER ev] \<and> cstr (be_rpc_name ev) = [73, 65]"
  using trans_vh_interface_name [OF sample_uaccess sample_guard, of sample_tr
      "replicate RKX_PARCEL_OFFSET 7" "[73, 65]" "[1, 2]"]
    sample_copy length_sample_parcel
  by (simp add: sample_tr_def flip: sample_parcel_def)



end
