(* ===== verification/Rkx_Tables.thy ===== *)
theory Rkx_Tables
  imports Rkx_Uapi
begin

text \<open>
  The kernel hash tables both rule stores use (\<^verbatim>\<open>DEFINE_HASHTABLE\<close> in
  \<^verbatim>\<open>rkx_netuid.c\<close> and \<^verbatim>\<open>rkx_free_async.c\<close>): an array of chains. The hash
  functions of the kernel (\<^verbatim>\<open>hash_min\<close>, \<^verbatim>\<open>jhash\<close>) are parameters; the only
  thing the code relies on is that a bucket index is within the table (\<open>hash_env_ok\<close>). The locale
  \<open>keyed_table\<close> is the contract the rest of the module relies on: a rule store is a finite map.
\<close>

section \<open>Chained hash tables\<close>

type_synonym 'a table = "'a list list"

record hash_env =
  hash_min :: "u32 \<Rightarrow> nat"
  jhash :: "bytes \<Rightarrow> u32 \<Rightarrow> u32"

text \<open>Both tables of the module have \<open>2 ^ 6\<close> chains; a hash selects one of them.\<close>

definition hash_env_ok :: "hash_env \<Rightarrow> bool" where
  "hash_env_ok env \<longleftrightarrow> (\<forall>k. hash_min env k < 2 ^ 6)"

text \<open>A concrete hash environment, for examples.\<close>

definition sample_hash :: hash_env where
  "sample_hash = \<lparr>hash_min = (\<lambda>k. unat k mod 64), jhash = (\<lambda>b seed. of_nat (length b) + seed)\<rparr>"

lemma sample_hash_ok [simp]: "hash_env_ok sample_hash"
  by (simp add: hash_env_ok_def sample_hash_def)

definition hash_init :: "nat \<Rightarrow> 'a table" where
  "hash_init bits = replicate (2 ^ bits) []"

definition hash_bucket :: "'a table \<Rightarrow> nat \<Rightarrow> 'a list" where
  "hash_bucket t i = (if i < length t then t ! i else [])"

text \<open>\<^verbatim>\<open>hash_add_rcu\<close>: the new node becomes the head of its chain.\<close>

definition hash_add :: "'a table \<Rightarrow> nat \<Rightarrow> 'a \<Rightarrow> 'a table" where
  "hash_add t i x = t[i := x # hash_bucket t i]"

text \<open>A \<^verbatim>\<open>hash_for_each_possible\<close> loop that deletes, or updates, the first match and breaks.\<close>

fun del_first :: "('a \<Rightarrow> bool) \<Rightarrow> 'a list \<Rightarrow> 'a list" where
  "del_first P [] = []"
| "del_first P (x # xs) = (if P x then xs else x # del_first P xs)"

fun upd_first :: "('a \<Rightarrow> bool) \<Rightarrow> ('a \<Rightarrow> 'a) \<Rightarrow> 'a list \<Rightarrow> 'a list" where
  "upd_first P f [] = []"
| "upd_first P f (x # xs) = (if P x then f x # xs else x # upd_first P f xs)"

definition hash_del :: "('a \<Rightarrow> bool) \<Rightarrow> 'a table \<Rightarrow> nat \<Rightarrow> 'a table" where
  "hash_del P t i = t[i := del_first P (hash_bucket t i)]"

definition hash_upd :: "('a \<Rightarrow> bool) \<Rightarrow> ('a \<Rightarrow> 'a) \<Rightarrow> 'a table \<Rightarrow> nat \<Rightarrow> 'a table" where
  "hash_upd P f t i = t[i := upd_first P f (hash_bucket t i)]"

text \<open>A \<^verbatim>\<open>hash_for_each_safe\<close> loop that unlinks every node.\<close>

fun drain :: "'a list \<Rightarrow> 'a list" where
  "drain [] = []"
| "drain (e # tmp) = drain tmp"

definition hash_clear :: "'a table \<Rightarrow> 'a table" where
  "hash_clear t = map drain t"

definition entries :: "'a table \<Rightarrow> 'a set" where
  "entries t = set (concat t)"

definition entry_count :: "'a table \<Rightarrow> nat" where
  "entry_count t = length (concat t)"

text \<open>
  The representation invariant: every node is in the chain of its key, and a chain holds at most
  one node for a key.
\<close>

definition table_inv :: "('k \<Rightarrow> nat) \<Rightarrow> ('a \<Rightarrow> 'k) \<Rightarrow> nat \<Rightarrow> 'a table \<Rightarrow> bool" where
  "table_inv h key n t \<longleftrightarrow>
     length t = n \<and> (\<forall>k. h k < n) \<and>
     (\<forall>i < n. distinct (map key (t ! i)) \<and> (\<forall>e \<in> set (t ! i). h (key e) = i))"

definition table_find :: "('a \<Rightarrow> 'k) \<Rightarrow> 'a table \<Rightarrow> 'k \<Rightarrow> 'a option" where
  "table_find key t k = find (\<lambda>e. key e = k) (concat t)"

subsection \<open>Chains\<close>

lemma del_first_none: "\<forall>x \<in> set xs. \<not> P x \<Longrightarrow> del_first P xs = xs"
  by (induction xs) auto

lemma drain_Nil [simp]: "drain xs = []"
  by (induction xs) auto

lemma set_del_first:
  assumes "distinct (map key xs)"
  shows "set (del_first (\<lambda>e. key e = k) xs) = {e \<in> set xs. key e \<noteq> k}"
  using assms by (induction xs) (auto simp: image_iff)

lemma distinct_del_first:
  assumes "distinct (map key xs)"
  shows "distinct (map key (del_first (\<lambda>e. key e = k) xs))"
  using assms by (induction xs) (auto simp: set_del_first)

lemma map_key_upd_first:
  assumes "\<And>e. key (f e) = key e"
  shows "map key (upd_first P f xs) = map key xs"
  using assms by (induction xs) auto

lemma set_upd_first:
  assumes "distinct (map key xs)" "\<And>e. key (f e) = key e"
  shows "set (upd_first (\<lambda>e. key e = k) f xs) =
    {e \<in> set xs. key e \<noteq> k} \<union> f ` {e \<in> set xs. key e = k}"
  using assms(1)
proof (induction xs)
  case (Cons x xs)
  show ?case
  proof (cases "key x = k")
    case True
    with Cons.prems have "\<forall>e \<in> set xs. key e \<noteq> k" by (auto simp: image_iff)
    with True show ?thesis by auto
  next
    case False
    with Cons show ?thesis by auto
  qed
qed simp

lemma length_del_first:
  "length (del_first P xs) = length xs - (if \<exists>x \<in> set xs. P x then 1 else 0)"
proof (induction xs)
  case (Cons x xs)
  then show ?case by (cases xs) auto
qed simp

lemma length_upd_first [simp]: "length (upd_first P f xs) = length xs"
  by (induction xs) auto

subsection \<open>The table as a set of entries with unique keys\<close>

lemma hash_bucket_init [simp]: "hash_bucket (hash_init b) i = []"
  by (simp add: hash_bucket_def hash_init_def)

lemma entries_init [simp]: "entries (hash_init b) = {}"
  by (simp add: entries_def hash_init_def)

lemma table_inv_init: "(\<forall>k. h k < 2 ^ b) \<Longrightarrow> table_inv h key (2 ^ b) (hash_init b)"
  by (simp add: table_inv_def hash_init_def)

lemma table_inv_clear: "table_inv h key n t \<Longrightarrow> table_inv h key n (hash_clear t)"
  by (simp add: table_inv_def hash_clear_def)

lemma entries_clear [simp]: "entries (hash_clear t) = {}"
  by (induction t) (auto simp: entries_def hash_clear_def)

lemma entry_count_clear [simp]: "entry_count (hash_clear t) = 0"
  by (induction t) (auto simp: entry_count_def hash_clear_def)

lemma entry_count_init [simp]: "entry_count (hash_init b) = 0"
  by (simp add: entry_count_def hash_init_def)

lemma entries_iff: "e \<in> entries t \<longleftrightarrow> (\<exists>i < length t. e \<in> set (t ! i))"
  unfolding entries_def set_concat
  by (metis (no_types, lifting) UN_iff in_set_conv_nth)

lemma bucket_iff:
  assumes "table_inv h key n t"
  shows "e \<in> set (hash_bucket t (h k)) \<longleftrightarrow> e \<in> entries t \<and> h (key e) = h k"
  using assms by (auto simp: table_inv_def hash_bucket_def entries_iff)

lemma bucket_key_iff:
  assumes "table_inv h key n t"
  shows "(\<exists>e \<in> set (hash_bucket t (h k)). key e = k) \<longleftrightarrow> k \<in> key ` entries t"
  using bucket_iff [OF assms, of _ k] by force

lemma bucket_distinct:
  assumes "table_inv h key n t"
  shows "distinct (map key (hash_bucket t i))"
  using assms by (simp add: table_inv_def hash_bucket_def)

lemma key_unique:
  assumes "table_inv h key n t" "e \<in> entries t" "e' \<in> entries t" "key e = key e'"
  shows "e = e'"
proof -
  let ?b = "hash_bucket t (h (key e))"
  have "e \<in> set ?b" "e' \<in> set ?b"
    using assms bucket_iff [OF assms(1), of _ "key e"] by auto
  moreover have "inj_on key (set ?b)"
    using bucket_distinct [OF assms(1)] by (simp add: distinct_map)
  ultimately show ?thesis using assms(4) by (auto dest: inj_onD)
qed

lemma find_eq_SomeI:
  assumes "e \<in> set xs" "P e" "\<And>e'. e' \<in> set xs \<Longrightarrow> P e' \<Longrightarrow> e' = e"
  shows "find P xs = Some e"
proof -
  from assms(1,2) have "find P xs \<noteq> None" by (auto simp: find_None_iff)
  then obtain e' where e': "find P xs = Some e'" by blast
  then have "e' \<in> set xs" "P e'" unfolding find_Some_iff by (metis nth_mem)+
  then have "e' = e" by (rule assms(3))
  with e' show ?thesis by simp
qed

lemma table_find_Some:
  assumes "table_inv h key n t"
  shows "table_find key t k = Some e \<longleftrightarrow> e \<in> entries t \<and> key e = k"
proof
  assume "table_find key t k = Some e"
  then show "e \<in> entries t \<and> key e = k"
    unfolding table_find_def entries_def find_Some_iff by (metis nth_mem)
next
  assume "e \<in> entries t \<and> key e = k"
  then show "table_find key t k = Some e"
    unfolding table_find_def
    using key_unique [OF assms] by (intro find_eq_SomeI) (auto simp: entries_def)
qed

lemma table_find_None: "table_find key t k = None \<longleftrightarrow> k \<notin> key ` entries t"
  by (auto simp: table_find_def find_None_iff entries_def)

lemma find_bucket:
  assumes "table_inv h key n t"
  shows "find (\<lambda>e. key e = k) (hash_bucket t (h k)) = table_find key t k"
proof (cases "table_find key t k")
  case None
  then have "find (\<lambda>e. key e = k) (hash_bucket t (h k)) = None"
    using bucket_key_iff [OF assms, of k] by (auto simp: table_find_None find_None_iff)
  with None show ?thesis by simp
next
  case (Some e)
  then have e: "e \<in> entries t" "key e = k"
    using table_find_Some [OF assms] by auto
  have "find (\<lambda>e. key e = k) (hash_bucket t (h k)) = Some e"
    using e bucket_iff [OF assms, of _ k] key_unique [OF assms]
    by (intro find_eq_SomeI) auto
  with Some show ?thesis by simp
qed

lemma list_update_entries:
  assumes "i < length t"
  shows "entries (t[i := b]) = set b \<union> {e. \<exists>j < length t. j \<noteq> i \<and> e \<in> set (t ! j)}"
  using assms by (auto simp: entries_iff nth_list_update split: if_splits)

lemma other_buckets:
  assumes "table_inv h key n t"
  shows "{e. \<exists>j < length t. j \<noteq> i \<and> e \<in> set (t ! j)} = {e \<in> entries t. h (key e) \<noteq> i}"
  using assms by (auto simp: table_inv_def entries_iff)

lemma entries_update:
  assumes "table_inv h key n t"
  shows "entries (t[h k := b]) = set b \<union> {e \<in> entries t. h (key e) \<noteq> h k}"
  using assms other_buckets [OF assms]
  by (subst list_update_entries) (auto simp: table_inv_def)

lemma table_inv_update:
  assumes "table_inv h key n t" "distinct (map key b)" "\<And>e. e \<in> set b \<Longrightarrow> h (key e) = i"
  shows "table_inv h key n (t[i := b])"
proof -
  have "distinct (map key (t[i := b] ! j)) \<and> (\<forall>e \<in> set (t[i := b] ! j). h (key e) = j)"
    if "j < length t" for j
    using assms that by (cases "j = i") (auto simp: table_inv_def)
  then show ?thesis using assms(1) by (simp add: table_inv_def)
qed

lemma hash_add_correct:
  assumes t: "table_inv h key n t" and new: "key x \<notin> key ` entries t"
  shows "table_inv h key n (hash_add t (h (key x)) x)"
    and "entries (hash_add t (h (key x)) x) = insert x (entries t)"
proof -
  let ?b = "hash_bucket t (h (key x))"
  have "\<forall>e \<in> set ?b. key e \<noteq> key x"
    using new bucket_key_iff [OF t] by auto
  then have d: "distinct (map key (x # ?b))"
    using bucket_distinct [OF t] by (auto simp: image_iff)
  then show "table_inv h key n (hash_add t (h (key x)) x)"
    unfolding hash_add_def
    using bucket_iff [OF t] by (intro table_inv_update [OF t]) auto
  show "entries (hash_add t (h (key x)) x) = insert x (entries t)"
    using bucket_iff [OF t] by (auto simp: hash_add_def entries_update [OF t])
qed

lemma hash_del_correct:
  assumes t: "table_inv h key n t"
  shows "table_inv h key n (hash_del (\<lambda>e. key e = k) t (h k))"
    and "entries (hash_del (\<lambda>e. key e = k) t (h k)) = {e \<in> entries t. key e \<noteq> k}"
proof -
  show "table_inv h key n (hash_del (\<lambda>e. key e = k) t (h k))"
    unfolding hash_del_def
    using bucket_distinct [OF t] bucket_iff [OF t]
    by (intro table_inv_update [OF t]) (auto simp: distinct_del_first set_del_first)
  show "entries (hash_del (\<lambda>e. key e = k) t (h k)) = {e \<in> entries t. key e \<noteq> k}"
    using bucket_distinct [OF t] bucket_iff [OF t]
    by (auto simp: hash_del_def entries_update [OF t] set_del_first)
qed

lemma hash_upd_correct:
  assumes t: "table_inv h key n t" and f: "\<And>e. key (f e) = key e"
  shows "table_inv h key n (hash_upd (\<lambda>e. key e = k) f t (h k))"
    and "entries (hash_upd (\<lambda>e. key e = k) f t (h k)) =
      {e \<in> entries t. key e \<noteq> k} \<union> f ` {e \<in> entries t. key e = k}"
proof -
  let ?b = "hash_bucket t (h k)"
  note d = bucket_distinct [OF t, of "h k"]
  note set = set_upd_first [of key ?b f k, OF d f]
  have in_b: "e \<in> set ?b \<longleftrightarrow> e \<in> entries t \<and> h (key e) = h k" for e
    by (rule bucket_iff [OF t])
  have "h (key e) = h k" if "e \<in> set (upd_first (\<lambda>e. key e = k) f ?b)" for e
    using that f unfolding set in_b by auto
  then show "table_inv h key n (hash_upd (\<lambda>e. key e = k) f t (h k))"
    unfolding hash_upd_def using d
    by (intro table_inv_update [OF t]) (simp_all add: map_key_upd_first [of key f, OF f])
  show "entries (hash_upd (\<lambda>e. key e = k) f t (h k)) =
      {e \<in> entries t. key e \<noteq> k} \<union> f ` {e \<in> entries t. key e = k}"
    unfolding hash_upd_def entries_update [OF t] set in_b by auto
qed

subsection \<open>The number of entries\<close>

lemma entry_count_update:
  assumes "i < length t"
  shows "entry_count (t[i := b]) + length (t ! i) = entry_count t + length b"
  using assms
proof (induction t arbitrary: i)
  case (Cons x t)
  then show ?case by (cases i) (auto simp: entry_count_def)
qed simp

lemma entry_count_add:
  "i < length t \<Longrightarrow> entry_count (hash_add t i x) = entry_count t + 1"
  using entry_count_update [of i t "x # hash_bucket t i"]
  by (simp add: hash_add_def hash_bucket_def)

lemma entry_count_upd [simp]: "entry_count (hash_upd P f t i) = entry_count t"
proof (cases "i < length t")
  case True
  then show ?thesis
    using entry_count_update [of i t "upd_first P f (hash_bucket t i)"]
    by (simp add: hash_upd_def hash_bucket_def)
qed (simp add: hash_upd_def list_update_beyond)

lemma entry_count_del:
  assumes "i < length t"
  shows "entry_count (hash_del P t i) =
    entry_count t - (if \<exists>x \<in> set (hash_bucket t i). P x then 1 else 0)"
proof -
  let ?b = "hash_bucket t i"
  have "entry_count (hash_del P t i) + length ?b = entry_count t + length (del_first P ?b)"
    using entry_count_update [OF assms, of "del_first P ?b"] assms
    by (simp add: hash_del_def hash_bucket_def)
  moreover have "length (del_first P ?b) \<le> length ?b"
    by (simp add: length_del_first)
  moreover have "(\<exists>x \<in> set ?b. P x) \<Longrightarrow> 0 < length ?b"
    by (cases ?b) auto
  moreover have "length ?b \<le> entry_count t"
    using entry_count_update [OF assms, of "[]"] assms by (simp add: hash_bucket_def)
  ultimately show ?thesis
    by (cases "\<exists>x \<in> set ?b. P x") (simp_all add: length_del_first del: length_greater_0_conv)
qed

lemma entry_count_pos:
  "e \<in> entries t \<Longrightarrow> 0 < entry_count t"
  unfolding entries_def entry_count_def by (rule length_pos_if_in_set)

lemma entry_count_0: "entry_count t = 0 \<longleftrightarrow> entries t = {}"
  by (simp add: entries_def entry_count_def)

subsection \<open>Unlinking loses no node\<close>

lemma mset_del_first:
  "find P xs = Some e \<Longrightarrow> mset xs = add_mset e (mset (del_first P xs))"
  by (induction xs) (auto split: if_splits)

lemma mset_concat_update:
  assumes "i < length t"
  shows "mset (concat (t[i := b])) + mset (t ! i) = mset (concat t) + mset b"
  using assms
proof (induction t arbitrary: i)
  case (Cons x t)
  then show ?case by (cases i) (auto simp: ac_simps)
qed simp

lemma mset_hash_del:
  assumes "find P (hash_bucket t i) = Some e"
  shows "mset (concat t) = add_mset e (mset (concat (hash_del P t i)))"
proof -
  have i: "i < length t"
    using assms by (auto simp: hash_bucket_def split: if_splits)
  have "mset (concat (hash_del P t i)) + mset (t ! i) =
      mset (concat t) + mset (del_first P (t ! i))"
    using mset_concat_update [OF i] i by (simp add: hash_del_def hash_bucket_def)
  moreover have "mset (t ! i) = add_mset e (mset (del_first P (t ! i)))"
    using mset_del_first [OF assms] i by (simp add: hash_bucket_def)
  ultimately show ?thesis by simp
qed

lemma concat_hash_clear [simp]: "concat (hash_clear t) = []"
  by (induction t) (auto simp: hash_clear_def)

section \<open>The contract of a rule store\<close>

text \<open>
  A command carries the outcome of the node allocation it may need; \<open>avail\<close> says whether that
  outcome is a node.
\<close>

datatype ('o, 'k, 'v) table_cmd = Put 'o 'k 'v | Del 'k | Clear

fun table_step ::
  "('e \<Rightarrow> 'o \<Rightarrow> 'k \<Rightarrow> 'v \<Rightarrow> 't \<Rightarrow> 't) \<Rightarrow> ('e \<Rightarrow> 'k \<Rightarrow> 't \<Rightarrow> 't) \<Rightarrow> ('t \<Rightarrow> 't) \<Rightarrow>
     'e \<Rightarrow> 't \<Rightarrow> ('o, 'k, 'v) table_cmd \<Rightarrow> 't" where
  "table_step put del clear e t (Put a k v) = put e a k v t"
| "table_step put del clear e t (Del k) = del e k t"
| "table_step put del clear e t Clear = clear t"

text \<open>
  The same commands on a map, the abstract specification: a key that is already present needs no
  new node.
\<close>

fun map_step :: "('o \<Rightarrow> bool) \<Rightarrow> ('k \<rightharpoonup> 'v) \<Rightarrow> ('o, 'k, 'v) table_cmd \<Rightarrow> ('k \<rightharpoonup> 'v)" where
  "map_step avail m (Put a k v) = (if avail a \<or> m k \<noteq> None then m(k \<mapsto> v) else m)"
| "map_step avail m (Del k) = m(k := None)"
| "map_step avail m Clear = Map.empty"

fun cmd_ok :: "('k \<Rightarrow> bool) \<Rightarrow> ('v \<Rightarrow> bool) \<Rightarrow> ('o, 'k, 'v) table_cmd \<Rightarrow> bool" where
  "cmd_ok okk okv (Put a k v) = (okk k \<and> okv v)"
| "cmd_ok okk okv (Del k) = okk k"
| "cmd_ok okk okv Clear = True"

locale keyed_table =
  fixes env_ok :: "'e \<Rightarrow> bool"
    and inv :: "'e \<Rightarrow> 't \<Rightarrow> bool"
    and view :: "'t \<Rightarrow> 'k \<Rightarrow> 'v option"
    and okk :: "'k \<Rightarrow> bool"
    and okv :: "'v \<Rightarrow> bool"
    and avail :: "'o \<Rightarrow> bool"
    and init :: "'t"
    and put :: "'e \<Rightarrow> 'o \<Rightarrow> 'k \<Rightarrow> 'v \<Rightarrow> 't \<Rightarrow> 't"
    and del :: "'e \<Rightarrow> 'k \<Rightarrow> 't \<Rightarrow> 't"
    and clear :: "'t \<Rightarrow> 't"
  assumes inv_init: "env_ok e \<Longrightarrow> inv e init"
    and view_init: "view init = Map.empty"
    and inv_put: "inv e t \<Longrightarrow> inv e (put e a k v t)"
    and view_put: "inv e t \<Longrightarrow> okk k \<Longrightarrow> okv v \<Longrightarrow>
      view (put e a k v t) = (if avail a \<or> view t k \<noteq> None then (view t)(k \<mapsto> v) else view t)"
    and inv_del: "inv e t \<Longrightarrow> inv e (del e k t)"
    and view_del: "inv e t \<Longrightarrow> okk k \<Longrightarrow> view (del e k t) = (view t)(k := None)"
    and inv_clear: "inv e t \<Longrightarrow> inv e (clear t)"
    and view_clear: "view (clear t) = Map.empty"
begin

lemma step_inv: "inv e t \<Longrightarrow> inv e (table_step put del clear e t c)"
  by (cases c) (auto simp: inv_put inv_del inv_clear)

lemma step_refines:
  "inv e t \<Longrightarrow> cmd_ok okk okv c \<Longrightarrow>
     view (table_step put del clear e t c) = map_step avail (view t) c"
  by (cases c) (auto simp: view_put view_del view_clear)

lemma run_inv: "inv e t \<Longrightarrow> inv e (foldl (table_step put del clear e) t cs)"
  by (induction cs arbitrary: t) (auto simp: step_inv)

lemma run_refines:
  "inv e t \<Longrightarrow> list_all (cmd_ok okk okv) cs \<Longrightarrow>
     view (foldl (table_step put del clear e) t cs) = foldl (map_step avail) (view t) cs"
  by (induction cs arbitrary: t) (auto simp: step_inv step_refines)

lemma run_init_inv: "env_ok e \<Longrightarrow> inv e (foldl (table_step put del clear e) init cs)"
  by (rule run_inv [OF inv_init])

lemma run_init_refines:
  "env_ok e \<Longrightarrow> list_all (cmd_ok okk okv) cs \<Longrightarrow>
     view (foldl (table_step put del clear e) init cs) = foldl (map_step avail) Map.empty cs"
  using run_refines [OF inv_init] by (simp add: view_init)

end

end
