(* ===== verification/Rkx_Free_Async.thy ===== *)
theory Rkx_Free_Async
  imports Rkx_Tables
begin

text \<open>
  \<^verbatim>\<open>LKM-Source/rkx_free_async.c\<close>: the rules that say what to do with an outdated
  asynchronous transaction, keyed by interface name and transaction code. A code of \<open>-1\<close> is a
  wildcard. Pointer arguments the code compares with \<^verbatim>\<open>NULL\<close> are options; the strategy
  out-parameter is passed and returned.
\<close>

definition RKX_FREE_ASYNC_HASH_BITS :: nat where
  [rkx_const]: "RKX_FREE_ASYNC_HASH_BITS = 6"

record rkx_free_async_entry =
  fa_rpc_name :: bytes
  fa_code :: s32
  fa_strategy :: u8

record free_async_state =
  rkx_free_async_map :: "rkx_free_async_entry table"
  rkx_free_async_count :: s32

definition rkx_free_async_hash :: "hash_env \<Rightarrow> bytes \<Rightarrow> u32" where
  "rkx_free_async_hash env rpc_name = jhash env (take (strlen rpc_name) rpc_name) 0"

definition rkx_free_async_strategy_valid :: "u8 \<Rightarrow> bool" where
  "rkx_free_async_strategy_valid strategy \<longleftrightarrow>
     strategy = RKX_FREE_ASYNC_SKIP \<or> strategy = RKX_FREE_ASYNC_BY_CODE \<or>
     strategy = RKX_FREE_ASYNC_BY_DATA"

definition rkx_free_async_has_entries :: "free_async_state \<Rightarrow> bool" where
  "rkx_free_async_has_entries st \<longleftrightarrow> sint (rkx_free_async_count st) > 0"

text \<open>
  The loop of the lookup: \<open>exact\<close> and \<open>wild\<close> are the local variables; an exact match ends the
  loop.
\<close>

fun fa_scan :: "bytes \<Rightarrow> s32 \<Rightarrow> rkx_free_async_entry list \<Rightarrow> u8 \<Rightarrow> u8 \<Rightarrow> u8 \<times> u8" where
  "fa_scan rpc_name code [] exact wild = (exact, wild)"
| "fa_scan rpc_name code (entry # es) exact wild =
     (if \<not> strcmp_eq (fa_rpc_name entry) rpc_name then fa_scan rpc_name code es exact wild
      else if fa_code entry = code then (fa_strategy entry, wild)
      else if fa_code entry = - 1 then fa_scan rpc_name code es exact (fa_strategy entry)
      else fa_scan rpc_name code es exact wild)"

definition rkx_free_async_lookup_rcu ::
  "hash_env \<Rightarrow> free_async_state \<Rightarrow> bytes option \<Rightarrow> s32 \<Rightarrow> u8 option \<Rightarrow> bool \<times> u8 option" where
  "rkx_free_async_lookup_rcu env st rpc_name code strategy_out =
     (case (rpc_name, strategy_out) of
        (Some name, Some out) \<Rightarrow>
          if \<not> rkx_free_async_has_entries st then (False, strategy_out)
          else
            (let key = rkx_free_async_hash env name;
                 (exact, wild) =
                   fa_scan name code (hash_bucket (rkx_free_async_map st) (hash_min env key)) 0 0
             in if exact \<noteq> 0 then (True, Some exact)
                else if wild \<noteq> 0 then (True, Some wild)
                else (False, strategy_out))
      | _ \<Rightarrow> (False, strategy_out))"

definition rkx_add_free_async ::
  "hash_env \<Rightarrow> rkx_free_async_entry option \<Rightarrow> bytes option \<Rightarrow> s32 \<Rightarrow> u8 \<Rightarrow> free_async_state \<Rightarrow>
     int \<times> free_async_state" where
  "rkx_add_free_async env kmalloc rpc_name code strategy st =
     (case rpc_name of
        None \<Rightarrow> (- EINVAL, st)
      | Some name \<Rightarrow>
          if strlen name = 0 \<or> sint code < - 1 \<or> \<not> rkx_free_async_strategy_valid strategy
          then (- EINVAL, st)
          else
            (let len = strnlen name RKX_INTERFACETOKEN_BUFF_SIZE
             in if len = 0 \<or> len \<ge> RKX_INTERFACETOKEN_BUFF_SIZE then (- EINVAL, st)
                else
                  (let key = rkx_free_async_hash env name;
                       b = hash_min env key;
                       hit = (\<lambda>entry. fa_code entry = code \<and> strcmp_eq (fa_rpc_name entry) name);
                       m = rkx_free_async_map st
                   in case find hit (hash_bucket m b) of
                        Some entry \<Rightarrow>
                          (0, st\<lparr>rkx_free_async_map :=
                                hash_upd hit (\<lambda>entry. entry\<lparr>fa_strategy := strategy\<rparr>) m b\<rparr>)
                      | None \<Rightarrow>
                          (case kmalloc of
                             None \<Rightarrow> (- ENOMEM, st)
                           | Some entry \<Rightarrow>
                               (0, st\<lparr>rkx_free_async_map := hash_add m b
                                       (entry\<lparr>fa_rpc_name := strscpy (fa_rpc_name entry) name
                                                RKX_INTERFACETOKEN_BUFF_SIZE,
                                              fa_code := code, fa_strategy := strategy\<rparr>),
                                      rkx_free_async_count := rkx_free_async_count st + 1\<rparr>)))))"

definition rkx_del_free_async ::
  "hash_env \<Rightarrow> bytes option \<Rightarrow> s32 \<Rightarrow> free_async_state \<Rightarrow>
     int \<times> free_async_state \<times> rkx_free_async_entry list" where
  "rkx_del_free_async env rpc_name code st =
     (case rpc_name of
        None \<Rightarrow> (- EINVAL, st, [])
      | Some name \<Rightarrow>
          if strlen name = 0 \<or> sint code < - 1 then (- EINVAL, st, [])
          else
            (let key = rkx_free_async_hash env name;
                 b = hash_min env key;
                 hit = (\<lambda>entry. fa_code entry = code \<and> strcmp_eq (fa_rpc_name entry) name);
                 m = rkx_free_async_map st
             in case find hit (hash_bucket m b) of
                  None \<Rightarrow> (0, st, [])
                | Some entry \<Rightarrow>
                    (0, st\<lparr>rkx_free_async_map := hash_del hit m b,
                           rkx_free_async_count := rkx_free_async_count st - 1\<rparr>, [entry])))"

definition rkx_destroy_free_async ::
  "free_async_state \<Rightarrow> free_async_state \<times> rkx_free_async_entry list" where
  "rkx_destroy_free_async st =
     (st\<lparr>rkx_free_async_map := hash_clear (rkx_free_async_map st), rkx_free_async_count := 0\<rparr>,
      concat (rkx_free_async_map st))"

definition rkx_init_free_async :: free_async_state where
  "rkx_init_free_async =
     \<lparr>rkx_free_async_map = hash_init RKX_FREE_ASYNC_HASH_BITS, rkx_free_async_count = 0\<rparr>"

section \<open>The rules as a map\<close>

type_synonym rule_key = "bytes \<times> s32"

definition fa_key :: "rkx_free_async_entry \<Rightarrow> rule_key" where
  "fa_key entry = (cstr (fa_rpc_name entry), fa_code entry)"

definition fa_index :: "hash_env \<Rightarrow> rule_key \<Rightarrow> nat" where
  "fa_index env = (\<lambda>(name, code). hash_min env (jhash env name 0))"

definition rules :: "free_async_state \<Rightarrow> rule_key \<Rightarrow> u8 option" where
  "rules st k = map_option fa_strategy (table_find fa_key (rkx_free_async_map st) k)"

text \<open>The keys and strategies a rule may have.\<close>

definition rule_key_ok :: "rule_key \<Rightarrow> bool" where
  "rule_key_ok = (\<lambda>(name, code). name \<noteq> [] \<and> 0 \<notin> set name \<and>
     length name < RKX_INTERFACETOKEN_BUFF_SIZE \<and> - 1 \<le> sint code)"

definition fa_inv :: "hash_env \<Rightarrow> free_async_state \<Rightarrow> bool" where
  "fa_inv env st \<longleftrightarrow>
     table_inv (fa_index env) fa_key (2 ^ RKX_FREE_ASYNC_HASH_BITS) (rkx_free_async_map st) \<and>
     rkx_free_async_count st = of_nat (entry_count (rkx_free_async_map st)) \<and>
     (\<forall>entry \<in> entries (rkx_free_async_map st).
        rule_key_ok (fa_key entry) \<and> rkx_free_async_strategy_valid (fa_strategy entry))"

text \<open>What a lookup means: the rule for the code, else the wildcard rule of the interface.\<close>

definition rule_for :: "(rule_key \<Rightarrow> u8 option) \<Rightarrow> bytes \<Rightarrow> s32 \<Rightarrow> u8 option" where
  "rule_for m name code = (case m (name, code) of Some s \<Rightarrow> Some s | None \<Rightarrow> m (name, - 1))"

lemma strategy_valid_nonzero: "rkx_free_async_strategy_valid s \<Longrightarrow> s \<noteq> 0"
  by (auto simp: rkx_free_async_strategy_valid_def rkx_const)

lemma hit_iff:
  "(\<lambda>entry. fa_code entry = code \<and> strcmp_eq (fa_rpc_name entry) name) =
     (\<lambda>entry. fa_key entry = (cstr name, code))"
  by (auto simp: fa_key_def strcmp_eq_def)

lemma fa_bucket_index:
  "hash_min env (rkx_free_async_hash env name) = fa_index env (cstr name, code)"
  by (simp add: fa_index_def rkx_free_async_hash_def rkx_cstr)

lemma fa_inv_table:
  "fa_inv env st \<Longrightarrow>
     table_inv (fa_index env) fa_key (2 ^ RKX_FREE_ASYNC_HASH_BITS) (rkx_free_async_map st)"
  by (simp add: fa_inv_def)

lemma fa_find_bucket:
  "fa_inv env st \<Longrightarrow>
     find (\<lambda>entry. fa_key entry = (cstr name, code))
       (hash_bucket (rkx_free_async_map st) (hash_min env (rkx_free_async_hash env name))) =
     table_find fa_key (rkx_free_async_map st) (cstr name, code)"
  unfolding fa_bucket_index [where code = code] by (rule find_bucket [OF fa_inv_table])

lemma rules_Some:
  "fa_inv env st \<Longrightarrow>
     rules st k = Some s \<longleftrightarrow>
       (\<exists>entry \<in> entries (rkx_free_async_map st). fa_key entry = k \<and> fa_strategy entry = s)"
  by (auto simp: rules_def table_find_Some [OF fa_inv_table])

lemma rules_None: "rules st k = None \<longleftrightarrow> k \<notin> fa_key ` entries (rkx_free_async_map st)"
  by (simp add: rules_def table_find_None)

lemma no_empty_rule: "fa_inv env st \<Longrightarrow> rules st ([], code) = None"
  by (auto simp: rules_None fa_inv_def rule_key_ok_def)

lemma rules_eqI:
  assumes "fa_inv env st'" 
    "\<And>k s. (\<exists>e \<in> entries (rkx_free_async_map st'). fa_key e = k \<and> fa_strategy e = s) \<longleftrightarrow> m k = Some s"
  shows "rules st' = m"
proof
  fix k
  show "rules st' k = m k"
    using assms(2) [of k] rules_Some [OF assms(1), of k] by (metis option.exhaust)
qed

subsection \<open>Lookup\<close>

lemma sint_count: "n < 2 ^ 31 \<Longrightarrow> sint (of_nat n :: s32) = int n"
  by (simp add: signed_of_nat signed_take_bit_int_eq_self)

lemma fa_scan_exact:
  "find (\<lambda>e. fa_key e = (cstr name, code)) es = Some e \<Longrightarrow>
     fst (fa_scan name code es x w) = fa_strategy e"
  by (induction es arbitrary: w) (auto simp: fa_key_def strcmp_eq_def split: if_splits)

lemma fa_scan_wild:
  "find (\<lambda>e. fa_key e = (cstr name, code)) es = None \<Longrightarrow> distinct (map fa_key es) \<Longrightarrow>
     fa_scan name code es x w =
       (x, case find (\<lambda>e. fa_key e = (cstr name, - 1)) es of
             Some e \<Rightarrow> fa_strategy e | None \<Rightarrow> w)"
proof (induction es arbitrary: w)
  case (Cons a es)
  show ?case
  proof (cases "fa_key a = (cstr name, - 1)")
    case True
    with Cons.prems(2) have "find (\<lambda>e. fa_key e = (cstr name, - 1)) es = None"
      by (auto simp: find_None_iff image_iff)
    with Cons True show ?thesis
      by (auto simp: fa_key_def strcmp_eq_def split: if_splits)
  next
    case False
    with Cons show ?thesis
      by (auto simp: fa_key_def strcmp_eq_def split: if_splits option.splits)
  qed
qed simp

lemma fa_bucket_strategy_nonzero:
  assumes "fa_inv env st" "table_find fa_key (rkx_free_async_map st) k = Some e"
  shows "fa_strategy e \<noteq> 0"
  using assms strategy_valid_nonzero
  by (auto simp: table_find_Some [OF fa_inv_table] fa_inv_def)

lemma lookup_correct:
  assumes inv: "fa_inv env st" and few: "entry_count (rkx_free_async_map st) < 2 ^ 31"
  shows "rkx_free_async_lookup_rcu env st (Some name) code (Some out) =
    (case rule_for (rules st) (cstr name) code of
       Some s \<Rightarrow> (True, Some s) | None \<Rightarrow> (False, Some out))"
proof (cases "rkx_free_async_has_entries st")
  case False
  have "sint (rkx_free_async_count st) = int (entry_count (rkx_free_async_map st))"
    using inv few by (simp add: fa_inv_def sint_count)
  with False have "entries (rkx_free_async_map st) = {}"
    by (simp add: rkx_free_async_has_entries_def entry_count_0)
  then have "rules st = Map.empty"
    by (auto simp: fun_eq_iff rules_None)
  with False show ?thesis
    by (simp add: rkx_free_async_lookup_rcu_def rule_for_def)
next
  case True
  let ?b = "hash_bucket (rkx_free_async_map st) (hash_min env (rkx_free_async_hash env name))"
  let ?f = "\<lambda>c. table_find fa_key (rkx_free_async_map st) (cstr name, c)"
  have find: "find (\<lambda>e. fa_key e = (cstr name, c)) ?b = ?f c" for c
    by (rule fa_find_bucket [OF inv])
  have dist: "distinct (map fa_key ?b)"
    by (rule bucket_distinct [OF fa_inv_table [OF inv]])
  note nz = fa_bucket_strategy_nonzero [OF inv]
  show ?thesis
  proof (cases "?f code")
    case None
    then have "fa_scan name code ?b 0 0 = (0, case ?f (- 1) of Some e \<Rightarrow> fa_strategy e | None \<Rightarrow> 0)"
      using fa_scan_wild [of name code ?b 0 0] find dist by simp
    with True None nz show ?thesis
      by (auto simp: rkx_free_async_lookup_rcu_def rule_for_def rules_def split: option.splits)
  next
    case (Some e)
    then have "fst (fa_scan name code ?b 0 0) = fa_strategy e"
      using fa_scan_exact find by simp
    with True Some nz [OF Some] show ?thesis
      by (auto simp: rkx_free_async_lookup_rcu_def rule_for_def rules_def split: prod.splits)
  qed
qed

subsection \<open>Insertion, deletion, teardown\<close>

lemma init_free_async: "hash_env_ok env \<Longrightarrow> fa_inv env rkx_init_free_async"
  by (auto simp: fa_inv_def rkx_init_free_async_def hash_env_ok_def fa_index_def rkx_const
      intro!: table_inv_init [where b = 6, simplified])

lemma rules_init [simp]: "rules rkx_init_free_async = Map.empty"
  by (auto simp: fun_eq_iff rules_None rkx_init_free_async_def)

text \<open>The arguments \<^verbatim>\<open>rkx_add_free_async\<close> accepts.\<close>

definition add_args_ok :: "bytes \<Rightarrow> s32 \<Rightarrow> u8 \<Rightarrow> bool" where
  "add_args_ok name code strategy \<longleftrightarrow>
     0 < strlen name \<and> strlen name < RKX_INTERFACETOKEN_BUFF_SIZE \<and> - 1 \<le> sint code \<and>
     rkx_free_async_strategy_valid strategy"

lemma add_args_key: "add_args_ok name code strategy \<Longrightarrow> rule_key_ok (cstr name, code)"
  by (auto simp: add_args_ok_def rule_key_ok_def cstr_nonzero strlen_def)

lemma add_rejected:
  "\<not> add_args_ok name code strategy \<Longrightarrow>
     rkx_add_free_async env kmalloc (Some name) code strategy st = (- EINVAL, st)"
  by (auto simp: rkx_add_free_async_def add_args_ok_def strnlen_eq Let_def not_less min_def
      rkx_const)

lemma add_accepted:
  assumes inv: "fa_inv env st" and ok: "add_args_ok name code strategy"
  shows "rkx_add_free_async env kmalloc (Some name) code strategy st =
    (let m = rkx_free_async_map st; k = (cstr name, code); b = fa_index env k
     in case table_find fa_key m k of
          Some entry \<Rightarrow>
            (0, st\<lparr>rkx_free_async_map :=
                  hash_upd (\<lambda>e. fa_key e = k) (\<lambda>e. e\<lparr>fa_strategy := strategy\<rparr>) m b\<rparr>)
        | None \<Rightarrow>
            (case kmalloc of
               None \<Rightarrow> (- ENOMEM, st)
             | Some entry \<Rightarrow>
                 (0, st\<lparr>rkx_free_async_map := hash_add m b
                         (entry\<lparr>fa_rpc_name := strscpy (fa_rpc_name entry) name
                                  RKX_INTERFACETOKEN_BUFF_SIZE,
                                fa_code := code, fa_strategy := strategy\<rparr>),
                        rkx_free_async_count := rkx_free_async_count st + 1\<rparr>)))"
proof -
  have "\<not> (strlen name = 0 \<or> sint code < - 1 \<or> \<not> rkx_free_async_strategy_valid strategy)"
    "\<not> (strnlen name RKX_INTERFACETOKEN_BUFF_SIZE = 0 \<or>
        RKX_INTERFACETOKEN_BUFF_SIZE \<le> strnlen name RKX_INTERFACETOKEN_BUFF_SIZE)"
    using ok by (auto simp: add_args_ok_def strnlen_eq min_def)
  then show ?thesis
    by (simp only: rkx_add_free_async_def Let_def if_False option.case hit_iff
        fa_find_bucket [OF inv] fa_bucket_index [where code = code, symmetric])
qed

lemma new_entry_key:
  "strlen name < RKX_INTERFACETOKEN_BUFF_SIZE \<Longrightarrow>
     fa_key (entry\<lparr>fa_rpc_name := strscpy buf name RKX_INTERFACETOKEN_BUFF_SIZE,
                   fa_code := code, fa_strategy := strategy\<rparr>) = (cstr name, code)"
  by (simp add: fa_key_def cstr_strscpy strlen_def)

lemma add_free_async:
  assumes inv: "fa_inv env st" and ok: "add_args_ok name code strategy"
  shows "fa_inv env (snd (rkx_add_free_async env kmalloc (Some name) code strategy st))"
    and "rules (snd (rkx_add_free_async env kmalloc (Some name) code strategy st)) =
      (if kmalloc \<noteq> None \<or> rules st (cstr name, code) \<noteq> None
       then (rules st)((cstr name, code) \<mapsto> strategy) else rules st)"
    and "fst (rkx_add_free_async env kmalloc (Some name) code strategy st) =
      (if kmalloc \<noteq> None \<or> rules st (cstr name, code) \<noteq> None then 0 else - ENOMEM)"
proof -
  let ?m = "rkx_free_async_map st" and ?k = "(cstr name, code)"
  let ?st = "snd (rkx_add_free_async env kmalloc (Some name) code strategy st)"
  note acc = add_accepted [OF inv ok, of kmalloc, unfolded Let_def]
  note tab = fa_inv_table [OF inv]
  have strategy: "rkx_free_async_strategy_valid strategy" and len: "strlen name < RKX_INTERFACETOKEN_BUFF_SIZE"
    using ok by (auto simp: add_args_ok_def)
  have in_range: "fa_index env ?k < length ?m"
    using tab by (simp add: table_inv_def)
  consider (update) e where "table_find fa_key ?m ?k = Some e"
    | (fail) "table_find fa_key ?m ?k = None" "kmalloc = None"
    | (new) e where "table_find fa_key ?m ?k = None" "kmalloc = Some e"
    by (cases "table_find fa_key ?m ?k"; cases kmalloc) auto
  then have "fa_inv env ?st \<and> rules ?st =
      (if kmalloc \<noteq> None \<or> rules st ?k \<noteq> None then (rules st)(?k \<mapsto> strategy) else rules st) \<and>
      fst (rkx_add_free_async env kmalloc (Some name) code strategy st) =
      (if kmalloc \<noteq> None \<or> rules st ?k \<noteq> None then 0 else - ENOMEM)"
  proof cases
    case (update e)
    let ?f = "\<lambda>e. e\<lparr>fa_strategy := strategy\<rparr>"
    have f: "fa_key (?f e) = fa_key e" for e by (simp add: fa_key_def)
    have st: "?st = st\<lparr>rkx_free_async_map := hash_upd (\<lambda>e. fa_key e = ?k) ?f ?m (fa_index env ?k)\<rparr>"
      using acc update by simp
    note upd = hash_upd_correct [where f = ?f and k = ?k, OF tab f]
    have inv': "fa_inv env ?st"
      using inv upd strategy unfolding st by (auto simp: fa_inv_def f)
    have "e \<in> entries ?m" "fa_key e = ?k"
      using update by (auto simp: table_find_Some [OF tab])
    then have "?f e \<in> ?f ` {e \<in> entries ?m. fa_key e = ?k}" by simp
    then have "(\<exists>e \<in> entries (rkx_free_async_map ?st). fa_key e = k \<and> fa_strategy e = s) \<longleftrightarrow>
        ((rules st)(?k \<mapsto> strategy)) k = Some s" for k s
      by (cases "k = ?k") (auto simp: st upd f rules_Some [OF inv] bex_Un)
    then have "rules ?st = (rules st)(?k \<mapsto> strategy)"
      by (rule rules_eqI [OF inv'])
    with inv' show ?thesis using acc update by (simp add: rules_def)
  next
    case fail
    then show ?thesis using acc inv by (simp add: rules_def)
  next
    case (new e)
    let ?e = "e\<lparr>fa_rpc_name := strscpy (fa_rpc_name e) name RKX_INTERFACETOKEN_BUFF_SIZE,
                fa_code := code, fa_strategy := strategy\<rparr>"
    have k: "fa_key ?e = ?k" by (rule new_entry_key [OF len])
    have fresh: "fa_key ?e \<notin> fa_key ` entries ?m"
      using new(1) unfolding k table_find_None .
    have st: "?st = st\<lparr>rkx_free_async_map := hash_add ?m (fa_index env ?k) ?e,
        rkx_free_async_count := rkx_free_async_count st + 1\<rparr>"
      using acc new by simp
    note add = hash_add_correct [OF tab fresh, unfolded k]
    have inv': "fa_inv env ?st"
      using inv add entry_count_add [OF in_range, of ?e] strategy k add_args_key [OF ok]
      unfolding st by (auto simp: fa_inv_def)
    have "rules ?st = (rules st)(?k \<mapsto> strategy)"
      using fresh k
      by (intro rules_eqI [OF inv']) (auto simp: st add rules_Some [OF inv] image_iff)
    with inv' show ?thesis using acc new by (simp add: rules_def)
  qed
  then show "fa_inv env ?st"
    and "rules ?st =
      (if kmalloc \<noteq> None \<or> rules st ?k \<noteq> None then (rules st)(?k \<mapsto> strategy) else rules st)"
    and "fst (rkx_add_free_async env kmalloc (Some name) code strategy st) =
      (if kmalloc \<noteq> None \<or> rules st ?k \<noteq> None then 0 else - ENOMEM)"
    by blast+
qed

lemma del_free_async:
  assumes inv: "fa_inv env st"
  shows "fa_inv env (fst (snd (rkx_del_free_async env (Some name) code st)))"
    and "rules (fst (snd (rkx_del_free_async env (Some name) code st))) =
      (rules st)((cstr name, code) := None)"
    and "fst (rkx_del_free_async env (Some name) code st) =
      (if strlen name = 0 \<or> sint code < - 1 then - EINVAL else 0)"
proof -
  let ?m = "rkx_free_async_map st" and ?k = "(cstr name, code)"
  let ?st = "fst (snd (rkx_del_free_async env (Some name) code st))"
  note tab = fa_inv_table [OF inv]
  have in_range: "fa_index env ?k < length ?m"
    using tab by (simp add: table_inv_def)
  have res: "rkx_del_free_async env (Some name) code st =
      (if strlen name = 0 \<or> sint code < - 1 then (- EINVAL, st, [])
       else case table_find fa_key ?m ?k of
         None \<Rightarrow> (0, st, [])
       | Some e \<Rightarrow> (0, st\<lparr>rkx_free_async_map := hash_del (\<lambda>e. fa_key e = ?k) ?m (fa_index env ?k),
                rkx_free_async_count := rkx_free_async_count st - 1\<rparr>, [e]))"
    by (simp only: rkx_del_free_async_def Let_def option.case hit_iff
        fa_find_bucket [OF inv] fa_bucket_index [where code = code, symmetric])
  show "fst (rkx_del_free_async env (Some name) code st) =
      (if strlen name = 0 \<or> sint code < - 1 then - EINVAL else 0)"
    by (simp add: res split: option.splits)
  have absent: "rules st ?k = None" if "strlen name = 0 \<or> sint code < - 1"
  proof (rule ccontr)
    assume "rules st ?k \<noteq> None"
    then obtain e where "e \<in> entries ?m" "fa_key e = ?k" by (auto simp: rules_None)
    with inv have "rule_key_ok ?k" by (auto simp: fa_inv_def)
    with that show False by (auto simp: rule_key_ok_def strlen_def)
  qed
  consider (same) "?st = st" "rules st ?k = None"
    | (gone) e where "table_find fa_key ?m ?k = Some e"
        "?st = st\<lparr>rkx_free_async_map := hash_del (\<lambda>e. fa_key e = ?k) ?m (fa_index env ?k),
                rkx_free_async_count := rkx_free_async_count st - 1\<rparr>"
    using absent
    by (cases "table_find fa_key ?m ?k"; cases "strlen name = 0 \<or> sint code < - 1")
       (auto simp: res rules_def)
  then have "fa_inv env ?st \<and> rules ?st = (rules st)(?k := None)"
  proof cases
    case same
    then show ?thesis using inv by (auto simp: fun_eq_iff)
  next
    case (gone e)
    note del = hash_del_correct [OF tab, of ?k]
    have e: "e \<in> entries ?m" "fa_key e = ?k"
      using gone(1) by (auto simp: table_find_Some [OF tab])
    then have "e \<in> set (hash_bucket ?m (fa_index env ?k))"
      by (simp add: bucket_iff [OF tab])
    then have "entry_count (hash_del (\<lambda>e. fa_key e = ?k) ?m (fa_index env ?k)) = entry_count ?m - 1"
      using entry_count_del [OF in_range] e by auto
    moreover have "0 < entry_count ?m" by (rule entry_count_pos [OF e(1)])
    ultimately have inv': "fa_inv env ?st"
      using inv del unfolding gone(2) by (auto simp: fa_inv_def of_nat_diff)
    have "rules ?st = (rules st)(?k := None)"
      by (intro rules_eqI [OF inv']) (auto simp: gone(2) del rules_Some [OF inv])
    with inv' show ?thesis by blast
  qed
  then show "fa_inv env ?st" "rules ?st = (rules st)(?k := None)" by blast+
qed

lemma destroy_free_async:
  "fa_inv env st \<Longrightarrow> fa_inv env (fst (rkx_destroy_free_async st))"
  "rules (fst (rkx_destroy_free_async st)) = Map.empty"
  by (auto simp: rkx_destroy_free_async_def fa_inv_def table_inv_clear fun_eq_iff rules_None)

lemma add_inv:
  "fa_inv env st \<Longrightarrow> fa_inv env (snd (rkx_add_free_async env kmalloc name code strategy st))"
proof (cases name)
  case (Some n)
  then show "fa_inv env st \<Longrightarrow> ?thesis"
    using add_free_async(1) add_rejected by (cases "add_args_ok n code strategy") auto
qed (simp add: rkx_add_free_async_def)

text \<open>
  The key of a command is a plain name; the call passes it as a NUL-terminated string.
\<close>

interpretation fa: keyed_table hash_env_ok fa_inv rules rule_key_ok rkx_free_async_strategy_valid
  "\<lambda>kmalloc. kmalloc \<noteq> None" rkx_init_free_async
  "\<lambda>env kmalloc k strategy st.
     snd (rkx_add_free_async env kmalloc (Some (fst k @ [0])) (snd k) strategy st)"
  "\<lambda>env k st. fst (snd (rkx_del_free_async env (Some (fst k @ [0])) (snd k) st))"
  "\<lambda>st. fst (rkx_destroy_free_async st)"
proof unfold_locales
  fix env st kmalloc k strategy
  assume inv: "fa_inv env st" and "rule_key_ok k" "rkx_free_async_strategy_valid strategy"
  then have "add_args_ok (fst k @ [0]) (snd k) strategy" "cstr (fst k @ [0]) = fst k"
    by (auto simp: rule_key_ok_def add_args_ok_def strlen_def cstr_append_nul split: prod.splits)
  then show "rules (snd (rkx_add_free_async env kmalloc (Some (fst k @ [0])) (snd k) strategy st)) =
      (if kmalloc \<noteq> None \<or> rules st k \<noteq> None then (rules st)(k \<mapsto> strategy) else rules st)"
    using add_free_async(2) [OF inv, of "fst k @ [0]" "snd k" strategy kmalloc] by simp
next
  fix env st k
  assume "fa_inv env st" "rule_key_ok k"
  then show "rules (fst (snd (rkx_del_free_async env (Some (fst k @ [0])) (snd k) st))) =
      (rules st)(k := None)"
    by (auto simp: del_free_async rule_key_ok_def cstr_append_nul split: prod.splits)
qed (auto simp: init_free_async add_inv del_free_async destroy_free_async)

text \<open>Unlinked nodes are freed, once.\<close>

lemma del_free_async_conserves:
  "mset (concat (rkx_free_async_map (fst (snd (rkx_del_free_async env name code st))))) +
     mset (snd (snd (rkx_del_free_async env name code st))) = mset (concat (rkx_free_async_map st))"
  using mset_hash_del
  by (fastforce simp: rkx_del_free_async_def Let_def split: option.splits if_splits)

section \<open>Properties\<close>

definition free_async_run ::
  "hash_env \<Rightarrow> (rkx_free_async_entry option, rule_key, u8) table_cmd list \<Rightarrow> free_async_state" where
  "free_async_run env cs =
     foldl (table_step (\<lambda>env kmalloc k strategy st.
         snd (rkx_add_free_async env kmalloc (Some (fst k @ [0])) (snd k) strategy st))
       (\<lambda>env k st. fst (snd (rkx_del_free_async env (Some (fst k @ [0])) (snd k) st)))
       (\<lambda>st. fst (rkx_destroy_free_async st)) env) rkx_init_free_async cs"

text \<open>Some rule commands, for examples.\<close>

definition sample_entry :: rkx_free_async_entry where
  "sample_entry = \<lparr>fa_rpc_name = replicate RKX_INTERFACETOKEN_BUFF_SIZE 0, fa_code = 0, fa_strategy = 0\<rparr>"

definition sample_cmds :: "(rkx_free_async_entry option, rule_key, u8) table_cmd list" where
  "sample_cmds =
     [Put (Some sample_entry) ([65], - 1) 2, Put (Some sample_entry) ([65], 7) 1, Put None ([66], 7) 1]"

text \<open>The number of entries is at most the number of commands.\<close>

lemma entry_count_hash_add_le: "entry_count (hash_add m i x) \<le> entry_count m + 1"
  by (cases "i < length m") (simp_all add: entry_count_add, simp add: hash_add_def list_update_beyond)

lemma entry_count_hash_del_le: "entry_count (hash_del P m i) \<le> entry_count m"
  by (cases "i < length m") (simp_all add: entry_count_del, simp add: hash_del_def list_update_beyond)

lemma entry_count_add_le:
  "entry_count (rkx_free_async_map (snd (rkx_add_free_async env kmalloc name code strategy st))) \<le>
     entry_count (rkx_free_async_map st) + 1"
  by (auto simp: rkx_add_free_async_def Let_def entry_count_hash_add_le [simplified] split: option.splits)

lemma entry_count_del_le:
  "entry_count (rkx_free_async_map (fst (snd (rkx_del_free_async env name code st)))) \<le>
     entry_count (rkx_free_async_map st)"
  by (auto simp: rkx_del_free_async_def Let_def entry_count_hash_del_le split: option.splits)

lemma free_async_run_snoc:
  "free_async_run env (cs @ [c]) = table_step (\<lambda>env kmalloc k strategy st.
         snd (rkx_add_free_async env kmalloc (Some (fst k @ [0])) (snd k) strategy st))
       (\<lambda>env k st. fst (snd (rkx_del_free_async env (Some (fst k @ [0])) (snd k) st)))
       (\<lambda>st. fst (rkx_destroy_free_async st)) env (free_async_run env cs) c"
  by (simp add: free_async_run_def)

lemma free_async_run_count: "entry_count (rkx_free_async_map (free_async_run env cs)) \<le> length cs"
proof (induction cs rule: rev_induct)
  case Nil
  then show ?case by (simp add: free_async_run_def rkx_init_free_async_def)
next
  case (snoc c cs)
  show ?case
  proof (cases c)
    case (Put a k v)
    have "entry_count (rkx_free_async_map (free_async_run env (cs @ [c]))) \<le>
        entry_count (rkx_free_async_map (free_async_run env cs)) + 1"
      unfolding free_async_run_snoc Put by (simp only: table_step.simps entry_count_add_le)
    with snoc show ?thesis by simp
  next
    case (Del k)
    with snoc show ?thesis
      by (simp add: free_async_run_snoc) (meson entry_count_del_le le_SucI le_trans)
  next
    case Clear
    then show ?thesis by (simp add: free_async_run_snoc rkx_destroy_free_async_def)
  qed
qed

text \<open>
  C4: the rule store is a map. After any sequence of rule commands the lookup of the transaction path
  returns the strategy the same commands give on an abstract map: the rule for the exact code, else the
  wildcard rule of the interface, else nothing, with the out-parameter untouched.
\<close>

theorem free_async_store_refines_map:
  assumes "hash_env_ok env" "list_all (cmd_ok rule_key_ok rkx_free_async_strategy_valid) cs"
    and "length cs < 2 ^ 31" "0 \<notin> set name"
  shows "rkx_free_async_lookup_rcu env (free_async_run env cs) (Some (name @ [0])) code (Some out) =
    (case rule_for (foldl (map_step (\<lambda>kmalloc. kmalloc \<noteq> None)) Map.empty cs) name code of
       Some s \<Rightarrow> (True, Some s)
     | None \<Rightarrow> (False, Some out))"
proof -
  have inv: "fa_inv env (free_async_run env cs)"
    unfolding free_async_run_def by (rule fa.run_init_inv [OF assms(1)])
  have "rules (free_async_run env cs) = foldl (map_step (\<lambda>kmalloc. kmalloc \<noteq> None)) Map.empty cs"
    unfolding free_async_run_def by (rule fa.run_init_refines [OF assms(1,2)])
  moreover have "entry_count (rkx_free_async_map (free_async_run env cs)) < 2 ^ 31"
    using free_async_run_count assms(3) by (rule le_less_trans)
  ultimately show ?thesis
    using lookup_correct [OF inv, of "name @ [0]" code out] assms(4) by (simp add: cstr_append_nul)
qed

lemma sample_cmds_ok: "list_all (cmd_ok rule_key_ok rkx_free_async_strategy_valid) sample_cmds"
  "length sample_cmds < 2 ^ 31"
  by (simp_all add: sample_cmds_def rule_key_ok_def rkx_free_async_strategy_valid_def rkx_const)

theorem free_async_store_refines_map_witness:
  "rkx_free_async_lookup_rcu sample_hash (free_async_run sample_hash sample_cmds)
     (Some ([65] @ [0])) 7 (Some 9) = (True, Some 1) \<and>
   rkx_free_async_lookup_rcu sample_hash (free_async_run sample_hash sample_cmds)
     (Some ([65] @ [0])) 8 (Some 9) = (True, Some 2) \<and>
   rkx_free_async_lookup_rcu sample_hash (free_async_run sample_hash sample_cmds)
     (Some ([66] @ [0])) 7 (Some 9) = (False, Some 9)"
proof -
  note holds = free_async_store_refines_map [OF sample_hash_ok sample_cmds_ok]
  show ?thesis
    using holds [of "[65]" 7 9] holds [of "[65]" 8 9] holds [of "[66]" 7 9]
    by (simp add: sample_cmds_def rule_for_def)
qed

text \<open>
  What \<^verbatim>\<open>rkx_add_free_async\<close> returns and when it changes the rules, on every branch:
  invalid arguments are rejected, a new rule without memory fails, every failure leaves the state as it
  was, and success makes the strategy the rule for exactly that interface and code.
\<close>

theorem free_async_add_branches:
  assumes "fa_inv env st"
  shows "rkx_add_free_async env kmalloc (Some name) code strategy st =
      (if \<not> add_args_ok name code strategy then (- EINVAL, st)
       else if kmalloc = None \<and> rules st (cstr name, code) = None then (- ENOMEM, st)
       else (0, snd (rkx_add_free_async env kmalloc (Some name) code strategy st))) \<and>
    (fst (rkx_add_free_async env kmalloc (Some name) code strategy st) = 0 \<longrightarrow>
       rules (snd (rkx_add_free_async env kmalloc (Some name) code strategy st)) =
         (rules st)((cstr name, code) \<mapsto> strategy))"
proof (cases "add_args_ok name code strategy")
  case False
  then show ?thesis by (simp add: add_rejected rkx_const)
next
  case True
  note add = add_free_async [OF assms True, of kmalloc] add_accepted [OF assms True, of kmalloc]
  show ?thesis
  proof (cases "kmalloc = None \<and> rules st (cstr name, code) = None")
    case none: True
    then have "table_find fa_key (rkx_free_async_map st) (cstr name, code) = None"
      by (simp add: rules_def)
    with none True add(4) show ?thesis by (simp add: Let_def rkx_const)
  next
    case False
    with True add(2,3) show ?thesis by (auto simp: prod_eq_iff)
  qed
qed

theorem free_async_add_branches_witness:
  "rkx_add_free_async sample_hash None (Some [65, 0]) 7 2 rkx_init_free_async = (- ENOMEM, rkx_init_free_async) \<and>
   rkx_add_free_async sample_hash None (Some [65, 0]) 7 4 rkx_init_free_async = (- EINVAL, rkx_init_free_async)"
  using free_async_add_branches [OF init_free_async [OF sample_hash_ok], of None "[65, 0]" 7 2]
    free_async_add_branches [OF init_free_async [OF sample_hash_ok], of None "[65, 0]" 7 4]
  by (simp add: add_args_ok_def strlen_def cstr_def rkx_const rkx_free_async_strategy_valid_def)

end
