(* ===== verification/Rkx_Binder_Alloc.thy ===== *)
theory Rkx_Binder_Alloc
  imports Rkx_Uapi "HOL-Library.Monad_Syntax"
begin

text \<open>
  \<^verbatim>\<open>LKM-Source/rkx_binder_alloc.c\<close>: copying bytes out of a binder buffer, page by page,
  on kernels older than 6.0. The structures \<^verbatim>\<open>binder_buffer\<close> and
  \<^verbatim>\<open>binder_alloc\<close> come from the kernel's headers; the records hold the fields the module
  uses. References are numbers and the buffers live in a heap, so that a dangling reference, a missing
  page and an access out of bounds are all the value \<open>None\<close>. The page size is the parameter
  \<open>PAGE_SHIFT\<close>. The locale \<open>byte_source\<close> is what the rest of the module relies on of the copy
  function, whichever one the kernel version selects.
\<close>

section \<open>Buffers and the allocator\<close>

type_synonym buf_ref = nat
type_synonym txn_ref = nat
type_synonym node_ref = nat

record binder_buffer =
  bb_user_data :: u64
  bb_data_size :: u64
  bb_offsets_size :: u64
  bb_pid :: s32
  bb_target_node :: "node_ref option"
  bb_free :: bool
  bb_allow_user_free :: bool
  bb_transaction :: "txn_ref option"

type_synonym buf_heap = "buf_ref \<Rightarrow> binder_buffer option"

record buffer_alloc =
  al_buffer :: u64
  al_buffer_size :: u64
  al_buffers :: "buf_ref list"
  al_pages :: "bytes option list"

definition PAGE_SIZE :: "nat \<Rightarrow> u64" where
  "PAGE_SIZE PAGE_SHIFT = push_bit PAGE_SHIFT 1"

text \<open>\<^verbatim>\<open>memcpy\<close> from a mapped page to the destination at \<open>ptr\<close>.\<close>

definition rk_memcpy_from_page :: "bytes \<Rightarrow> nat \<Rightarrow> bytes option \<Rightarrow> u64 \<Rightarrow> u64 \<Rightarrow> bytes option" where
  "rk_memcpy_from_page dest ptr page offset len = do {
     from \<leftarrow> page;
     d \<leftarrow> load from (unat offset) (unat len);
     store dest ptr d
   }"

text \<open>
  The list \<^verbatim>\<open>alloc->buffers\<close>: what \<^verbatim>\<open>entry.next\<close> of a buffer points to,
  \<open>Some None\<close> being the list head.
\<close>

fun rk_binder_buffer_next :: "buf_ref list \<Rightarrow> buf_ref \<Rightarrow> buf_ref option option" where
  "rk_binder_buffer_next [] b = None"
| "rk_binder_buffer_next (x # xs) b =
     (if x = b then Some (case xs of [] \<Rightarrow> None | y # _ \<Rightarrow> Some y)
      else rk_binder_buffer_next xs b)"

definition rk_binder_alloc_buffer_size :: "buf_heap \<Rightarrow> buffer_alloc \<Rightarrow> buf_ref \<Rightarrow> u64 option" where
  "rk_binder_alloc_buffer_size bufs alloc b = do {
     buffer \<leftarrow> bufs b;
     next_entry \<leftarrow> rk_binder_buffer_next (al_buffers alloc) b;
     case next_entry of
       None \<Rightarrow> Some (al_buffer alloc + al_buffer_size alloc - bb_user_data buffer)
     | Some b' \<Rightarrow> do {
         next_buffer \<leftarrow> bufs b';
         Some (bb_user_data next_buffer - bb_user_data buffer)
       }
   }"

definition rk_check_buffer :: "buf_heap \<Rightarrow> buffer_alloc \<Rightarrow> buf_ref \<Rightarrow> u64 \<Rightarrow> u64 \<Rightarrow> bool option" where
  "rk_check_buffer bufs alloc b offset n = do {
     buffer_size \<leftarrow> rk_binder_alloc_buffer_size bufs alloc b;
     buffer \<leftarrow> bufs b;
     Some (buffer_size \<ge> n \<and> offset \<le> buffer_size - n \<and> offset AND 3 = 0 \<and>
       \<not> bb_free buffer \<and> (\<not> bb_allow_user_free buffer \<or> bb_transaction buffer = None))
   }"

definition rk_binder_alloc_get_page ::
  "nat \<Rightarrow> buf_heap \<Rightarrow> buffer_alloc \<Rightarrow> buf_ref \<Rightarrow> u64 \<Rightarrow> (bytes option \<times> u64) option" where
  "rk_binder_alloc_get_page PAGE_SHIFT bufs alloc b buffer_offset = do {
     buffer \<leftarrow> bufs b;
     let buffer_space_offset = buffer_offset + (bb_user_data buffer - al_buffer alloc);
     let pgoff = buffer_space_offset AND (PAGE_SIZE PAGE_SHIFT - 1);
     let index = unat (drop_bit PAGE_SHIFT buffer_space_offset);
     if index < length (al_pages alloc) then Some (al_pages alloc ! index, pgoff) else None
   }"

partial_function (option) buffer_copy_loop ::
  "nat \<Rightarrow> bool \<Rightarrow> buf_heap \<Rightarrow> buffer_alloc \<Rightarrow> buf_ref \<Rightarrow> u64 \<Rightarrow> bytes \<Rightarrow> nat \<Rightarrow> u64 \<Rightarrow>
     (int \<times> bytes) option" where
  "buffer_copy_loop PAGE_SHIFT to_buffer bufs alloc b buffer_offset dest ptr n =
     (if n = 0 then Some (0, dest)
      else do {
        pg \<leftarrow> rk_binder_alloc_get_page PAGE_SHIFT bufs alloc b buffer_offset;
        let sz = min n (PAGE_SIZE PAGE_SHIFT - snd pg);
        if to_buffer then Some (- EINVAL, dest)
        else do {
          dest \<leftarrow> rk_memcpy_from_page dest ptr (fst pg) (snd pg) sz;
          buffer_copy_loop PAGE_SHIFT to_buffer bufs alloc b (buffer_offset + sz) dest
            (ptr + unat sz) (n - sz)
        }
      })"

definition rk_binder_alloc_do_buffer_copy ::
  "nat \<Rightarrow> buf_heap \<Rightarrow> buffer_alloc \<Rightarrow> bool \<Rightarrow> buf_ref \<Rightarrow> u64 \<Rightarrow> bytes \<Rightarrow> u64 \<Rightarrow> (int \<times> bytes) option"
  where
  "rk_binder_alloc_do_buffer_copy PAGE_SHIFT bufs alloc to_buffer b buffer_offset dest n = do {
     ok \<leftarrow> rk_check_buffer bufs alloc b buffer_offset n;
     if \<not> ok then Some (- EINVAL, dest)
     else buffer_copy_loop PAGE_SHIFT to_buffer bufs alloc b buffer_offset dest 0 n
   }"

definition rk_binder_alloc_copy_from_buffer ::
  "nat \<Rightarrow> buf_heap \<Rightarrow> buffer_alloc \<Rightarrow> bytes \<Rightarrow> buf_ref \<Rightarrow> u64 \<Rightarrow> u64 \<Rightarrow> (int \<times> bytes) option" where
  "rk_binder_alloc_copy_from_buffer PAGE_SHIFT bufs alloc dest b buffer_offset n =
     rk_binder_alloc_do_buffer_copy PAGE_SHIFT bufs alloc False b buffer_offset dest n"

section \<open>The contract of the copy function\<close>

text \<open>
  A copy of \<open>n\<close> bytes at a 4-aligned offset inside the buffer succeeds and fills the destination with
  those bytes of the buffer, leaving the rest of the destination alone.
\<close>

locale byte_source =
  fixes copy :: "buf_heap \<Rightarrow> buffer_alloc \<Rightarrow> bytes \<Rightarrow> buf_ref \<Rightarrow> u64 \<Rightarrow> u64 \<Rightarrow> (int \<times> bytes) option"
    and readable :: "buf_heap \<Rightarrow> buffer_alloc \<Rightarrow> buf_ref \<Rightarrow> bool"
    and content :: "buf_heap \<Rightarrow> buffer_alloc \<Rightarrow> buf_ref \<Rightarrow> bytes"
  assumes copy_ok: "readable bufs alloc b \<Longrightarrow> 4 dvd unat off \<Longrightarrow>
      unat off + unat n \<le> length (content bufs alloc b) \<Longrightarrow> unat n \<le> length dest \<Longrightarrow>
      copy bufs alloc dest b off n =
        Some (0, take (unat n) (drop (unat off) (content bufs alloc b)) @ drop (unat n) dest)"

text \<open>
  What the free-async probe needs on top: no request on a readable buffer faults, and unlinking a
  buffer from its transaction leaves every buffer readable.
\<close>

locale txn_source = byte_source +
  assumes copy_total: "readable bufs alloc b \<Longrightarrow> unat n \<le> length dest \<Longrightarrow>
      \<exists>rc d. copy bufs alloc dest b off n = Some (rc, d) \<and> length d = length dest"
    and readable_unlink: "readable bufs alloc b \<Longrightarrow> bufs b' = Some buffer \<Longrightarrow>
      readable (bufs(b' \<mapsto> buffer\<lparr>bb_transaction := None\<rparr>)) alloc b"

section \<open>The legacy copy keeps the contract\<close>

definition page_byte :: "nat \<Rightarrow> buffer_alloc \<Rightarrow> nat \<Rightarrow> u8" where
  "page_byte sh alloc x =
     (case al_pages alloc ! (x div 2 ^ sh) of None \<Rightarrow> 0 | Some pg \<Rightarrow> pg ! (x mod 2 ^ sh))"

definition page_mapped :: "nat \<Rightarrow> buffer_alloc \<Rightarrow> nat \<Rightarrow> bool" where
  "page_mapped sh alloc x \<longleftrightarrow> x div 2 ^ sh < length (al_pages alloc) \<and>
     (case al_pages alloc ! (x div 2 ^ sh) of None \<Rightarrow> False | Some pg \<Rightarrow> length pg = 2 ^ sh)"

definition buffer_start :: "buffer_alloc \<Rightarrow> binder_buffer \<Rightarrow> nat" where
  "buffer_start alloc buffer = unat (bb_user_data buffer - al_buffer alloc)"

definition buffer_content :: "nat \<Rightarrow> buf_heap \<Rightarrow> buffer_alloc \<Rightarrow> buf_ref \<Rightarrow> bytes" where
  "buffer_content sh bufs alloc b =
     (case (bufs b, rk_binder_alloc_buffer_size bufs alloc b) of
        (Some buffer, Some sz) \<Rightarrow>
          map (page_byte sh alloc)
            [buffer_start alloc buffer..<buffer_start alloc buffer + unat sz]
      | _ \<Rightarrow> [])"

text \<open>A buffer the binder driver has allocated: linked, in use, inside the mapped area.\<close>

definition buffer_readable :: "nat \<Rightarrow> buf_heap \<Rightarrow> buffer_alloc \<Rightarrow> buf_ref \<Rightarrow> bool" where
  "buffer_readable sh bufs alloc b \<longleftrightarrow> sh < 64 \<and>
     (case (bufs b, rk_binder_alloc_buffer_size bufs alloc b) of
        (Some buffer, Some sz) \<Rightarrow>
          \<not> bb_free buffer \<and> (\<not> bb_allow_user_free buffer \<or> bb_transaction buffer = None) \<and>
          buffer_start alloc buffer + unat sz < 2 ^ 64 \<and>
          list_all (page_mapped sh alloc)
            [buffer_start alloc buffer..<buffer_start alloc buffer + unat sz]
      | _ \<Rightarrow> False)"

lemma unat_PAGE_SIZE:
  assumes "sh < 64"
  shows "unat (PAGE_SIZE sh) = 2 ^ sh"
proof -
  have "(2 :: nat) ^ sh < 2 ^ 64" using assms by (rule power_strict_increasing) simp
  moreover have "PAGE_SIZE sh = of_nat (2 ^ sh)" by (simp add: PAGE_SIZE_def push_bit_eq_mult)
  ultimately show ?thesis by (simp only: unat_of_nat) simp
qed

lemma unat_pgoff: "unat (w AND (PAGE_SIZE sh - 1)) = unat w mod 2 ^ sh"
proof -
  have "PAGE_SIZE sh - 1 = mask sh"
    by (simp add: PAGE_SIZE_def mask_eq_exp_minus_1 push_bit_eq_mult)
  then have "w AND (PAGE_SIZE sh - 1) = take_bit sh w"
    by (simp add: take_bit_eq_mask)
  then show ?thesis
    by (simp add: unsigned_take_bit_eq flip: take_bit_eq_mod)
qed

lemma unat_index: "unat (drop_bit sh (w :: u64)) = unat w div 2 ^ sh"
  unfolding unat_drop_bit_eq by (simp add: drop_bit_eq_div)

lemma page_chunk:
  assumes "page_mapped sh alloc x" "c \<le> 2 ^ sh - x mod 2 ^ sh"
  shows "\<exists>pg. al_pages alloc ! (x div 2 ^ sh) = Some pg \<and>
    load pg (x mod 2 ^ sh) c = Some (map (page_byte sh alloc) [x..<x + c])"
proof -
  obtain pg where pg: "al_pages alloc ! (x div 2 ^ sh) = Some pg" "length pg = 2 ^ sh"
    using assms(1) by (auto simp: page_mapped_def split: option.splits)
  have m: "x mod 2 ^ sh < 2 ^ sh" by simp
  have "(x + i) div 2 ^ sh = x div 2 ^ sh \<and> (x + i) mod 2 ^ sh = x mod 2 ^ sh + i" if "i < c" for i
  proof -
    have "x mod 2 ^ sh + i < 2 ^ sh" using that assms(2) m by linarith
    moreover have "x + i = x div 2 ^ sh * 2 ^ sh + (x mod 2 ^ sh + i)"
      using div_mult_mod_eq [of x "2 ^ sh"] by linarith
    ultimately show ?thesis by (metis div_mult_self3 mod_mult_self3 div_less add_0_right mod_less power_not_zero zero_neq_numeral)
  qed
  then have "take c (drop (x mod 2 ^ sh) pg) = map (page_byte sh alloc) [x..<x + c]"
    using assms(2) m pg by (intro nth_equalityI) (auto simp: page_byte_def)
  moreover have "x mod 2 ^ sh + c \<le> 2 ^ sh" using assms(2) m by linarith
  ultimately show ?thesis using pg by (auto simp: load_def)
qed

lemma buffer_copy_loop_correct:
  assumes "sh < 64" "bufs b = Some buffer" "start = buffer_start alloc buffer"
    and "start + unat off + unat n < 2 ^ 64" "ptr + unat n \<le> length dest"
    and "list_all (page_mapped sh alloc) [start + unat off..<start + unat off + unat n]"
  shows "buffer_copy_loop sh False bufs alloc b off dest ptr n =
    Some (0, take ptr dest @ map (page_byte sh alloc) [start + unat off..<start + unat off + unat n]
      @ drop (ptr + unat n) dest)"
  using assms(4-6)
proof (induction "unat n" arbitrary: n off dest ptr rule: less_induct)
  case less
  show ?case
  proof (cases "n = 0")
    case True
    then show ?thesis by (simp add: buffer_copy_loop.simps)
  next
    case False
    define x where "x = start + unat off"
    define space where "space = off + (bb_user_data buffer - al_buffer alloc)"
    have pos: "0 < unat n" using False by (simp add: word_greater_zero_iff unat_gt_0)
    have space: "unat space = x"
      using less.prems(1) assms(3) unat_add_lem [of off "bb_user_data buffer - al_buffer alloc"]
      by (simp add: space_def x_def buffer_start_def)
    have "page_mapped sh alloc x"
      using less.prems(3) pos by (simp add: list_all_iff x_def)
    define c where "c = min n (PAGE_SIZE sh - (space AND (PAGE_SIZE sh - 1)))"
    have le: "space AND (PAGE_SIZE sh - 1) \<le> PAGE_SIZE sh"
      using unat_PAGE_SIZE [OF assms(1)] unat_pgoff [of space sh]
      by (simp add: word_le_nat_alt less_imp_le)
    have c: "unat c = min (unat n) (2 ^ sh - x mod 2 ^ sh)"
      using unat_sub [OF le] unat_PAGE_SIZE [OF assms(1)] unat_pgoff [of space sh] space
      by (auto simp: c_def min_def word_le_nat_alt)
    from page_chunk [OF \<open>page_mapped sh alloc x\<close>, of "unat c"] c obtain pg where
      pg: "al_pages alloc ! (x div 2 ^ sh) = Some pg"
      "load pg (x mod 2 ^ sh) (unat c) = Some (map (page_byte sh alloc) [x..<x + unat c])"
      by auto
    have get: "rk_binder_alloc_get_page sh bufs alloc b off =
        Some (Some pg, space AND (PAGE_SIZE sh - 1))"
      using \<open>page_mapped sh alloc x\<close> pg(1)
      by (simp add: rk_binder_alloc_get_page_def assms(2) flip: space_def)
         (simp add: unat_index space page_mapped_def)
    define dest' where "dest' = take ptr dest @ map (page_byte sh alloc) [x..<x + unat c] @
        drop (ptr + unat c) dest"
    have mem: "rk_memcpy_from_page dest ptr (Some pg) (space AND (PAGE_SIZE sh - 1)) c = Some dest'"
      using pg(2) c less.prems(2)
      by (simp add: rk_memcpy_from_page_def unat_pgoff space store_def dest'_def)
    have cn: "c \<le> n" "0 < unat c" "unat c \<le> unat n"
      using c pos by (auto simp: word_le_nat_alt)
    have n': "unat (n - c) = unat n - unat c" using unat_sub [OF cn(1)] .
    have off': "unat (off + c) = unat off + unat c"
      using less.prems(1) cn(3) unat_add_lem [of off c] by simp
    have "buffer_copy_loop sh False bufs alloc b (off + c) dest' (ptr + unat c) (n - c) =
      Some (0, take (ptr + unat c) dest' @
        map (page_byte sh alloc) [start + unat (off + c)..<start + unat (off + c) + unat (n - c)]
        @ drop (ptr + unat c + unat (n - c)) dest')"
      using less.prems cn
      by (intro less.hyps) (auto simp: n' off' dest'_def list_all_iff)
    moreover have "[start + unat off..<start + unat off + unat n] =
        [x..<x + unat c] @ [x + unat c..<x + unat n]"
      using cn(3) upt_add_eq_append [of x "x + unat c" "unat n - unat c"] by (simp add: x_def add.assoc)
    ultimately show ?thesis
      using False cn(3) less.prems(2)
      by (subst buffer_copy_loop.simps)
         (simp add: get mem n' off' Let_def dest'_def add.assoc flip: c_def x_def,
          simp add: x_def ac_simps)
  qed
qed

lemma aligned4: "w AND 3 = 0 \<longleftrightarrow> 4 dvd unat (w :: u64)"
proof -
  have "w AND 3 = take_bit 2 w" by (simp add: take_bit_eq_mask mask_eq_exp_minus_1)
  then have "unat (w AND 3) = unat w mod 4"
    by (simp add: unat_mod_distrib take_bit_eq_mod)
  then show ?thesis by (metis unsigned_0 unat_eq_zero dvd_eq_mod_eq_0)
qed

lemma length_buffer_content:
  "bufs b = Some buffer \<Longrightarrow> rk_binder_alloc_buffer_size bufs alloc b = Some sz \<Longrightarrow>
     length (buffer_content sh bufs alloc b) = unat sz"
  by (simp add: buffer_content_def)

lemma copy_from_buffer_ok:
  assumes r: "buffer_readable sh bufs alloc b" and off: "4 dvd unat off"
    and len: "unat off + unat n \<le> length (buffer_content sh bufs alloc b)" and dest: "unat n \<le> length dest"
  shows "rk_binder_alloc_copy_from_buffer sh bufs alloc dest b off n =
    Some (0, take (unat n) (drop (unat off) (buffer_content sh bufs alloc b)) @ drop (unat n) dest)"
proof -
  from r obtain buffer sz where b: "bufs b = Some buffer"
    and sz: "rk_binder_alloc_buffer_size bufs alloc b = Some sz"
    and s: "sh < 64" and use: "\<not> bb_free buffer" "\<not> bb_allow_user_free buffer \<or> bb_transaction buffer = None"
    and bound: "buffer_start alloc buffer + unat sz < 2 ^ 64"
    and mapped: "list_all (page_mapped sh alloc)
      [buffer_start alloc buffer..<buffer_start alloc buffer + unat sz]"
    by (auto simp: buffer_readable_def split: option.splits)
  have l: "unat off + unat n \<le> unat sz"
    using len b sz by (simp add: length_buffer_content)
  then have le: "n \<le> sz" by (simp add: word_le_nat_alt)
  have "rk_check_buffer bufs alloc b off n = Some True"
    using l le use off unat_sub [OF le]
    by (auto simp: rk_check_buffer_def sz b word_le_nat_alt aligned4)
  moreover have "buffer_copy_loop sh False bufs alloc b off dest 0 n =
      Some (0, take 0 dest @ map (page_byte sh alloc)
        [buffer_start alloc buffer + unat off..<buffer_start alloc buffer + unat off + unat n]
        @ drop (0 + unat n) dest)"
    using l bound dest mapped
    by (intro buffer_copy_loop_correct [where bufs = bufs and b = b, OF s b refl]) (auto simp: list_all_iff)
  moreover have "take (unat n) (drop (unat off) (buffer_content sh bufs alloc b)) =
      map (page_byte sh alloc)
        [buffer_start alloc buffer + unat off..<buffer_start alloc buffer + unat off + unat n]"
    using l by (simp add: buffer_content_def b sz drop_map take_map)
  ultimately show ?thesis
    by (simp add: rk_binder_alloc_copy_from_buffer_def rk_binder_alloc_do_buffer_copy_def)
qed

text \<open>A request that leaves the buffer, or is not aligned, is refused and writes nothing.\<close>

lemma copy_from_buffer_refused:
  assumes "bufs b = Some buffer" "rk_binder_alloc_buffer_size bufs alloc b = Some sz"
    and "\<not> 4 dvd unat off \<or> unat sz < unat off + unat n \<or> bb_free buffer"
  shows "rk_binder_alloc_copy_from_buffer sh bufs alloc dest b off n = Some (- EINVAL, dest)"
proof -
  have "rk_check_buffer bufs alloc b off n = Some False"
    using assms(3) unat_sub [of n sz]
    by (auto simp: rk_check_buffer_def assms(1,2) word_le_nat_alt aligned4)
  then show ?thesis
    by (simp add: rk_binder_alloc_copy_from_buffer_def rk_binder_alloc_do_buffer_copy_def)
qed

lemma copy_from_buffer_total:
  assumes r: "buffer_readable sh bufs alloc b" and dest: "unat n \<le> length dest"
  shows "\<exists>rc d. rk_binder_alloc_copy_from_buffer sh bufs alloc dest b off n = Some (rc, d) \<and>
    length d = length dest"
proof -
  from r obtain buffer sz where b: "bufs b = Some buffer" "\<not> bb_free buffer"
    and sz: "rk_binder_alloc_buffer_size bufs alloc b = Some sz"
    by (auto simp: buffer_readable_def split: option.splits)
  show ?thesis
  proof (cases "4 dvd unat off \<and> unat off + unat n \<le> unat sz")
    case True
    then show ?thesis
      using copy_from_buffer_ok [OF r, of off n dest] dest length_buffer_content [OF b(1) sz]
      by (auto simp: min_def)
  next
    case False
    then show ?thesis
      using copy_from_buffer_refused [OF b(1) sz, of off n sh dest] by auto
  qed
qed

lemma buffer_size_unlink:
  assumes "bufs b' = Some buffer"
  shows "rk_binder_alloc_buffer_size (bufs(b' \<mapsto> buffer\<lparr>bb_transaction := None\<rparr>)) alloc b =
    rk_binder_alloc_buffer_size bufs alloc b"
  using assms
  by (cases "bufs b"; cases "rk_binder_buffer_next (al_buffers alloc) b")
     (auto simp: rk_binder_alloc_buffer_size_def split: option.splits)

lemma buffer_readable_unlink:
  assumes "buffer_readable sh bufs alloc b" "bufs b' = Some buffer"
  shows "buffer_readable sh (bufs(b' \<mapsto> buffer\<lparr>bb_transaction := None\<rparr>)) alloc b"
  using assms
  by (auto simp: buffer_readable_def buffer_size_unlink buffer_start_def split: option.splits)

interpretation legacy: txn_source "rk_binder_alloc_copy_from_buffer sh" "buffer_readable sh"
  "buffer_content sh" for sh
  by unfold_locales
     (rule copy_from_buffer_ok copy_from_buffer_total buffer_readable_unlink; assumption)+

section \<open>Properties\<close>

text \<open>A buffer of ten bytes over three pages of four, for examples.\<close>

definition sample_bufs :: buf_heap where
  "sample_bufs = [0 \<mapsto> \<lparr>bb_user_data = 4098, bb_data_size = 10, bb_offsets_size = 0, bb_pid = 1,
     bb_target_node = None, bb_free = False, bb_allow_user_free = False, bb_transaction = Some 0\<rparr>]"

definition sample_alloc :: buffer_alloc where
  "sample_alloc = \<lparr>al_buffer = 4096, al_buffer_size = 12, al_buffers = [0],
     al_pages = [Some [0, 1, 2, 3], Some [4, 5, 6, 7], Some [8, 9, 10, 11]]\<rparr>"

lemma sample_buffer_size: "rk_binder_alloc_buffer_size sample_bufs sample_alloc 0 = Some 10"
  by (simp add: rk_binder_alloc_buffer_size_def sample_bufs_def sample_alloc_def)

lemma sample_readable: "buffer_readable 2 sample_bufs sample_alloc 0"
proof -
  have "[2..<12] = [2, 3, 4, 5, 6, 7, 8, 9, 10, 11 :: nat]" by (simp add: upt_rec)
  then show ?thesis
    by (simp add: buffer_readable_def sample_buffer_size)
      (simp add: sample_bufs_def sample_alloc_def buffer_start_def page_mapped_def)
qed

lemma sample_content: "buffer_content 2 sample_bufs sample_alloc 0 = [2, 3, 4, 5, 6, 7, 8, 9, 10, 11]"
proof -
  have "[2..<12] = [2, 3, 4, 5, 6, 7, 8, 9, 10, 11 :: nat]" by (simp add: upt_rec)
  then show ?thesis
    by (simp add: buffer_content_def sample_buffer_size)
      (simp add: sample_bufs_def sample_alloc_def buffer_start_def page_byte_def)
qed

text \<open>
  C9: the page-by-page copy is a copy. On a buffer the driver has allocated, over pages of any size,
  the loop ends, never touches an unmapped page or a byte outside the destination, and delivers the
  requested bytes; a request that is not 4-aligned or reaches outside the buffer is refused and writes
  nothing.
\<close>

theorem copy_from_buffer_correct:
  assumes "buffer_readable sh bufs alloc b" "unat n \<le> length dest"
  shows "rk_binder_alloc_copy_from_buffer sh bufs alloc dest b off n =
    Some (if 4 dvd unat off \<and> unat off + unat n \<le> length (buffer_content sh bufs alloc b)
      then (0, take (unat n) (drop (unat off) (buffer_content sh bufs alloc b)) @ drop (unat n) dest)
      else (- EINVAL, dest))"
proof -
  from assms(1) obtain buffer sz where b: "bufs b = Some buffer"
    and sz: "rk_binder_alloc_buffer_size bufs alloc b = Some sz"
    by (auto simp: buffer_readable_def split: option.splits)
  show ?thesis
    using copy_from_buffer_ok [OF assms(1) _ _ assms(2), of off]
      copy_from_buffer_refused [OF b sz, of off n sh dest] length_buffer_content [OF b sz]
    by auto
qed

theorem copy_from_buffer_correct_witness:
  "rk_binder_alloc_copy_from_buffer 2 sample_bufs sample_alloc [0, 0, 0, 0, 0, 0] 0 4 5 =
     Some (0, [6, 7, 8, 9, 10, 0]) \<and>
   rk_binder_alloc_copy_from_buffer 2 sample_bufs sample_alloc [0, 0, 0, 0, 0, 0, 0] 0 4 7 =
     Some (- EINVAL, [0, 0, 0, 0, 0, 0, 0])"
  using copy_from_buffer_correct [OF sample_readable, of 5 "[0, 0, 0, 0, 0, 0]" 4]
    copy_from_buffer_correct [OF sample_readable, of 7 "[0, 0, 0, 0, 0, 0, 0]" 4]
  by (simp add: sample_content)

end
