(* ===== verification/Rkx_Binder_Kp.thy ===== *)
theory Rkx_Binder_Kp
  imports Rkx_Binder Rkx_Free_Async Rkx_Binder_Alloc
begin

text \<open>
  \<^verbatim>\<open>LKM-Source/rkx_binder_kp.c\<close>: the kprobe on \<^verbatim>\<open>binder_proc_transaction\<close> that
  removes a superseded asynchronous transaction of a frozen process from its node's queue, the work
  item that frees it, and the registration. The binder objects are heaps of records indexed by
  references (the fields the module uses), so that a \<^verbatim>\<open>NULL\<close> or dangling pointer is the
  value \<open>None\<close>, and so is a lock taken twice or released without being held. The binder functions
  the module looks up at run time are function pointers, \<open>None\<close> being \<^verbatim>\<open>NULL\<close>.
\<close>

section \<open>Binder objects\<close>

type_synonym proc_ref = nat

record binder_proc =
  bp_tsk :: task_ref
  bp_is_dead :: bool
  bp_is_frozen :: bool
  bp_threads_empty :: bool
  bp_tmp_ref :: int
  bp_outstanding_txns :: int
  bp_alloc :: buffer_alloc

datatype binder_work = BINDER_WORK_TRANSACTION txn_ref | BINDER_WORK_OTHER nat

record binder_node =
  bn_ptr :: u64
  bn_cookie :: u64
  bn_has_async_transaction :: bool
  bn_async_todo :: "binder_work list"

record binder_transaction =
  bt_flags :: u32
  bt_code :: u32
  bt_to_proc :: "proc_ref option"
  bt_buffer :: "buf_ref option"

datatype spinlock_t = Inner_lock proc_ref | Node_lock node_ref

record rkx_free_txn_work =
  w_proc :: proc_ref
  w_buffer :: buf_ref
  w_t :: txn_ref

record kp_state =
  procs :: "proc_ref \<Rightarrow> binder_proc option"
  nodes :: "node_ref \<Rightarrow> binder_node option"
  txns :: "txn_ref \<Rightarrow> binder_transaction option"
  bufs :: buf_heap
  held :: "spinlock_t list"
  free_wq :: "rkx_free_txn_work list"
  obj_deleted :: s32

record kp_syms =
  k_binder_transaction_buffer_release ::
    "(kp_state \<Rightarrow> proc_ref \<Rightarrow> buf_ref \<Rightarrow> u64 \<Rightarrow> bool \<Rightarrow> kp_state option) option"
  k_binder_alloc_free_buf :: "(kp_state \<Rightarrow> proc_ref \<Rightarrow> buf_ref \<Rightarrow> kp_state option) option"
  k_binder_alloc_copy_from_buffer ::
    "(buf_heap \<Rightarrow> buffer_alloc \<Rightarrow> bytes \<Rightarrow> buf_ref \<Rightarrow> u64 \<Rightarrow> u64 \<Rightarrow> (int \<times> bytes) option) option"
  k_binder_stats :: "unit option"
  k_binder_proc_dec_tmpref :: "(kp_state \<Rightarrow> proc_ref \<Rightarrow> kp_state option) option"
  k_binder_free_proc :: "(kp_state \<Rightarrow> proc_ref \<Rightarrow> kp_state option) option"

section \<open>Locks\<close>

definition spin_lock :: "spinlock_t \<Rightarrow> kp_state \<Rightarrow> kp_state option" where
  "spin_lock l st = (if l \<in> set (held st) then None else Some (st\<lparr>held := l # held st\<rparr>))"

definition spin_unlock :: "spinlock_t \<Rightarrow> kp_state \<Rightarrow> kp_state option" where
  "spin_unlock l st =
     (if l \<in> set (held st) then Some (st\<lparr>held := remove1 l (held st)\<rparr>) else None)"

definition rk_binder_inner_proc_lock :: "proc_ref \<Rightarrow> kp_state \<Rightarrow> kp_state option" where
  "rk_binder_inner_proc_lock proc st = spin_lock (Inner_lock proc) st"

definition rk_binder_inner_proc_unlock :: "proc_ref \<Rightarrow> kp_state \<Rightarrow> kp_state option" where
  "rk_binder_inner_proc_unlock proc st = spin_unlock (Inner_lock proc) st"

definition rk_binder_node_lock :: "node_ref \<Rightarrow> kp_state \<Rightarrow> kp_state option" where
  "rk_binder_node_lock node st = spin_lock (Node_lock node) st"

definition rk_binder_node_unlock :: "node_ref \<Rightarrow> kp_state \<Rightarrow> kp_state option" where
  "rk_binder_node_unlock node st = spin_unlock (Node_lock node) st"

section \<open>Comparing the data of two buffers\<close>

definition data_chunk :: "u64 \<Rightarrow> u64 \<Rightarrow> u64" where
  "data_chunk tot pos = (if tot - pos > 64 then 64 else tot - pos)"

lemma data_chunk_bounds:
  assumes "pos < tot"
  shows "0 < unat (data_chunk tot pos)" "unat (data_chunk tot pos) \<le> 64"
    "unat pos + unat (data_chunk tot pos) \<le> unat tot"
    "unat (pos + data_chunk tot pos) = unat pos + unat (data_chunk tot pos)"
    "unat pos + unat (data_chunk tot pos) = unat tot \<or> data_chunk tot pos = 64"
proof -
  have d: "unat (tot - pos) = unat tot - unat pos" "unat pos < unat tot"
    using assms by (auto simp: word_less_nat_alt intro!: unat_sub order_less_imp_le)
  show *: "0 < unat (data_chunk tot pos)" "unat (data_chunk tot pos) \<le> 64"
    "unat pos + unat (data_chunk tot pos) \<le> unat tot"
    "unat pos + unat (data_chunk tot pos) = unat tot \<or> data_chunk tot pos = 64"
    using d by (auto simp: data_chunk_def word_less_nat_alt)
  have "unat tot < 2 ^ 64" by (rule order_less_le_trans [OF unsigned_less]) simp
  with *(3) show "unat (pos + data_chunk tot pos) = unat pos + unat (data_chunk tot pos)"
    using unat_add_lem [of pos "data_chunk tot pos"] by simp
qed

function data_equal_loop ::
  "(buf_heap \<Rightarrow> buffer_alloc \<Rightarrow> bytes \<Rightarrow> buf_ref \<Rightarrow> u64 \<Rightarrow> u64 \<Rightarrow> (int \<times> bytes) option) \<Rightarrow>
   buf_heap \<Rightarrow> buffer_alloc \<Rightarrow> buf_ref \<Rightarrow> buf_ref \<Rightarrow> u64 \<Rightarrow> bytes \<Rightarrow> bytes \<Rightarrow> u64 \<Rightarrow> bool option" where
  "data_equal_loop copy h alloc b1 b2 tot c1 c2 pos =
     (if pos < tot then
        (case copy h alloc c1 b1 pos (data_chunk tot pos) of
           None \<Rightarrow> None
         | Some (rc1, c1') \<Rightarrow>
             if rc1 \<noteq> 0 then Some False
             else
               (case copy h alloc c2 b2 pos (data_chunk tot pos) of
                  None \<Rightarrow> None
                | Some (rc2, c2') \<Rightarrow>
                    if rc2 \<noteq> 0 then Some False
                    else
                      (case (load c1' 0 (unat (data_chunk tot pos)),
                             load c2' 0 (unat (data_chunk tot pos))) of
                         (Some d1, Some d2) \<Rightarrow>
                           if d1 \<noteq> d2 then Some False
                           else data_equal_loop copy h alloc b1 b2 tot c1' c2'
                                  (pos + data_chunk tot pos)
                       | _ \<Rightarrow> None)))
      else Some True)"
  by pat_completeness auto
termination
proof (relation "measure (\<lambda>(copy, h, alloc, b1, b2, tot, c1, c2, pos). unat tot - unat pos)",
    goal_cases)
  case (2 copy h alloc b1 b2 tot c1 c2 pos)
  then show ?case using data_chunk_bounds [of pos tot] by simp
qed simp

declare data_equal_loop.simps [simp del]

definition rkx_binder_buffer_data_equal ::
  "kp_syms \<Rightarrow> kp_state \<Rightarrow> proc_ref option \<Rightarrow> buf_ref option \<Rightarrow> buf_ref option \<Rightarrow> bool option" where
  "rkx_binder_buffer_data_equal syms st proc b1 b2 =
     (case (proc, b1, b2, k_binder_alloc_copy_from_buffer syms) of
        (Some proc, Some b1, Some b2, Some copy) \<Rightarrow> do {
          p \<leftarrow> procs st proc;
          buf1 \<leftarrow> bufs st b1;
          buf2 \<leftarrow> bufs st b2;
          if bb_data_size buf1 \<noteq> bb_data_size buf2 then Some False
          else data_equal_loop copy (bufs st) (bp_alloc p) b1 b2 (bb_data_size buf1)
                 (replicate 64 0) (replicate 64 0) 0
        }
      | _ \<Rightarrow> Some False)"

section \<open>The interface name of a queued transaction\<close>

text \<open>\<^verbatim>\<open>copy_size\<close>: the size of the data, capped at that of the local array.\<close>

definition token_copy_size :: "u64 \<Rightarrow> u64" where
  "token_copy_size data_size =
     (if data_size > of_nat RKX_INTERFACETOKEN_BUFF_SIZE
      then of_nat RKX_INTERFACETOKEN_BUFF_SIZE else data_size)"

definition rkx_parse_interface_token ::
  "kp_syms \<Rightarrow> kp_state \<Rightarrow> proc_ref option \<Rightarrow> buf_ref option \<Rightarrow> bytes option \<Rightarrow> nat \<Rightarrow>
     (bool \<times> bytes option) option" where
  "rkx_parse_interface_token syms st proc buffer rpc_name rpc_name_size =
     (case (proc, buffer, rpc_name, k_binder_alloc_copy_from_buffer syms) of
        (Some proc, Some b, Some rpc_name, Some copy) \<Rightarrow>
          if rpc_name_size = 0 then Some (False, Some rpc_name)
          else do {
            rpc_name \<leftarrow> store8 rpc_name 0 0;
            buf \<leftarrow> bufs st b;
            if bb_data_size buf \<le> of_nat RKX_PARCEL_OFFSET then Some (False, Some rpc_name)
            else do {
              let copy_size = token_copy_size (bb_data_size buf);
              p \<leftarrow> procs st proc;
              (rc, hdr) \<leftarrow> copy (bufs st) (bp_alloc p)
                 (replicate RKX_INTERFACETOKEN_BUFF_SIZE 0) b 0 copy_size;
              if rc \<noteq> 0 then Some (False, Some rpc_name)
              else do {
                (i, rpc_name) \<leftarrow> token_loop (rpc_name_size - 1) (unat copy_size) hdr
                   0 (RKX_PARCEL_OFFSET + 1) RKX_PARCEL_OFFSET rpc_name;
                rpc_name \<leftarrow> store8 rpc_name i 0;
                Some (i > 0, Some rpc_name)
              }
            }
          }
      | _ \<Rightarrow> Some (False, rpc_name))"

section \<open>Finding a superseded transaction\<close>

definition rk_binder_can_update_transaction ::
  "kp_syms \<Rightarrow> kp_state \<Rightarrow> txn_ref \<Rightarrow> txn_ref \<Rightarrow> u8 \<Rightarrow> bool option" where
  "rk_binder_can_update_transaction syms st r1 r2 strategy = do {
     t1 \<leftarrow> txns st r1;
     t2 \<leftarrow> txns st r2;
     if bt_flags t1 AND bt_flags t2 AND TF_ONE_WAY \<noteq> TF_ONE_WAY \<or>
        bt_to_proc t1 = None \<or> bt_to_proc t2 = None then Some False
     else do {
       r \<leftarrow> bt_to_proc t1; p1 \<leftarrow> procs st r;
       r' \<leftarrow> bt_to_proc t2; p2 \<leftarrow> procs st r';
       if \<not> (bp_tsk p1 = bp_tsk p2 \<and> bt_code t1 = bt_code t2 \<and> bt_flags t1 = bt_flags t2)
       then Some False
       else do {
         b1 \<leftarrow> bt_buffer t1; buf1 \<leftarrow> bufs st b1;
         b2 \<leftarrow> bt_buffer t2; buf2 \<leftarrow> bufs st b2;
         if bb_pid buf1 \<noteq> bb_pid buf2 then Some False
         else do {
           n1 \<leftarrow> bb_target_node buf1; node1 \<leftarrow> nodes st n1;
           n2 \<leftarrow> bb_target_node buf2; node2 \<leftarrow> nodes st n2;
           if \<not> (bn_ptr node1 = bn_ptr node2 \<and> bn_cookie node1 = bn_cookie node2) then Some False
           else if bb_offsets_size buf1 \<noteq> 0 \<or> bb_offsets_size buf2 \<noteq> 0 then Some False
           else if strategy = RKX_FREE_ASYNC_BY_CODE then Some True
           else if strategy = RKX_FREE_ASYNC_BY_DATA
           then rkx_binder_buffer_data_equal syms st (bt_to_proc t1) (bt_buffer t1) (bt_buffer t2)
           else Some False
         }
       }
     }
   }"

fun rk_binder_find_outdated_transaction_ilocked ::
  "kp_syms \<Rightarrow> kp_state \<Rightarrow> txn_ref \<Rightarrow> binder_work list \<Rightarrow> u8 \<Rightarrow> txn_ref option option" where
  "rk_binder_find_outdated_transaction_ilocked syms st t [] strategy = Some None"
| "rk_binder_find_outdated_transaction_ilocked syms st t (BINDER_WORK_OTHER ty # target_list) strategy =
     rk_binder_find_outdated_transaction_ilocked syms st t target_list strategy"
| "rk_binder_find_outdated_transaction_ilocked syms st t
     (BINDER_WORK_TRANSACTION t_queued # target_list) strategy = do {
     upd \<leftarrow> rk_binder_can_update_transaction syms st t_queued t strategy;
     if upd then Some (Some t_queued)
     else rk_binder_find_outdated_transaction_ilocked syms st t target_list strategy
   }"

section \<open>Freeing a transaction in the work queue\<close>

definition rk_binder_release_entire_buffer ::
  "kp_syms \<Rightarrow> kp_state \<Rightarrow> proc_ref \<Rightarrow> buf_ref \<Rightarrow> bool \<Rightarrow> kp_state option" where
  "rk_binder_release_entire_buffer syms st proc b is_failure = do {
     buffer \<leftarrow> bufs st b;
     let off_end_offset = ((bb_data_size buffer + 7) AND NOT 7) + bb_offsets_size buffer;
     release \<leftarrow> k_binder_transaction_buffer_release syms;
     release st proc b off_end_offset is_failure
   }"

definition rk_binder_stats_deleted :: "kp_syms \<Rightarrow> kp_state \<Rightarrow> kp_state option" where
  "rk_binder_stats_deleted syms st = do {
     stats \<leftarrow> k_binder_stats syms;
     Some (st\<lparr>obj_deleted := obj_deleted st + 1\<rparr>)
   }"

definition set_proc :: "proc_ref \<Rightarrow> binder_proc \<Rightarrow> kp_state \<Rightarrow> kp_state" where
  "set_proc r p st = st\<lparr>procs := (procs st)(r := Some p)\<rparr>"

definition rk_binder_proc_dec_tmpref :: "kp_syms \<Rightarrow> kp_state \<Rightarrow> proc_ref \<Rightarrow> kp_state option" where
  "rk_binder_proc_dec_tmpref syms st proc =
     (case k_binder_proc_dec_tmpref syms of
        Some dec \<Rightarrow> dec st proc
      | None \<Rightarrow> do {
          st \<leftarrow> rk_binder_inner_proc_lock proc st;
          p \<leftarrow> procs st proc;
          let p = p\<lparr>bp_tmp_ref := bp_tmp_ref p - 1\<rparr>;
          let st = set_proc proc p st;
          if bp_is_dead p \<and> bp_threads_empty p \<and> bp_tmp_ref p = 0 then do {
            st \<leftarrow> rk_binder_inner_proc_unlock proc st;
            free \<leftarrow> k_binder_free_proc syms;
            free st proc
          }
          else rk_binder_inner_proc_unlock proc st
        })"

text \<open>\<^verbatim>\<open>kfree\<close> of a transaction; freeing it twice is \<open>None\<close>.\<close>

definition kfree_txn :: "txn_ref \<Rightarrow> kp_state \<Rightarrow> kp_state option" where
  "kfree_txn t st = do {
     x \<leftarrow> txns st t;
     Some (st\<lparr>txns := (txns st)(t := None)\<rparr>)
   }"

definition rkx_free_txn_func :: "kp_syms \<Rightarrow> rkx_free_txn_work \<Rightarrow> kp_state \<Rightarrow> kp_state option" where
  "rkx_free_txn_func syms w st = do {
     st \<leftarrow> rk_binder_release_entire_buffer syms st (w_proc w) (w_buffer w) False;
     free_buf \<leftarrow> k_binder_alloc_free_buf syms;
     st \<leftarrow> free_buf st (w_proc w) (w_buffer w);
     st \<leftarrow> kfree_txn (w_t w) st;
     st \<leftarrow> rk_binder_stats_deleted syms st;
     rk_binder_proc_dec_tmpref syms st (w_proc w)
   }"

definition rkx_queue_free_txn :: "proc_ref \<Rightarrow> txn_ref \<Rightarrow> buf_ref \<Rightarrow> kp_state \<Rightarrow> kp_state" where
  "rkx_queue_free_txn proc t buffer st =
     st\<lparr>free_wq := free_wq st @ [\<lparr>w_proc = proc, w_buffer = buffer, w_t = t\<rparr>]\<rparr>"

text \<open>The work queue runs one item at a time, in order; flushing it runs all of them.\<close>

fun run_works :: "kp_syms \<Rightarrow> rkx_free_txn_work list \<Rightarrow> kp_state \<Rightarrow> kp_state option" where
  "run_works syms [] st = Some st"
| "run_works syms (w # ws) st = do {
     st \<leftarrow> rkx_free_txn_func syms w (st\<lparr>free_wq := ws\<rparr>);
     run_works syms ws st
   }"

definition flush_workqueue :: "kp_syms \<Rightarrow> kp_state \<Rightarrow> kp_state option" where
  "flush_workqueue syms st = run_works syms (free_wq st) st"

section \<open>The kprobe handler\<close>

text \<open>What the rule store and the freezer are when the probe runs, and whether \<^verbatim>\<open>kzalloc\<close> succeeds.\<close>

record kp_env =
  ke_kernel :: kernel
  ke_hash :: hash_env
  ke_rules :: free_async_state
  ke_kzalloc :: bool

definition kp_strategy :: "kp_env \<Rightarrow> kp_syms \<Rightarrow> kp_state \<Rightarrow> proc_ref \<Rightarrow> buf_ref option \<Rightarrow> u32 \<Rightarrow> u8 option"
  where
  "kp_strategy env syms st proc buffer code =
     (let strategy = RKX_FREE_ASYNC_BY_CODE
      in if rkx_free_async_has_entries (ke_rules env) then do {
           (parsed, rpc_name) \<leftarrow> rkx_parse_interface_token syms st (Some proc) buffer
              (Some (replicate RKX_INTERFACETOKEN_BUFF_SIZE 0)) RKX_INTERFACETOKEN_BUFF_SIZE;
           if parsed
           then snd (rkx_free_async_lookup_rcu (ke_hash env) (ke_rules env) rpc_name code (Some strategy))
           else Some strategy
         }
         else Some strategy)"

text \<open>Under both locks: \<^verbatim>\<open>tmp_ref++\<close>, unlink, \<^verbatim>\<open>outstanding_txns--\<close>.\<close>

definition kp_detach :: "proc_ref \<Rightarrow> node_ref \<Rightarrow> txn_ref \<Rightarrow> kp_state \<Rightarrow> kp_state option" where
  "kp_detach proc node t st = do {
     p \<leftarrow> procs st proc;
     n \<leftarrow> nodes st node;
     Some (st\<lparr>
       procs := (procs st)(proc := Some (p\<lparr>bp_tmp_ref := bp_tmp_ref p + 1,
         bp_outstanding_txns := bp_outstanding_txns p - 1\<rparr>)),
       nodes := (nodes st)(node := Some (n\<lparr>bn_async_todo :=
         remove1 (BINDER_WORK_TRANSACTION t) (bn_async_todo n)\<rparr>))\<rparr>)
   }"

text \<open>Without the locks: break the link between transaction and buffer, and queue both for release.\<close>

definition kp_retire :: "proc_ref \<Rightarrow> txn_ref \<Rightarrow> kp_state \<Rightarrow> kp_state option" where
  "kp_retire proc t st = do {
     x \<leftarrow> txns st t;
     b \<leftarrow> bt_buffer x;
     buffer \<leftarrow> bufs st b;
     Some (rkx_queue_free_txn proc t b (st\<lparr>
       txns := (txns st)(t := Some (x\<lparr>bt_buffer := None\<rparr>)),
       bufs := (bufs st)(b := Some (buffer\<lparr>bb_transaction := None\<rparr>))\<rparr>))
   }"

text \<open>The part between \<^verbatim>\<open>rk_binder_node_lock\<close> and the end, for a given strategy.\<close>

definition kp_supersede ::
  "bool \<Rightarrow> kp_syms \<Rightarrow> u8 \<Rightarrow> txn_ref \<Rightarrow> proc_ref \<Rightarrow> node_ref \<Rightarrow> kp_state \<Rightarrow> kp_state option" where
  "kp_supersede kz syms strategy t proc node st = do {
     st \<leftarrow> rk_binder_node_lock node st;
     n \<leftarrow> nodes st node;
     if \<not> bn_has_async_transaction n then rk_binder_node_unlock node st
     else do {
       st \<leftarrow> rk_binder_inner_proc_lock proc st;
       p \<leftarrow> procs st proc;
       if bp_is_dead p \<or> bp_is_frozen p then do {
         st \<leftarrow> rk_binder_inner_proc_unlock proc st;
         rk_binder_node_unlock node st
       }
       else do {
         found \<leftarrow> rk_binder_find_outdated_transaction_ilocked syms st t (bn_async_todo n) strategy;
         let t_outdated = (if kz then found else None);
         st \<leftarrow> (case t_outdated of None \<Rightarrow> Some st | Some t' \<Rightarrow> kp_detach proc node t' st);
         st \<leftarrow> rk_binder_inner_proc_unlock proc st;
         st \<leftarrow> rk_binder_node_unlock node st;
         case t_outdated of None \<Rightarrow> Some st | Some t' \<Rightarrow> kp_retire proc t' st
       }
     }
   }"

definition rkx_binder_proc_transaction_pre ::
  "kp_env \<Rightarrow> kp_syms \<Rightarrow> txn_ref \<Rightarrow> proc_ref \<Rightarrow> kp_state \<Rightarrow> kp_state option" where
  "rkx_binder_proc_transaction_pre env syms t proc st = do {
     x \<leftarrow> txns st t;
     b \<leftarrow> bt_buffer x;
     buffer \<leftarrow> bufs st b;
     if bt_flags x AND TF_ONE_WAY = 0 then Some st
     else do {
       p \<leftarrow> procs st proc;
       if rkx_is_frozen (ke_kernel env) (bp_tsk p) then do {
         strategy \<leftarrow> kp_strategy env syms st proc (bt_buffer x) (bt_code x);
         if strategy = RKX_FREE_ASYNC_SKIP then Some st
         else do {
           node \<leftarrow> bb_target_node buffer;
           kp_supersede (ke_kzalloc env) syms strategy t proc node st
         }
       }
       else Some st
     }
   }"

section \<open>Registration of the kprobe\<close>

text \<open>
  The environment holds what the kernel answers: the work queue allocation, the two kprobe
  registrations, and the symbol table, as the typed pointer of each name.
\<close>

record kp_reg_env =
  re_version :: version
  re_page_shift :: nat
  alloc_workqueue :: bool
  register_kallsyms :: int
  register_transaction :: int
  kallsyms :: kp_syms

record kp_module =
  rkx_kp_registered :: bool
  rkx_free_wq :: bool
  kp_kallsyms_armed :: bool
  kp_transaction_armed :: bool
  kp_symbols :: kp_syms
  kp_heap :: "kp_state option"

definition kp_null_syms :: kp_syms where
  "kp_null_syms = \<lparr>k_binder_transaction_buffer_release = None, k_binder_alloc_free_buf = None,
     k_binder_alloc_copy_from_buffer = None, k_binder_stats = None, k_binder_proc_dec_tmpref = None,
     k_binder_free_proc = None\<rparr>"

definition rkx_unregister_binder_kp :: "kp_module \<Rightarrow> kp_module" where
  "rkx_unregister_binder_kp m =
     (let m = (if rkx_kp_registered m
               then m\<lparr>kp_transaction_armed := False, rkx_kp_registered := False\<rparr> else m)
      in if rkx_free_wq m
         then m\<lparr>kp_heap := Option.bind (kp_heap m) (flush_workqueue (kp_symbols m)),
                rkx_free_wq := False\<rparr>
         else m)"

text \<open>The assignments between the two kprobe registrations.\<close>

definition kp_resolve :: "kp_reg_env \<Rightarrow> kp_syms \<Rightarrow> kp_syms" where
  "kp_resolve e old = \<lparr>
     k_binder_transaction_buffer_release = k_binder_transaction_buffer_release (kallsyms e),
     k_binder_alloc_free_buf = k_binder_alloc_free_buf (kallsyms e),
     k_binder_alloc_copy_from_buffer =
       (if re_version e < (6, 0, 0) then Some (rk_binder_alloc_copy_from_buffer (re_page_shift e))
        else k_binder_alloc_copy_from_buffer (kallsyms e)),
     k_binder_stats = k_binder_stats (kallsyms e),
     k_binder_proc_dec_tmpref = k_binder_proc_dec_tmpref (kallsyms e),
     k_binder_free_proc =
       (if re_version e < (5, 15, 0) then k_binder_free_proc (kallsyms e)
        else k_binder_free_proc old)\<rparr>"

definition kp_syms_missing :: "kp_syms \<Rightarrow> bool" where
  "kp_syms_missing s \<longleftrightarrow>
     k_binder_transaction_buffer_release s = None \<or> k_binder_alloc_free_buf s = None \<or>
     k_binder_alloc_copy_from_buffer s = None \<or> k_binder_stats s = None \<or>
     (k_binder_proc_dec_tmpref s = None \<and> k_binder_free_proc s = None)"

definition rkx_register_binder_kp :: "kp_reg_env \<Rightarrow> kp_module \<Rightarrow> kp_module" where
  "rkx_register_binder_kp e m =
     (let m = m\<lparr>rkx_free_wq := alloc_workqueue e\<rparr>
      in if \<not> rkx_free_wq m then rkx_unregister_binder_kp m
         else if register_kallsyms e \<noteq> RKX_SUCCESS then rkx_unregister_binder_kp m
         else
           (let m = m\<lparr>kp_kallsyms_armed := True\<rparr>;
                m = m\<lparr>kp_kallsyms_armed := False\<rparr>;
                m = m\<lparr>kp_symbols := kp_resolve e (kp_symbols m)\<rparr>
            in if kp_syms_missing (kp_symbols m) then rkx_unregister_binder_kp m
               else if register_transaction e \<noteq> RKX_SUCCESS then rkx_unregister_binder_kp m
               else m\<lparr>kp_transaction_armed := True, rkx_kp_registered := True\<rparr>))"

section \<open>Registration is all or nothing\<close>

lemma unregister_kp_flags [simp]:
  "rkx_kp_registered (rkx_unregister_binder_kp m) = False"
  "rkx_free_wq (rkx_unregister_binder_kp m) = False"
  "kp_kallsyms_armed (rkx_unregister_binder_kp m) = kp_kallsyms_armed m"
  "kp_transaction_armed (rkx_unregister_binder_kp m) =
     (kp_transaction_armed m \<and> \<not> rkx_kp_registered m)"
  "kp_symbols (rkx_unregister_binder_kp m) = kp_symbols m"
  by (simp_all add: rkx_unregister_binder_kp_def Let_def)

lemma unregister_kp_heap:
  "kp_heap (rkx_unregister_binder_kp m) =
     (if rkx_free_wq m then Option.bind (kp_heap m) (flush_workqueue (kp_symbols m)) else kp_heap m)"
  by (simp add: rkx_unregister_binder_kp_def Let_def)

definition kp_flags_ok :: "kp_module \<Rightarrow> bool" where
  "kp_flags_ok m \<longleftrightarrow> rkx_kp_registered m = kp_transaction_armed m \<and> \<not> kp_kallsyms_armed m \<and>
     (rkx_kp_registered m \<longrightarrow> rkx_free_wq m \<and> \<not> kp_syms_missing (kp_symbols m))"

definition kp_active :: "kp_module \<Rightarrow> bool" where
  "kp_active m \<longleftrightarrow> kp_transaction_armed m \<or> kp_kallsyms_armed m \<or> rkx_free_wq m"

definition kp_full :: "kp_module \<Rightarrow> bool" where
  "kp_full m \<longleftrightarrow> kp_transaction_armed m \<and> rkx_free_wq m \<and> \<not> kp_syms_missing (kp_symbols m)"

text \<open>\<^verbatim>\<open>rkx_register_binder_kp\<close> returns nothing: its flag says whether it succeeded.\<close>

definition register_kp_result :: "kp_reg_env \<Rightarrow> kp_module \<Rightarrow> int \<times> kp_module" where
  "register_kp_result e m =
     (let m' = rkx_register_binder_kp e m
      in (if rkx_kp_registered m' then RKX_SUCCESS else RKX_ERROR, m'))"

lemma register_kp_cases:
  "\<not> rkx_kp_registered m \<Longrightarrow> \<not> kp_transaction_armed m \<Longrightarrow>
     (\<exists>m'. rkx_register_binder_kp e m = rkx_unregister_binder_kp m' \<and>
        \<not> rkx_kp_registered m' \<and> \<not> kp_transaction_armed m' \<and>
        (kp_kallsyms_armed m' \<longrightarrow> kp_kallsyms_armed m)) \<or>
     (kp_full (rkx_register_binder_kp e m) \<and> rkx_kp_registered (rkx_register_binder_kp e m) \<and>
      \<not> kp_kallsyms_armed (rkx_register_binder_kp e m))"
  by (force simp: rkx_register_binder_kp_def Let_def kp_full_def)

interpretation kp_reg: registration register_kp_result "\<lambda>_. rkx_unregister_binder_kp"
  kp_flags_ok kp_active kp_full
proof unfold_locales
  fix m e
  assume ok: "kp_flags_ok m"
  show "kp_flags_ok (rkx_unregister_binder_kp m)" "\<not> kp_active (rkx_unregister_binder_kp m)"
    using ok by (auto simp: kp_flags_ok_def kp_active_def)
  assume idle: "\<not> kp_active m"
  then show "rkx_unregister_binder_kp m = m"
    using ok by (simp add: kp_active_def kp_flags_ok_def rkx_unregister_binder_kp_def)
  have c: "\<not> rkx_kp_registered m" "\<not> kp_transaction_armed m" "\<not> kp_kallsyms_armed m"
    using ok idle by (auto simp: kp_flags_ok_def kp_active_def)
  show "kp_flags_ok (snd (register_kp_result e m))"
    using register_kp_cases [OF c(1,2), of e] c(3)
    by (auto simp: register_kp_result_def Let_def kp_flags_ok_def kp_full_def)
  show "kp_full (snd (register_kp_result e m))" if "fst (register_kp_result e m) = RKX_SUCCESS"
    using register_kp_cases [OF c(1,2), of e] that
    by (auto simp: register_kp_result_def Let_def split: if_splits)
  show "\<not> kp_active (snd (register_kp_result e m))" if "fst (register_kp_result e m) \<noteq> RKX_SUCCESS"
    using register_kp_cases [OF c(1,2), of e] c(3) that
    by (auto simp: register_kp_result_def Let_def kp_active_def split: if_splits)
qed

section \<open>The comparison and the parser read exactly the bytes of the buffers\<close>

context byte_source
begin

lemma data_equal_loop_correct:
  assumes r: "readable h alloc b1" "readable h alloc b2"
    and len: "unat tot \<le> length (content h alloc b1)" "unat tot \<le> length (content h alloc b2)"
    and pos: "pos \<le> tot" "pos = tot \<or> 4 dvd unat pos" and c: "length c1 = 64" "length c2 = 64"
  shows "data_equal_loop copy h alloc b1 b2 tot c1 c2 pos =
    Some (drop (unat pos) (take (unat tot) (content h alloc b1)) =
          drop (unat pos) (take (unat tot) (content h alloc b2)))"
  using pos c
proof (induction "unat tot - unat pos" arbitrary: pos c1 c2 rule: less_induct)
  case less
  show ?case
  proof (cases "pos < tot")
    case False
    then have "pos = tot" using less.prems(1) by simp
    then show ?thesis by (simp add: data_equal_loop.simps)
  next
    case True
    let ?k = "unat (data_chunk tot pos)" and ?p = "unat pos"
    let ?x = "drop ?p (take (unat tot) (content h alloc b1))"
    let ?y = "drop ?p (take (unat tot) (content h alloc b2))"
    note k = data_chunk_bounds [OF True]
    have al: "4 dvd ?p" using True less.prems(2) by auto
    have copy1: "copy h alloc c1 b1 pos (data_chunk tot pos) = Some (0, take ?k ?x @ drop ?k c1)"
      using copy_ok [OF r(1) al, of "data_chunk tot pos" c1] k len less.prems(3)
      by (simp add: take_drop min_def)
    have copy2: "copy h alloc c2 b2 pos (data_chunk tot pos) = Some (0, take ?k ?y @ drop ?k c2)"
      using copy_ok [OF r(2) al, of "data_chunk tot pos" c2] k len less.prems(4)
      by (simp add: take_drop min_def)
    have l: "length (take ?k ?x) = ?k" "length (take ?k ?y) = ?k"
      using k len by auto
    have step: "data_equal_loop copy h alloc b1 b2 tot c1 c2 pos =
        (if take ?k ?x \<noteq> take ?k ?y then Some False
         else data_equal_loop copy h alloc b1 b2 tot (take ?k ?x @ drop ?k c1)
           (take ?k ?y @ drop ?k c2) (pos + data_chunk tot pos))"
      using l by (subst data_equal_loop.simps) (simp add: True copy1 copy2 load_def del: length_take)
    have next_pos: "pos + data_chunk tot pos \<le> tot"
      "pos + data_chunk tot pos = tot \<or> 4 dvd unat (pos + data_chunk tot pos)"
      using k al by (auto simp: word_le_nat_alt word_unat_eq_iff)
    have rec: "data_equal_loop copy h alloc b1 b2 tot (take ?k ?x @ drop ?k c1) (take ?k ?y @ drop ?k c2)
        (pos + data_chunk tot pos) = Some (drop ?k ?x = drop ?k ?y)"
      using less.hyps [OF _ next_pos, of "take ?k ?x @ drop ?k c1" "take ?k ?y @ drop ?k c2"]
        k l less.prems(3,4) True
      by (simp add: word_less_nat_alt add.commute)
    have eq: "?x = ?y \<longleftrightarrow> take ?k ?x = take ?k ?y \<and> drop ?k ?x = drop ?k ?y"
      by (metis append_take_drop_id)
    show ?thesis by (simp only: step rec eq) simp
  qed
qed

lemma data_equal_correct:
  assumes syms: "k_binder_alloc_copy_from_buffer syms = Some copy"
    and objs: "procs st p = Some pr" "bufs st b1 = Some buf1" "bufs st b2 = Some buf2"
    and r: "readable (bufs st) (bp_alloc pr) b1" "readable (bufs st) (bp_alloc pr) b2"
    and len: "unat (bb_data_size buf1) \<le> length (content (bufs st) (bp_alloc pr) b1)"
      "unat (bb_data_size buf2) \<le> length (content (bufs st) (bp_alloc pr) b2)"
  shows "rkx_binder_buffer_data_equal syms st (Some p) (Some b1) (Some b2) =
    Some (take (unat (bb_data_size buf1)) (content (bufs st) (bp_alloc pr) b1) =
          take (unat (bb_data_size buf2)) (content (bufs st) (bp_alloc pr) b2))"
proof (cases "bb_data_size buf1 = bb_data_size buf2")
  case True
  then show ?thesis
    using data_equal_loop_correct [OF r, of "bb_data_size buf1" 0] len
    by (simp add: rkx_binder_buffer_data_equal_def syms objs)
next
  case False
  then have "unat (bb_data_size buf1) \<noteq> unat (bb_data_size buf2)" by (simp add: word_unat_eq_iff)
  then have "take (unat (bb_data_size buf1)) (content (bufs st) (bp_alloc pr) b1) \<noteq>
      take (unat (bb_data_size buf2)) (content (bufs st) (bp_alloc pr) b2)"
    using len by (metis length_take min_absorb2)
  with False show ?thesis by (simp add: rkx_binder_buffer_data_equal_def syms objs)
qed

lemma token_take: "sz \<le> n \<Longrightarrow> n \<le> length buf \<Longrightarrow> token sz (take n buf @ rest) = token sz buf"
  by (auto simp: token_def token_units_def nth_append rkx_const intro!: arg_cong [where f = "takeWhile _"])

text \<open>The parser: the name at the head of the buffer, in a zeroed array, and whether it is empty.\<close>

lemma parse_token_correct:
  assumes syms: "k_binder_alloc_copy_from_buffer syms = Some copy"
    and objs: "procs st p = Some pr" "bufs st b = Some buf" and r: "readable (bufs st) (bp_alloc pr) b"
    and len: "unat (bb_data_size buf) \<le> length (content (bufs st) (bp_alloc pr) b)"
  defines "t \<equiv> token (min RKX_INTERFACETOKEN_BUFF_SIZE (unat (bb_data_size buf)))
    (content (bufs st) (bp_alloc pr) b)"
  shows "rkx_parse_interface_token syms st (Some p) (Some b)
      (Some (replicate RKX_INTERFACETOKEN_BUFF_SIZE 0)) RKX_INTERFACETOKEN_BUFF_SIZE =
    Some (t \<noteq> [], Some (t @ replicate (RKX_INTERFACETOKEN_BUFF_SIZE - length t) 0))"
proof -
  define cs where "cs = token_copy_size (bb_data_size buf)"
  define c where "c = content (bufs st) (bp_alloc pr) b"
  have cs: "unat cs = min 140 (unat (bb_data_size buf))"
    by (auto simp: cs_def token_copy_size_def rkx_const word_less_nat_alt min_def)
  have z: "store8 (replicate 140 (0 :: u8)) 0 0 = Some (replicate 140 0)"
    by (simp add: store8_def list_update_same_conv)
  have t: "t = token (unat cs) c" by (simp add: t_def cs c_def rkx_const)
  have lt: "length t \<le> 62" using length_token_140 [of "unat cs" c] by (simp add: t cs rkx_const)
  show ?thesis
  proof (cases "bb_data_size buf \<le> 16")
    case True
    then have "t = []" using cs
      by (simp add: t token_def token_units_def rkx_const word_le_nat_alt)
    with True show ?thesis
      by (simp add: rkx_parse_interface_token_def syms objs rkx_const z)
  next
    case False
    have copied: "copy (bufs st) (bp_alloc pr) (replicate 140 0) b 0 cs =
        Some (0, take (unat cs) c @ replicate (140 - unat cs) 0)"
      using copy_ok [OF r, of 0 cs "replicate 140 0"] len cs by (simp add: c_def)
    have "token_loop 139 (unat cs) (take (unat cs) c @ replicate (140 - unat cs) 0) 0 17 16
        (replicate 140 0) = Some (length t, t @ replicate (140 - length t) 0)"
      using token_loop_start [of "unat cs" "take (unat cs) c @ replicate (140 - unat cs) 0" 139
          "replicate 140 0"] token_take [of "unat cs" "unat cs" c] len cs lt
      by (simp add: rkx_const Let_def t c_def)
    moreover have "store8 (t @ replicate (140 - length t) 0) (length t) 0 =
        Some (t @ replicate (140 - length t) 0)"
      using lt by (simp add: store8_def list_update_append list_update_same_conv)
    ultimately show ?thesis
      using False copied
      by (simp add: rkx_parse_interface_token_def syms objs rkx_const z Let_def
          flip: cs_def)
  qed
qed

text \<open>The strategy of the probe: that of the rule for the parsed name, exact code first, by code if there is none.\<close>

lemma strategy_correct:
  assumes syms: "k_binder_alloc_copy_from_buffer syms = Some copy"
    and objs: "procs st p = Some pr" "bufs st b = Some buf" and r: "readable (bufs st) (bp_alloc pr) b"
    and len: "unat (bb_data_size buf) \<le> length (content (bufs st) (bp_alloc pr) b)"
    and inv: "fa_inv (ke_hash env) (ke_rules env)"
    and few: "entry_count (rkx_free_async_map (ke_rules env)) < 2 ^ 31"
  shows "kp_strategy env syms st p (Some b) code =
    Some (case rule_for (rules (ke_rules env))
        (token (min RKX_INTERFACETOKEN_BUFF_SIZE (unat (bb_data_size buf)))
           (content (bufs st) (bp_alloc pr) b)) code of
      Some s \<Rightarrow> s | None \<Rightarrow> RKX_FREE_ASYNC_BY_CODE)"
proof -
  define t where "t = token (min RKX_INTERFACETOKEN_BUFF_SIZE (unat (bb_data_size buf)))
    (content (bufs st) (bp_alloc pr) b)"
  have parse: "rkx_parse_interface_token syms st (Some p) (Some b)
      (Some (replicate RKX_INTERFACETOKEN_BUFF_SIZE 0)) RKX_INTERFACETOKEN_BUFF_SIZE =
    Some (t \<noteq> [], Some (t @ replicate (RKX_INTERFACETOKEN_BUFF_SIZE - length t) 0))"
    using parse_token_correct [OF syms objs r len] by (simp add: t_def)
  have lt: "length t \<le> 62" unfolding t_def by (rule length_token_140) simp
  have "cstr (t @ replicate (RKX_INTERFACETOKEN_BUFF_SIZE - length t) 0) = t"
  proof -
    obtain q where "RKX_INTERFACETOKEN_BUFF_SIZE - length t = Suc q"
      using lt by (cases "RKX_INTERFACETOKEN_BUFF_SIZE - length t") (auto simp: rkx_const)
    then show ?thesis by (simp add: cstr_append_nul token_nonzero t_def)
  qed
  note look = lookup_correct [OF inv few, of "t @ replicate (RKX_INTERFACETOKEN_BUFF_SIZE - length t) 0"
      code RKX_FREE_ASYNC_BY_CODE, unfolded this]
  have nil: "rule_for (rules (ke_rules env)) [] code = None"
    by (simp add: rule_for_def no_empty_rule [OF inv])
  show ?thesis
  proof (cases "rkx_free_async_has_entries (ke_rules env)")
    case True
    then show ?thesis
      using look nil by (auto simp: kp_strategy_def parse simp flip: t_def split: option.splits)
  next
    case False
    then have "rule_for (rules (ke_rules env)) t code = None"
      using look by (auto simp: rkx_free_async_lookup_rcu_def split: option.splits)
    with False show ?thesis by (simp add: kp_strategy_def flip: t_def)
  qed
qed

end

end
