(* ===== verification/Rkx_Kp_Safety.thy ===== *)
theory Rkx_Kp_Safety
  imports Rkx_Binder_Kp
begin

text \<open>
  Memory safety of the free-async probe and its work items under every interleaving with the binder
  driver. \<open>kp_step\<close> is the transition system: the probe, the work queue, and what the driver does in
  between (it queues, delivers and creates transactions, and processes die). \<open>kp_inv\<close> is the
  invariant: no lock is held, a queued transaction is linked to its live buffer, a retired one is linked
  to nothing, waits in the work queue once, and its process is pinned by a reference. It implies that
  neither the probe nor a work item can fault, free twice or deadlock on its own locks.
\<close>

section \<open>What the probe does, without the locks\<close>

lemma held_fields:
  "procs (st\<lparr>held := h\<rparr>) = procs st" "nodes (st\<lparr>held := h\<rparr>) = nodes st"
  "txns (st\<lparr>held := h\<rparr>) = txns st" "bufs (st\<lparr>held := h\<rparr>) = bufs st"
  by simp_all

lemma data_equal_held [simp]:
  "rkx_binder_buffer_data_equal syms (st\<lparr>held := h\<rparr>) = rkx_binder_buffer_data_equal syms st"
  unfolding fun_eq_iff rkx_binder_buffer_data_equal_def held_fields by simp

lemma can_update_held [simp]:
  "rk_binder_can_update_transaction syms (st\<lparr>held := h\<rparr>) = rk_binder_can_update_transaction syms st"
  unfolding fun_eq_iff rk_binder_can_update_transaction_def held_fields data_equal_held by simp

lemma find_outdated_held [simp]:
  "rk_binder_find_outdated_transaction_ilocked syms (st\<lparr>held := h\<rparr>) t ws strategy =
     rk_binder_find_outdated_transaction_ilocked syms st t ws strategy"
proof (induction ws)
  case (Cons w ws)
  show ?case
  proof (cases w)
    case (BINDER_WORK_TRANSACTION u)
    then show ?thesis
      using Cons.IH by (cases "rk_binder_can_update_transaction syms st u t strategy") simp_all
  qed (use Cons.IH in simp)
qed simp

lemma kp_detach_held:
  "kp_detach p n t (st\<lparr>held := h\<rparr>) = map_option (\<lambda>s. s\<lparr>held := h\<rparr>) (kp_detach p n t st)"
  by (cases "procs st p"; cases "nodes st n") (simp_all add: kp_detach_def)

lemmas kp_locks = rk_binder_node_lock_def rk_binder_node_unlock_def rk_binder_inner_proc_lock_def
  rk_binder_inner_proc_unlock_def spin_lock_def spin_unlock_def

lemma kp_detach_keeps: "kp_detach p n t st = Some st' \<Longrightarrow> held st' = held st"
  by (auto simp: kp_detach_def split: bind_splits)

lemma held_self: "held st = h \<Longrightarrow> st\<lparr>held := h\<rparr> = st"
  by (cases st) simp

lemma kp_supersede_eq:
  assumes "held st = []" "nodes st n = Some nd" "procs st p = Some pr"
  shows "kp_supersede kz syms strategy t p n st =
    (if \<not> bn_has_async_transaction nd \<or> bp_is_dead pr \<or> bp_is_frozen pr then Some st
     else do {
       found \<leftarrow> rk_binder_find_outdated_transaction_ilocked syms st t (bn_async_todo nd) strategy;
       case (if kz then found else None) of
         None \<Rightarrow> Some st
       | Some t' \<Rightarrow> do { st \<leftarrow> kp_detach p n t' st; kp_retire p t' st }
     })"
proof (cases "\<not> bn_has_async_transaction nd \<or> bp_is_dead pr \<or> bp_is_frozen pr")
  case True
  then show ?thesis using assms by (auto simp: kp_supersede_def kp_locks held_self)
next
  case False
  show ?thesis
  proof (cases "rk_binder_find_outdated_transaction_ilocked syms st t (bn_async_todo nd) strategy")
    case None
    then show ?thesis using assms False by (simp add: kp_supersede_def kp_locks)
  next
    case (Some found)
    show ?thesis
    proof (cases "if kz then found else None")
      case None
      then show ?thesis using assms False Some by (simp add: kp_supersede_def kp_locks held_self)
    next
      case (Some t')
      from assms obtain s1 where s1: "kp_detach p n t' st = Some s1"
        by (simp add: kp_detach_def)
      then have "held s1 = []" using assms(1) kp_detach_keeps by simp
      with Some s1 assms False
        \<open>rk_binder_find_outdated_transaction_ilocked syms st t (bn_async_todo nd) strategy = Some found\<close>
      show ?thesis by (simp add: kp_supersede_def kp_locks kp_detach_held held_self)
    qed
  qed
qed

text \<open>On every path the probe leaves the locks as it found them.\<close>

lemma kp_retire_keeps: "kp_retire p t st = Some st' \<Longrightarrow> held st' = held st"
  by (auto simp: kp_retire_def rkx_queue_free_txn_def split: bind_splits)

lemma kp_supersede_held:
  assumes "kp_supersede kz syms strategy t p n st = Some st'" "held st = []"
  shows "held st' = []"
proof -
  from assms obtain nd where nd: "nodes st n = Some nd"
    by (auto simp: kp_supersede_def kp_locks split: bind_splits)
  show ?thesis
  proof (cases "procs st p")
    case None
    with assms nd show ?thesis
      by (auto simp: kp_supersede_def kp_locks split: bind_splits if_splits)
  next
    case (Some pr)
    show ?thesis
      using assms unfolding kp_supersede_eq [OF assms(2) nd Some]
      by (auto dest!: kp_retire_keeps kp_detach_keeps split: bind_splits if_splits option.splits)
  qed
qed

lemma probe_held:
  "rkx_binder_proc_transaction_pre env syms t p st = Some st' \<Longrightarrow> held st = [] \<Longrightarrow> held st' = []"
  by (auto simp: rkx_binder_proc_transaction_pre_def dest: kp_supersede_held
      split: bind_splits if_splits)

section \<open>The search returns the first transaction that may be superseded\<close>

lemma find_outdated_first:
  assumes "rk_binder_find_outdated_transaction_ilocked syms st t ws strategy = Some (Some t')"
  shows "\<exists>before after. ws = before @ BINDER_WORK_TRANSACTION t' # after \<and>
    rk_binder_can_update_transaction syms st t' t strategy = Some True \<and>
    (\<forall>u. BINDER_WORK_TRANSACTION u \<in> set before \<longrightarrow>
       rk_binder_can_update_transaction syms st u t strategy = Some False)"
  using assms
proof (induction ws)
  case (Cons w ws)
  show ?case
  proof (cases "w = BINDER_WORK_TRANSACTION t' \<and>
      rk_binder_can_update_transaction syms st t' t strategy = Some True")
    case True
    then show ?thesis by (intro exI [of _ "[]"] exI [of _ ws]) simp
  next
    case False
    then have rec: "rk_binder_find_outdated_transaction_ilocked syms st t ws strategy = Some (Some t')"
      and w: "\<And>u. w = BINDER_WORK_TRANSACTION u \<Longrightarrow>
        rk_binder_can_update_transaction syms st u t strategy = Some False"
      using Cons.prems by (cases w; auto split: bind_splits if_splits)+
    from Cons.IH [OF rec] obtain before after where
      "ws = before @ BINDER_WORK_TRANSACTION t' # after"
      "rk_binder_can_update_transaction syms st t' t strategy = Some True"
      "\<forall>u. BINDER_WORK_TRANSACTION u \<in> set before \<longrightarrow>
         rk_binder_can_update_transaction syms st u t strategy = Some False"
      by blast
    with w show ?thesis by (intro exI [of _ "w # before"] exI [of _ after]) auto
  qed
qed simp

lemma find_outdated_none:
  "rk_binder_find_outdated_transaction_ilocked syms st t ws strategy = Some None \<longleftrightarrow>
     (\<forall>u. BINDER_WORK_TRANSACTION u \<in> set ws \<longrightarrow>
        rk_binder_can_update_transaction syms st u t strategy = Some False)"
  by (induction syms st t ws strategy rule: rk_binder_find_outdated_transaction_ilocked.induct)
     (auto split: bind_splits if_splits)

section \<open>The invariant\<close>

text \<open>
  \<open>own n\<close> is the process a node belongs to, \<open>rd\<close> the buffers an allocator can read. \<open>txn_ok\<close>: a
  transaction to node \<open>n\<close> and its buffer point at each other, and the process exists.
\<close>

type_synonym readability = "buf_heap \<Rightarrow> buffer_alloc \<Rightarrow> buf_ref \<Rightarrow> bool"

definition txn_ok :: "(node_ref \<Rightarrow> proc_ref) \<Rightarrow> readability \<Rightarrow> kp_state \<Rightarrow> txn_ref \<Rightarrow> node_ref \<Rightarrow> bool" where
  "txn_ok own rd st t n \<longleftrightarrow> (\<exists>x b bb pr. txns st t = Some x \<and> bt_to_proc x = Some (own n) \<and>
     bt_buffer x = Some b \<and> bufs st b = Some bb \<and> bb_transaction bb = Some t \<and>
     bb_target_node bb = Some n \<and> procs st (own n) = Some pr \<and> rd (bufs st) (bp_alloc pr) b)"

definition proc_alive :: "kp_state \<Rightarrow> proc_ref \<Rightarrow> bool" where
  "proc_alive st p \<longleftrightarrow> (\<exists>pr. procs st p = Some pr \<and> \<not> bp_is_dead pr)"

definition todo_ok :: "(node_ref \<Rightarrow> proc_ref) \<Rightarrow> readability \<Rightarrow> kp_state \<Rightarrow> bool" where
  "todo_ok own rd st \<longleftrightarrow> (\<forall>n nd. nodes st n = Some nd \<longrightarrow> distinct (bn_async_todo nd) \<and>
     (\<forall>t. BINDER_WORK_TRANSACTION t \<in> set (bn_async_todo nd) \<longrightarrow>
        txn_ok own rd st t n \<and> proc_alive st (own n)))"

definition pending :: "rkx_free_txn_work list \<Rightarrow> proc_ref \<Rightarrow> nat" where
  "pending ws p = length (filter (\<lambda>w. w_proc w = p) ws)"

definition work_ok :: "readability \<Rightarrow> kp_state \<Rightarrow> rkx_free_txn_work \<Rightarrow> bool" where
  "work_ok rd st w \<longleftrightarrow> (\<exists>x bb pr. txns st (w_t w) = Some x \<and> bt_buffer x = None \<and>
     bufs st (w_buffer w) = Some bb \<and> bb_transaction bb = None \<and>
     procs st (w_proc w) = Some pr \<and> rd (bufs st) (bp_alloc pr) (w_buffer w))"

definition wq_ok :: "readability \<Rightarrow> kp_state \<Rightarrow> bool" where
  "wq_ok rd st \<longleftrightarrow> distinct (map w_t (free_wq st)) \<and> distinct (map w_buffer (free_wq st)) \<and>
     (\<forall>w \<in> set (free_wq st). work_ok rd st w)"

definition refs_ok :: "kp_state \<Rightarrow> bool" where
  "refs_ok st \<longleftrightarrow> (\<forall>p pr. procs st p = Some pr \<longrightarrow> int (pending (free_wq st) p) \<le> bp_tmp_ref pr)"

definition kp_inv :: "(node_ref \<Rightarrow> proc_ref) \<Rightarrow> readability \<Rightarrow> kp_state \<Rightarrow> bool" where
  "kp_inv own rd st \<longleftrightarrow> held st = [] \<and> todo_ok own rd st \<and> wq_ok rd st \<and> refs_ok st"

lemma pending_append: "pending (ws @ [w]) p = pending ws p + (if w_proc w = p then 1 else 0)"
  by (simp add: pending_def)

lemma pending_Cons: "pending (w # ws) p = pending ws p + (if w_proc w = p then 1 else 0)"
  by (simp add: pending_def)

lemma pending_pos: "w \<in> set ws \<Longrightarrow> 0 < pending ws (w_proc w)"
  by (auto simp: pending_def filter_empty_conv length_greater_0_conv simp del: length_greater_0_conv)

section \<open>The binder functions the work item calls\<close>

text \<open>
  Releasing the objects of a buffer may drop nodes, and changes no queue. Freeing a buffer without a
  transaction changes its allocator and leaves the other readable buffers alone. Freeing a process does
  not touch the buffers of other processes. The process reference is dropped by one, and the process
  freed only when it is dead and that was the last reference.
\<close>

definition todo_shrink :: "(node_ref \<Rightarrow> binder_node option) \<Rightarrow> (node_ref \<Rightarrow> binder_node option) \<Rightarrow> bool" where
  "todo_shrink ns ns' \<longleftrightarrow> (\<forall>n nd'. ns' n = Some nd' \<longrightarrow>
     (\<exists>nd. ns n = Some nd \<and> bn_async_todo nd' = bn_async_todo nd))"

definition release_ok :: "(kp_state \<Rightarrow> proc_ref \<Rightarrow> buf_ref \<Rightarrow> u64 \<Rightarrow> bool \<Rightarrow> kp_state option) \<Rightarrow> bool" where
  "release_ok rel \<longleftrightarrow> (\<forall>st p b off f. bufs st b \<noteq> None \<longrightarrow>
     (\<exists>ns. rel st p b off f = Some (st\<lparr>nodes := ns\<rparr>) \<and> todo_shrink (nodes st) ns))"

definition free_buf_ok :: "readability \<Rightarrow> (kp_state \<Rightarrow> proc_ref \<Rightarrow> buf_ref \<Rightarrow> kp_state option) \<Rightarrow> bool" where
  "free_buf_ok rd fb \<longleftrightarrow> (\<forall>st p b bb pr. bufs st b = Some bb \<longrightarrow> bb_transaction bb = None \<longrightarrow>
     procs st p = Some pr \<longrightarrow> rd (bufs st) (bp_alloc pr) b \<longrightarrow>
     (\<exists>h al. fb st p b = Some (st\<lparr>bufs := h, procs := (procs st)(p \<mapsto> pr\<lparr>bp_alloc := al\<rparr>)\<rparr>) \<and>
        (\<forall>q qr c. procs st q = Some qr \<longrightarrow> c \<noteq> b \<longrightarrow> rd (bufs st) (bp_alloc qr) c \<longrightarrow>
           h c = bufs st c \<and> rd h (if q = p then al else bp_alloc qr) c)))"

definition proc_gone :: "readability \<Rightarrow> kp_state \<Rightarrow> proc_ref \<Rightarrow> kp_state \<Rightarrow> bool" where
  "proc_gone rd st p st' \<longleftrightarrow> (\<exists>h. st' = st\<lparr>procs := (procs st)(p := None), bufs := h\<rparr> \<and>
     (\<forall>q qr c. q \<noteq> p \<longrightarrow> procs st q = Some qr \<longrightarrow> rd (bufs st) (bp_alloc qr) c \<longrightarrow>
        h c = bufs st c \<and> rd h (bp_alloc qr) c))"

definition ref_dropped :: "readability \<Rightarrow> kp_state \<Rightarrow> proc_ref \<Rightarrow> binder_proc \<Rightarrow> kp_state \<Rightarrow> bool" where
  "ref_dropped rd st p pr st' \<longleftrightarrow> st' = set_proc p (pr\<lparr>bp_tmp_ref := bp_tmp_ref pr - 1\<rparr>) st \<or>
     (bp_is_dead pr \<and> bp_tmp_ref pr = 1 \<and> proc_gone rd st p st')"

definition put_ok :: "readability \<Rightarrow> kp_syms \<Rightarrow> bool" where
  "put_ok rd syms \<longleftrightarrow>
     (case k_binder_proc_dec_tmpref syms of
        Some dec \<Rightarrow> \<forall>st p pr. held st = [] \<longrightarrow> procs st p = Some pr \<longrightarrow>
          (\<exists>st'. dec st p = Some st' \<and> ref_dropped rd st p pr st')
      | None \<Rightarrow>
          (case k_binder_free_proc syms of
             None \<Rightarrow> False
           | Some fp \<Rightarrow> \<forall>st p pr. procs st p = Some pr \<longrightarrow> bp_is_dead pr \<longrightarrow> bp_tmp_ref pr = 0 \<longrightarrow>
               (\<exists>st'. fp st p = Some st' \<and> proc_gone rd st p st')))"

definition kp_ext_ok :: "readability \<Rightarrow> kp_syms \<Rightarrow> bool" where
  "kp_ext_ok rd syms \<longleftrightarrow>
     (\<exists>rel. k_binder_transaction_buffer_release syms = Some rel \<and> release_ok rel) \<and>
     (\<exists>fb. k_binder_alloc_free_buf syms = Some fb \<and> free_buf_ok rd fb) \<and>
     k_binder_stats syms = Some () \<and> put_ok rd syms"

text \<open>The module's own fallback for \<^verbatim>\<open>binder_proc_dec_tmpref\<close> keeps the same contract.\<close>

lemma dec_tmpref_dropped:
  assumes ok: "put_ok rd syms" and st: "held st = []" "procs st p = Some pr"
  shows "\<exists>st'. rk_binder_proc_dec_tmpref syms st p = Some st' \<and> ref_dropped rd st p pr st'"
proof (cases "k_binder_proc_dec_tmpref syms")
  case (Some dec)
  with assms show ?thesis by (simp add: put_ok_def rk_binder_proc_dec_tmpref_def)
next
  case None
  let ?pr = "pr\<lparr>bp_tmp_ref := bp_tmp_ref pr - 1\<rparr>"
  let ?st = "set_proc p ?pr st"
  from None ok obtain fp where fp: "k_binder_free_proc syms = Some fp"
    and free: "\<And>st p pr. procs st p = Some pr \<Longrightarrow> bp_is_dead pr \<Longrightarrow> bp_tmp_ref pr = 0 \<Longrightarrow>
      \<exists>st'. fp st p = Some st' \<and> proc_gone rd st p st'"
    by (auto simp: put_ok_def split: option.splits)
  have unlocked: "(set_proc p ?pr (st\<lparr>held := [Inner_lock p]\<rparr>))\<lparr>held := []\<rparr> = ?st"
    using st(1) by (cases st) (simp add: set_proc_def)
  have heldp: "held (set_proc p ?pr (st\<lparr>held := [Inner_lock p]\<rparr>)) = [Inner_lock p]"
    by (simp add: set_proc_def)
  show ?thesis
  proof (cases "bp_is_dead pr \<and> bp_threads_empty pr \<and> bp_tmp_ref pr = 1")
    case True
    then obtain st' where st': "fp ?st p = Some st'" "proc_gone rd ?st p st'"
      using free [of ?st p ?pr] by (auto simp: set_proc_def)
    then have "proc_gone rd st p st'" by (auto simp: proc_gone_def set_proc_def)
    moreover have "rk_binder_proc_dec_tmpref syms st p = Some st'"
      using None fp True st st'(1) unlocked heldp
      by (simp add: rk_binder_proc_dec_tmpref_def kp_locks Let_def)
    ultimately show ?thesis using True by (auto simp: ref_dropped_def)
  next
    case False
    then have "rk_binder_proc_dec_tmpref syms st p = Some ?st"
      using None st unlocked heldp by (auto simp: rk_binder_proc_dec_tmpref_def kp_locks Let_def)
    then show ?thesis by (auto simp: ref_dropped_def)
  qed
qed

section \<open>What a work item does\<close>

definition freed :: "readability \<Rightarrow> rkx_free_txn_work \<Rightarrow> kp_state \<Rightarrow> kp_state \<Rightarrow> bool" where
  "freed rd w st st' \<longleftrightarrow>
     held st' = held st \<and> free_wq st' = free_wq st \<and> txns st' = (txns st)(w_t w := None) \<and>
     todo_shrink (nodes st) (nodes st') \<and> obj_deleted st' = obj_deleted st + 1 \<and>
     (\<forall>q qr'. procs st' q = Some qr' \<longrightarrow> (\<exists>qr. procs st q = Some qr \<and>
        bp_is_dead qr' = bp_is_dead qr \<and>
        bp_tmp_ref qr' = bp_tmp_ref qr - (if q = w_proc w then 1 else 0))) \<and>
     (\<forall>q qr. procs st q = Some qr \<longrightarrow>
        q \<noteq> w_proc w \<or> \<not> (bp_is_dead qr \<and> bp_tmp_ref qr = 1) \<longrightarrow>
        (\<exists>qr'. procs st' q = Some qr' \<and> bp_is_dead qr' = bp_is_dead qr \<and>
           (\<forall>c. c \<noteq> w_buffer w \<longrightarrow> rd (bufs st) (bp_alloc qr) c \<longrightarrow>
              bufs st' c = bufs st c \<and> rd (bufs st') (bp_alloc qr') c)))"

lemma freedD:
  assumes "freed rd w st st'"
  shows "held st' = held st" "free_wq st' = free_wq st" "txns st' = (txns st)(w_t w := None)"
    and "todo_shrink (nodes st) (nodes st')"
    and "procs st' q = Some qr' \<Longrightarrow> \<exists>qr. procs st q = Some qr \<and> bp_is_dead qr' = bp_is_dead qr \<and>
      bp_tmp_ref qr' = bp_tmp_ref qr - (if q = w_proc w then 1 else 0)"
    and "procs st q = Some qr \<Longrightarrow> q \<noteq> w_proc w \<or> \<not> (bp_is_dead qr \<and> bp_tmp_ref qr = 1) \<Longrightarrow>
      \<exists>qr'. procs st' q = Some qr' \<and> bp_is_dead qr' = bp_is_dead qr \<and>
        (\<forall>c. c \<noteq> w_buffer w \<longrightarrow> rd (bufs st) (bp_alloc qr) c \<longrightarrow>
           bufs st' c = bufs st c \<and> rd (bufs st') (bp_alloc qr') c)"
  using assms unfolding freed_def by blast+

lemma work_effect:
  assumes ext: "kp_ext_ok rd syms" and held: "held st = []" and w: "work_ok rd st w"
  shows "\<exists>st'. rkx_free_txn_func syms w st = Some st' \<and> freed rd w st st'"
proof -
  let ?p = "w_proc w" and ?b = "w_buffer w"
  from w obtain x bb pr where x: "txns st (w_t w) = Some x" and bb: "bufs st ?b = Some bb" "bb_transaction bb = None"
    and pr: "procs st ?p = Some pr" and rdb: "rd (bufs st) (bp_alloc pr) ?b"
    by (auto simp: work_ok_def)
  from ext obtain rel fb where rel: "k_binder_transaction_buffer_release syms = Some rel" "release_ok rel"
    and fb: "k_binder_alloc_free_buf syms = Some fb" "free_buf_ok rd fb"
    and stats: "k_binder_stats syms = Some ()" and put: "put_ok rd syms"
    by (auto simp: kp_ext_ok_def)
  obtain ns where r: "rk_binder_release_entire_buffer syms st ?p ?b False = Some (st\<lparr>nodes := ns\<rparr>)"
    and ns: "todo_shrink (nodes st) ns"
    using rel bb(1) by (fastforce simp: release_ok_def rk_binder_release_entire_buffer_def Let_def)
  obtain h al where f: "fb (st\<lparr>nodes := ns\<rparr>) ?p ?b = Some (st\<lparr>nodes := ns, bufs := h,
        procs := (procs st)(?p \<mapsto> pr\<lparr>bp_alloc := al\<rparr>)\<rparr>)"
    and others: "\<And>q qr c. procs st q = Some qr \<Longrightarrow> c \<noteq> ?b \<Longrightarrow> rd (bufs st) (bp_alloc qr) c \<Longrightarrow>
      h c = bufs st c \<and> rd h (if q = ?p then al else bp_alloc qr) c"
    using fb(2) [unfolded free_buf_ok_def, rule_format, of "st\<lparr>nodes := ns\<rparr>" ?b bb ?p pr] bb pr rdb
    by auto
  define s4 where "s4 = st\<lparr>nodes := ns, bufs := h, procs := (procs st)(?p \<mapsto> pr\<lparr>bp_alloc := al\<rparr>),
      txns := (txns st)(w_t w := None), obj_deleted := obj_deleted st + 1\<rparr>"
  obtain st' where d: "rk_binder_proc_dec_tmpref syms s4 ?p = Some st'"
    and drop: "ref_dropped rd s4 ?p (pr\<lparr>bp_alloc := al\<rparr>) st'"
    using dec_tmpref_dropped [OF put, of s4 ?p "pr\<lparr>bp_alloc := al\<rparr>"] held by (auto simp: s4_def)
  have "rkx_free_txn_func syms w st = Some st'"
    using d by (simp add: rkx_free_txn_func_def r fb(1) f kfree_txn_def x rk_binder_stats_deleted_def
        stats s4_def)
  moreover have "freed rd w st st'"
    using drop unfolding ref_dropped_def
  proof
    assume st': "st' = set_proc ?p (pr\<lparr>bp_alloc := al, bp_tmp_ref := bp_tmp_ref (pr\<lparr>bp_alloc := al\<rparr>) - 1\<rparr>) s4"
    show ?thesis
      unfolding freed_def using others pr ns
      by (auto simp: st' s4_def set_proc_def) (metis (full_types))+
  next
    assume "bp_is_dead (pr\<lparr>bp_alloc := al\<rparr>) \<and> bp_tmp_ref (pr\<lparr>bp_alloc := al\<rparr>) = 1 \<and> proc_gone rd s4 ?p st'"
    then obtain h' where dead: "bp_is_dead pr" "bp_tmp_ref pr = 1"
      and st': "st' = s4\<lparr>procs := (procs s4)(?p := None), bufs := h'\<rparr>"
      and keep: "\<And>q qr c. q \<noteq> ?p \<Longrightarrow> procs s4 q = Some qr \<Longrightarrow> rd (bufs s4) (bp_alloc qr) c \<Longrightarrow>
        h' c = bufs s4 c \<and> rd h' (bp_alloc qr) c"
      by (auto simp: proc_gone_def)
    have "h' c = bufs st c \<and> rd h' (bp_alloc qr) c"
      if "q \<noteq> ?p" "procs st q = Some qr" "c \<noteq> ?b" "rd (bufs st) (bp_alloc qr) c" for q qr c
      using keep [of q qr c] others [of q qr c] that by (simp add: s4_def)
    with dead pr ns show ?thesis
      unfolding freed_def by (auto simp: st' s4_def)
  qed
  ultimately show ?thesis by blast
qed

lemma txn_ok_buffer_distinct:
  assumes "txn_ok own rd st t n" "work_ok rd st w"
  shows "t \<noteq> w_t w" "\<And>x. txns st t = Some x \<Longrightarrow> bt_buffer x \<noteq> Some (w_buffer w)"
  using assms by (auto simp: txn_ok_def work_ok_def)

lemma freed_txn_ok:
  assumes fr: "freed rd w st st'" and w: "work_ok rd st w"
    and t: "txn_ok own rd st t n" and alive: "proc_alive st (own n)"
  shows "txn_ok own rd st' t n \<and> proc_alive st' (own n)"
proof -
  from t obtain x b bb pr where t1: "txns st t = Some x" "bt_to_proc x = Some (own n)"
      "bt_buffer x = Some b" "bufs st b = Some bb" "bb_transaction bb = Some t"
      "bb_target_node bb = Some n" "procs st (own n) = Some pr" "rd (bufs st) (bp_alloc pr) b"
    by (auto simp: txn_ok_def)
  have ne: "t \<noteq> w_t w" "b \<noteq> w_buffer w"
    using txn_ok_buffer_distinct [OF t w] t1 by auto
  have live: "\<not> bp_is_dead pr" using alive t1 by (auto simp: proc_alive_def)
  from freedD(6) [OF fr t1(7)] live obtain pr' where
    "procs st' (own n) = Some pr'" "bp_is_dead pr' = bp_is_dead pr"
    "bufs st' b = bufs st b" "rd (bufs st') (bp_alloc pr') b"
    using ne(2) t1(8) by auto
  with t1 ne live freedD(3) [OF fr] show ?thesis by (auto simp: txn_ok_def proc_alive_def)
qed

lemma freed_work_ok:
  assumes fr: "freed rd w st st'" and w': "work_ok rd st w'" and ne: "w_t w' \<noteq> w_t w" "w_buffer w' \<noteq> w_buffer w"
    and pinned: "\<And>pr. w_proc w' = w_proc w \<Longrightarrow> procs st (w_proc w) = Some pr \<Longrightarrow> 1 < bp_tmp_ref pr"
  shows "work_ok rd st' w'"
proof -
  from w' obtain x bb qr where w1: "txns st (w_t w') = Some x" "bt_buffer x = None"
      "bufs st (w_buffer w') = Some bb" "bb_transaction bb = None"
      "procs st (w_proc w') = Some qr" "rd (bufs st) (bp_alloc qr) (w_buffer w')"
    by (auto simp: work_ok_def)
  have "w_proc w' \<noteq> w_proc w \<or> \<not> (bp_is_dead qr \<and> bp_tmp_ref qr = 1)"
    using pinned [of qr] w1(5) by (cases "w_proc w' = w_proc w") auto
  from freedD(6) [OF fr w1(5) this] w1 ne freedD(3) [OF fr] show ?thesis
    by (auto simp: work_ok_def)
qed

lemma work_step:
  assumes ext: "kp_ext_ok rd syms" and inv: "kp_inv own rd st" and wq: "free_wq st = w # ws"
  shows "\<exists>st'. rkx_free_txn_func syms w (st\<lparr>free_wq := ws\<rparr>) = Some st' \<and> free_wq st' = ws \<and>
    kp_inv own rd st'"
proof -
  let ?s = "st\<lparr>free_wq := ws\<rparr>"
  have inv': "held st = []" "todo_ok own rd st" "wq_ok rd st" "refs_ok st"
    using inv by (simp_all add: kp_inv_def)
  have eq: "work_ok rd ?s v = work_ok rd st v" for v by (simp add: work_ok_def)
  have ok: "work_ok rd ?s v" if "v \<in> set (w # ws)" for v
    using inv'(3) that wq unfolding eq by (auto simp: wq_ok_def)
  have t_ok: "txn_ok own rd ?s t n \<and> proc_alive ?s (own n)"
    if "nodes st n = Some nd" "BINDER_WORK_TRANSACTION t \<in> set (bn_async_todo nd)" for t n nd
    using inv'(2) that by (auto simp: todo_ok_def txn_ok_def proc_alive_def)
  obtain st' where st': "rkx_free_txn_func syms w ?s = Some st'" and fr: "freed rd w ?s st'"
    using work_effect [OF ext, of ?s w] inv'(1) ok [of w] by auto
  have "todo_ok own rd st'"
    unfolding todo_ok_def
  proof (intro allI impI)
    fix n nd' assume "nodes st' n = Some nd'"
    then obtain nd where nd: "nodes st n = Some nd" "bn_async_todo nd' = bn_async_todo nd"
      using freedD(4) [OF fr] by (auto simp: todo_shrink_def)
    have "txn_ok own rd st' t n \<and> proc_alive st' (own n)"
      if "BINDER_WORK_TRANSACTION t \<in> set (bn_async_todo nd')" for t
      using t_ok [OF nd(1), of t] that freed_txn_ok [OF fr ok [of w], of own t n] by (simp add: nd(2))
    moreover have "distinct (bn_async_todo nd')"
      using inv'(2) nd by (simp add: todo_ok_def)
    ultimately show "distinct (bn_async_todo nd') \<and>
        (\<forall>t. BINDER_WORK_TRANSACTION t \<in> set (bn_async_todo nd') \<longrightarrow>
           txn_ok own rd st' t n \<and> proc_alive st' (own n))"
      by blast
  qed
  moreover have "refs_ok st'"
    unfolding refs_ok_def
  proof (intro allI impI)
    fix q qr' assume "procs st' q = Some qr'"
    from freedD(5) [OF fr this] obtain qr where qr: "procs st q = Some qr"
      "bp_tmp_ref qr' = bp_tmp_ref qr - (if q = w_proc w then 1 else 0)" by auto
    from inv'(4) [unfolded refs_ok_def, rule_format, OF qr(1)] wq freedD(2) [OF fr] qr(2)
    show "int (pending (free_wq st') q) \<le> bp_tmp_ref qr'"
      by (auto simp: pending_Cons split: if_splits)
  qed
  moreover have "wq_ok rd st'"
  proof -
    have "work_ok rd st' v" if v: "v \<in> set ws" for v
    proof -
      have "w_t v \<noteq> w_t w" "w_buffer v \<noteq> w_buffer w"
        using inv'(3) imageI [OF v, of w_t] imageI [OF v, of w_buffer] wq by (auto simp: wq_ok_def)
      moreover have "1 < bp_tmp_ref pr" if "w_proc v = w_proc w" "procs st (w_proc w) = Some pr" for pr
        using inv'(4) [unfolded refs_ok_def, rule_format, OF that(2)] pending_pos [OF v] that(1) wq
        by (simp add: pending_Cons)
      ultimately show ?thesis
        using freed_work_ok [OF fr ok [of v]] v by auto
    qed
    then show ?thesis using inv'(3) wq freedD(2) [OF fr] by (simp add: wq_ok_def)
  qed
  ultimately show ?thesis
    using st' freedD(1,2) [OF fr] inv'(1) by (auto simp: kp_inv_def)
qed

section \<open>What the probe does to the queues\<close>

context txn_source
begin

lemma data_equal_total:
  assumes "k_binder_alloc_copy_from_buffer syms = Some copy"
    and "procs st p = Some pr" "bufs st b1 = Some buf1" "bufs st b2 = Some buf2"
    and r: "readable (bufs st) (bp_alloc pr) b1" "readable (bufs st) (bp_alloc pr) b2"
  shows "\<exists>eq. rkx_binder_buffer_data_equal syms st (Some p) (Some b1) (Some b2) = Some eq"
proof -
  have "length c1 = 64 \<Longrightarrow> length c2 = 64 \<Longrightarrow>
      \<exists>eq. data_equal_loop copy (bufs st) (bp_alloc pr) b1 b2 tot c1 c2 pos = Some eq" for tot c1 c2 pos
  proof (induction "unat tot - unat pos" arbitrary: pos c1 c2 rule: less_induct)
    case less
    show ?case
    proof (cases "pos < tot")
      case False
      then have "data_equal_loop copy (bufs st) (bp_alloc pr) b1 b2 tot c1 c2 pos = Some True"
        by (simp add: data_equal_loop.simps)
      then show ?thesis by blast
    next
      case True
      note k = data_chunk_bounds [OF True]
      obtain rc1 d1 where d1: "copy (bufs st) (bp_alloc pr) c1 b1 pos (data_chunk tot pos) = Some (rc1, d1)"
        "length d1 = 64"
        using copy_total [OF r(1), of "data_chunk tot pos" c1 pos] k(2) less.prems by auto
      obtain rc2 d2 where d2: "copy (bufs st) (bp_alloc pr) c2 b2 pos (data_chunk tot pos) = Some (rc2, d2)"
        "length d2 = 64"
        using copy_total [OF r(2), of "data_chunk tot pos" c2 pos] k(2) less.prems by auto
      have "unat tot - unat (pos + data_chunk tot pos) < unat tot - unat pos"
        unfolding k(4) using k(1,3) by linarith
      from less.hyps [OF this d1(2) d2(2)] obtain eq where
        "data_equal_loop copy (bufs st) (bp_alloc pr) b1 b2 tot d1 d2
          (pos + data_chunk tot pos) = Some eq" by blast
      then show ?thesis
        using True k(2) d1 d2 by (subst data_equal_loop.simps) (simp add: load_def ex_bool_eq)
    qed
  qed
  from this [of "replicate 64 0" "replicate 64 0" "bb_data_size buf1" 0] show ?thesis
    using assms by (auto simp: rkx_binder_buffer_data_equal_def)
qed

lemma parse_token_total:
  assumes syms: "k_binder_alloc_copy_from_buffer syms = Some copy"
    and objs: "procs st p = Some pr" "bufs st b = Some buf" and r: "readable (bufs st) (bp_alloc pr) b"
  shows "\<exists>parsed name. rkx_parse_interface_token syms st (Some p) (Some b)
      (Some (replicate RKX_INTERFACETOKEN_BUFF_SIZE 0)) RKX_INTERFACETOKEN_BUFF_SIZE =
    Some (parsed, Some name)"
proof -
  define cs where "cs = token_copy_size (bb_data_size buf)"
  have cs: "unat cs \<le> 140"
    by (auto simp: cs_def token_copy_size_def rkx_const word_less_nat_alt)
  have z: "store8 (replicate 140 (0 :: u8)) 0 0 = Some (replicate 140 0)"
    by (simp add: store8_def list_update_same_conv)
  obtain rc hdr where hdr: "copy (bufs st) (bp_alloc pr) (replicate 140 0) b 0 cs = Some (rc, hdr)"
    "length hdr = 140"
    using copy_total [OF r, of cs "replicate 140 0" 0] cs by auto
  define t where "t = take 139 (token (unat cs) hdr)"
  have t: "token_loop 139 (unat cs) hdr 0 17 16 (replicate 140 0) =
      Some (length t, t @ drop (length t) (replicate 140 0))" "length t \<le> 139"
    using token_loop_start [of "unat cs" hdr 139 "replicate 140 0"] cs hdr(2)
    by (auto simp: rkx_const Let_def t_def)
  then have "\<exists>name. store8 (t @ drop (length t) (replicate 140 0)) (length t) 0 = Some name"
    by (simp add: store8_def)
  with hdr t z show ?thesis
    by (cases "rc = 0"; cases "bb_data_size buf \<le> 16")
       (auto simp: rkx_parse_interface_token_def syms objs rkx_const Let_def simp flip: cs_def)
qed

lemma strategy_total:
  assumes "k_binder_alloc_copy_from_buffer syms = Some copy"
    and "procs st p = Some pr" "bufs st b = Some buf" "readable (bufs st) (bp_alloc pr) b"
  shows "\<exists>s. kp_strategy env syms st p (Some b) code = Some s"
proof -
  obtain parsed name where "rkx_parse_interface_token syms st (Some p) (Some b)
      (Some (replicate RKX_INTERFACETOKEN_BUFF_SIZE 0)) RKX_INTERFACETOKEN_BUFF_SIZE =
    Some (parsed, Some name)"
    using parse_token_total [OF assms] by blast
  then show ?thesis
    by (auto simp: kp_strategy_def rkx_free_async_lookup_rcu_def Let_def split: prod.splits)
qed

lemma can_update_total:
  assumes "k_binder_alloc_copy_from_buffer syms = Some copy"
    and u: "txn_ok own readable st u n" and t: "txn_ok own readable st t n" and n: "nodes st n = Some nd"
  shows "rk_binder_can_update_transaction syms st u t strategy \<noteq> None"
proof -
  from u obtain x b bb pr where u1: "txns st u = Some x" "bt_to_proc x = Some (own n)"
      "bt_buffer x = Some b" "bufs st b = Some bb" "bb_target_node bb = Some n"
      "procs st (own n) = Some pr" "readable (bufs st) (bp_alloc pr) b"
    by (auto simp: txn_ok_def)
  from t u1(6) obtain y c cc where t1: "txns st t = Some y" "bt_to_proc y = Some (own n)"
      "bt_buffer y = Some c" "bufs st c = Some cc" "bb_target_node cc = Some n"
      "readable (bufs st) (bp_alloc pr) c"
    by (auto simp: txn_ok_def)
  obtain eq where "rkx_binder_buffer_data_equal syms st (Some (own n)) (Some b) (Some c) = Some eq"
    using data_equal_total [OF assms(1) u1(6) u1(4) t1(4) u1(7) t1(6)] by blast
  then show ?thesis
    using u1 t1 n by (simp add: rk_binder_can_update_transaction_def ex_bool_eq)
qed

lemma find_outdated_total:
  assumes "k_binder_alloc_copy_from_buffer syms = Some copy" "txn_ok own readable st t n"
    "nodes st n = Some nd"
    and "\<And>u. BINDER_WORK_TRANSACTION u \<in> set ws \<Longrightarrow> txn_ok own readable st u n"
  shows "\<exists>r. rk_binder_find_outdated_transaction_ilocked syms st t ws strategy = Some r"
  using assms(4)
proof (induction ws)
  case (Cons w ws)
  then obtain r where r: "rk_binder_find_outdated_transaction_ilocked syms st t ws strategy = Some r"
    by auto
  show ?case
  proof (cases w)
    case (BINDER_WORK_TRANSACTION u)
    then obtain c where "rk_binder_can_update_transaction syms st u t strategy = Some c"
      using can_update_total [OF assms(1) _ assms(2,3), of u] Cons.prems by auto
    with r BINDER_WORK_TRANSACTION show ?thesis by auto
  qed (use r in simp)
qed simp

end

text \<open>The state after the probe has retired the queued transaction \<open>t\<close> of node \<open>n\<close>.\<close>

definition retired :: "proc_ref \<Rightarrow> node_ref \<Rightarrow> txn_ref \<Rightarrow> kp_state \<Rightarrow> kp_state \<Rightarrow> bool" where
  "retired p n t st st' \<longleftrightarrow> (\<exists>pr nd x b bb.
     procs st p = Some pr \<and> nodes st n = Some nd \<and> txns st t = Some x \<and> bt_buffer x = Some b \<and>
     bufs st b = Some bb \<and>
     st' = st\<lparr>
       procs := (procs st)(p \<mapsto> pr\<lparr>bp_tmp_ref := bp_tmp_ref pr + 1,
         bp_outstanding_txns := bp_outstanding_txns pr - 1\<rparr>),
       nodes := (nodes st)(n \<mapsto> nd\<lparr>bn_async_todo :=
         remove1 (BINDER_WORK_TRANSACTION t) (bn_async_todo nd)\<rparr>),
       txns := (txns st)(t \<mapsto> x\<lparr>bt_buffer := None\<rparr>),
       bufs := (bufs st)(b \<mapsto> bb\<lparr>bb_transaction := None\<rparr>),
       free_wq := free_wq st @ [\<lparr>w_proc = p, w_buffer = b, w_t = t\<rparr>]\<rparr>)"

lemma detach_retire:
  assumes "procs st p = Some pr" "nodes st n = Some nd" "txns st t = Some x" "bt_buffer x = Some b"
    "bufs st b = Some bb"
  shows "\<exists>st'. Option.bind (kp_detach p n t st) (kp_retire p t) = Some st' \<and> retired p n t st st'"
  using assms by (simp add: kp_detach_def kp_retire_def rkx_queue_free_txn_def retired_def)

context txn_source
begin

lemma retired_inv:
  assumes inv: "kp_inv own readable st" and n: "nodes st n = Some nd"
    and t: "BINDER_WORK_TRANSACTION t \<in> set (bn_async_todo nd)" and ret: "retired (own n) n t st st'"
  shows "kp_inv own readable st'"
proof -
  let ?p = "own n"
  have inv': "held st = []" "todo_ok own readable st" "wq_ok readable st" "refs_ok st"
    using inv by (simp_all add: kp_inv_def)
  from ret n obtain pr x b bb where o: "procs st ?p = Some pr" "txns st t = Some x"
      "bt_buffer x = Some b" "bufs st b = Some bb"
    and st': "st' = st\<lparr>
       procs := (procs st)(?p \<mapsto> pr\<lparr>bp_tmp_ref := bp_tmp_ref pr + 1,
         bp_outstanding_txns := bp_outstanding_txns pr - 1\<rparr>),
       nodes := (nodes st)(n \<mapsto> nd\<lparr>bn_async_todo :=
         remove1 (BINDER_WORK_TRANSACTION t) (bn_async_todo nd)\<rparr>),
       txns := (txns st)(t \<mapsto> x\<lparr>bt_buffer := None\<rparr>),
       bufs := (bufs st)(b \<mapsto> bb\<lparr>bb_transaction := None\<rparr>),
       free_wq := free_wq st @ [\<lparr>w_proc = ?p, w_buffer = b, w_t = t\<rparr>]\<rparr>"
    by (auto simp: retired_def)
  have tq: "txn_ok own readable st t n" "proc_alive st ?p"
    using inv'(2) n t by (auto simp: todo_ok_def)
  then have link: "bb_transaction bb = Some t" "bb_target_node bb = Some n" "readable (bufs st) (bp_alloc pr) b"
    using o by (auto simp: txn_ok_def)
  have rd': "readable (bufs st') al c" if "readable (bufs st) al c" for al c
    using readable_unlink [OF that o(4)] by (simp add: st')
  have keep: "txn_ok own readable st' u m \<and> proc_alive st' (own m)"
    if "txn_ok own readable st u m" "proc_alive st (own m)" "u \<noteq> t" for u m
  proof -
    from that(1) obtain y c cc qr where u: "txns st u = Some y" "bt_to_proc y = Some (own m)"
        "bt_buffer y = Some c" "bufs st c = Some cc" "bb_transaction cc = Some u"
        "bb_target_node cc = Some m" "procs st (own m) = Some qr" "readable (bufs st) (bp_alloc qr) c"
      by (auto simp: txn_ok_def)
    have "c \<noteq> b" using u(4,5) o(4) link(1) that(3) by auto
    with u that(2,3) rd' [OF u(8)] o(1) show ?thesis
      by (cases "own m = ?p") (auto simp: txn_ok_def proc_alive_def st')
  qed
  have "todo_ok own readable st'"
    unfolding todo_ok_def
  proof (intro allI impI)
    fix m md' assume md': "nodes st' m = Some md'"
    then obtain md where md: "nodes st m = Some md" "bn_async_todo md' =
        (if m = n then remove1 (BINDER_WORK_TRANSACTION t) (bn_async_todo md) else bn_async_todo md)"
      using n by (auto simp: st' split: if_splits)
    have d: "distinct (bn_async_todo md)" using inv'(2) md(1) by (auto simp: todo_ok_def)
    have "txn_ok own readable st' u m \<and> proc_alive st' (own m)"
      if u: "BINDER_WORK_TRANSACTION u \<in> set (bn_async_todo md')" for u
    proof -
      have u': "BINDER_WORK_TRANSACTION u \<in> set (bn_async_todo md)"
        using u md(2) by (auto split: if_splits dest: notin_set_remove1 [THEN contrapos_nn])
           (metis notin_set_remove1)
      then have ok: "txn_ok own readable st u m" "proc_alive st (own m)"
        using inv'(2) md(1) by (auto simp: todo_ok_def)
      have "u \<noteq> t"
        using u md(2) d ok(1) o link(2) by (cases "m = n") (auto simp: txn_ok_def)
      with ok show ?thesis by (rule keep)
    qed
    moreover have "distinct (bn_async_todo md')" using d md(2) by auto
    ultimately show "distinct (bn_async_todo md') \<and>
        (\<forall>u. BINDER_WORK_TRANSACTION u \<in> set (bn_async_todo md') \<longrightarrow>
           txn_ok own readable st' u m \<and> proc_alive st' (own m))" by blast
  qed
  moreover have "wq_ok readable st'"
  proof -
    have ne: "w_t w \<noteq> t \<and> w_buffer w \<noteq> b" if "w \<in> set (free_wq st)" for w
      using txn_ok_buffer_distinct [OF tq(1), of w] inv'(3) that o by (auto simp: wq_ok_def)
    have "work_ok readable st' w" if w: "w \<in> set (free_wq st)" for w
    proof -
      have "work_ok readable st w" using inv'(3) w by (simp add: wq_ok_def)
      with ne [OF w] rd' o(1) show ?thesis
        by (cases "w_proc w = ?p") (auto simp: work_ok_def st')
    qed
    moreover have "work_ok readable st' \<lparr>w_proc = ?p, w_buffer = b, w_t = t\<rparr>"
      using rd' [OF link(3)] by (simp add: work_ok_def st')
    moreover have "free_wq st' = free_wq st @ [\<lparr>w_proc = ?p, w_buffer = b, w_t = t\<rparr>]" by (simp add: st')
    ultimately show ?thesis using inv'(3) ne by (auto simp: wq_ok_def)
  qed
  moreover have "refs_ok st'"
    using inv'(4) o(1) by (auto simp: refs_ok_def st' pending_append)
  ultimately show ?thesis using inv'(1) by (simp add: kp_inv_def) (simp add: st')
qed

text \<open>
  The probe, called by the driver with a transaction under way to node \<open>n\<close> and with its process:
  it returns, keeps the invariant, and either changes nothing or retires one queued transaction that
  the new one supersedes.
\<close>

lemma probe_step:
  assumes syms: "k_binder_alloc_copy_from_buffer syms = Some copy"
    and inv: "kp_inv own readable st" and t: "txn_ok own readable st t n" and n: "nodes st n = Some nd"
  shows "\<exists>st'. rkx_binder_proc_transaction_pre env syms t (own n) st = Some st' \<and>
    kp_inv own readable st' \<and>
    (st' = st \<or> (\<exists>t' strategy. BINDER_WORK_TRANSACTION t' \<in> set (bn_async_todo nd) \<and>
       rk_binder_can_update_transaction syms st t' t strategy = Some True \<and>
       retired (own n) n t' st st'))"
proof -
  from t obtain x b bb pr where t1: "txns st t = Some x" "bt_buffer x = Some b" "bufs st b = Some bb"
      "bb_target_node bb = Some n" "procs st (own n) = Some pr" "readable (bufs st) (bp_alloc pr) b"
    by (auto simp: txn_ok_def)
  have h: "held st = []" using inv by (simp add: kp_inv_def)
  have q: "txn_ok own readable st u n" if "BINDER_WORK_TRANSACTION u \<in> set (bn_async_todo nd)" for u
    using inv n that by (auto simp: kp_inv_def todo_ok_def)
  obtain strategy where s: "kp_strategy env syms st (own n) (Some b) (bt_code x) = Some strategy"
    using strategy_total [OF syms t1(5,3,6)] by blast
  obtain found where f:
    "rk_binder_find_outdated_transaction_ilocked syms st t (bn_async_todo nd) strategy = Some found"
    using find_outdated_total [OF syms t n q] by blast
  let ?pre = "rkx_binder_proc_transaction_pre env syms t (own n) st"
  have pre: "?pre = Some st \<or> ?pre = kp_supersede (ke_kzalloc env) syms strategy t (own n) n st"
    using t1 s by (auto simp: rkx_binder_proc_transaction_pre_def)
  show ?thesis
  proof (cases "(if ke_kzalloc env then found else None)")
    case None
    then have "kp_supersede (ke_kzalloc env) syms strategy t (own n) n st = Some st"
      using f by (simp add: kp_supersede_eq [OF h n t1(5)])
    with pre inv show ?thesis by auto
  next
    case (Some t')
    then have t': "found = Some t'" "ke_kzalloc env" by (auto split: if_splits)
    from find_outdated_first [OF f [unfolded t'(1)]] have
      mem: "BINDER_WORK_TRANSACTION t' \<in> set (bn_async_todo nd)" and
      upd: "rk_binder_can_update_transaction syms st t' t strategy = Some True" by auto
    from q [OF mem] obtain x' b' bb' where "txns st t' = Some x'" "bt_buffer x' = Some b'" "bufs st b' = Some bb'"
      by (auto simp: txn_ok_def)
    from detach_retire [OF t1(5) n this] obtain st' where
      st': "Option.bind (kp_detach (own n) n t' st) (kp_retire (own n) t') = Some st'"
      and ret: "retired (own n) n t' st st'" by blast
    have "kp_supersede (ke_kzalloc env) syms strategy t (own n) n st \<in> {Some st, Some st'}"
      using f t' st' by (simp add: kp_supersede_eq [OF h n t1(5)])
    with pre have "?pre = Some st \<or> ?pre = Some st'" by auto
    with inv retired_inv [OF inv n mem ret] mem upd ret show ?thesis by blast
  qed
qed

end

section \<open>Interleaving with the driver\<close>

inductive kp_step :: "(node_ref \<Rightarrow> proc_ref) \<Rightarrow> readability \<Rightarrow> kp_syms \<Rightarrow> kp_state \<Rightarrow> kp_state \<Rightarrow> bool"
  for own rd syms where
  probe: "txn_ok own rd st t n \<Longrightarrow> nodes st n \<noteq> None \<Longrightarrow>
    rkx_binder_proc_transaction_pre env syms t (own n) st = Some st' \<Longrightarrow> kp_step own rd syms st st'"
| work: "free_wq st = w # ws \<Longrightarrow> rkx_free_txn_func syms w (st\<lparr>free_wq := ws\<rparr>) = Some st' \<Longrightarrow>
    kp_step own rd syms st st'"
| enqueue: "txn_ok own rd st t n \<Longrightarrow> proc_alive st (own n) \<Longrightarrow> nodes st n = Some nd \<Longrightarrow>
    BINDER_WORK_TRANSACTION t \<notin> set (bn_async_todo nd) \<Longrightarrow>
    kp_step own rd syms st (st\<lparr>nodes := (nodes st)(n \<mapsto> nd\<lparr>bn_has_async_transaction := True,
      bn_async_todo := bn_async_todo nd @ [BINDER_WORK_TRANSACTION t]\<rparr>)\<rparr>)"
| deliver: "nodes st n = Some nd \<Longrightarrow> bn_async_todo nd = w # ws \<Longrightarrow>
    kp_step own rd syms st (st\<lparr>nodes := (nodes st)(n \<mapsto> nd\<lparr>bn_async_todo := ws\<rparr>)\<rparr>)"
| create: "txns st t = None \<Longrightarrow> bufs st b = None \<Longrightarrow> procs st p = Some pr \<Longrightarrow>
    (\<forall>q qr c. procs st q = Some qr \<longrightarrow> rd (bufs st) (bp_alloc qr) c \<longrightarrow>
       rd ((bufs st)(b \<mapsto> bb)) (if q = p then al else bp_alloc qr) c) \<Longrightarrow>
    kp_step own rd syms st (st\<lparr>txns := (txns st)(t \<mapsto> x), bufs := (bufs st)(b \<mapsto> bb),
      procs := (procs st)(p \<mapsto> pr\<lparr>bp_alloc := al\<rparr>)\<rparr>)"
| exit: "procs st p = Some pr \<Longrightarrow>
    (\<forall>n nd t. nodes st n = Some nd \<longrightarrow> BINDER_WORK_TRANSACTION t \<in> set (bn_async_todo nd) \<longrightarrow> own n \<noteq> p) \<Longrightarrow>
    kp_step own rd syms st (set_proc p (pr\<lparr>bp_is_dead := True, bp_threads_empty := e\<rparr>) st)"

lemma txn_ok_nodes [simp]: "txn_ok own rd (st\<lparr>nodes := ns\<rparr>) t n = txn_ok own rd st t n"
  by (simp add: txn_ok_def)

lemma work_ok_nodes [simp]: "work_ok rd (st\<lparr>nodes := ns\<rparr>) w = work_ok rd st w"
  by (simp add: work_ok_def)

lemma proc_alive_nodes [simp]: "proc_alive (st\<lparr>nodes := ns\<rparr>) p = proc_alive st p"
  by (simp add: proc_alive_def)

lemma enqueue_inv:
  assumes "kp_inv own rd st" "txn_ok own rd st t n" "proc_alive st (own n)" "nodes st n = Some nd"
    "BINDER_WORK_TRANSACTION t \<notin> set (bn_async_todo nd)"
  shows "kp_inv own rd (st\<lparr>nodes := (nodes st)(n \<mapsto> nd\<lparr>bn_has_async_transaction := True,
      bn_async_todo := bn_async_todo nd @ [BINDER_WORK_TRANSACTION t]\<rparr>)\<rparr>)"
  using assms by (auto simp: kp_inv_def todo_ok_def wq_ok_def refs_ok_def)

lemma deliver_inv:
  assumes "kp_inv own rd st" "nodes st n = Some nd" "bn_async_todo nd = w # ws"
  shows "kp_inv own rd (st\<lparr>nodes := (nodes st)(n \<mapsto> nd\<lparr>bn_async_todo := ws\<rparr>)\<rparr>)"
proof -
  have todo: "todo_ok own rd st" using assms(1) by (simp add: kp_inv_def)
  have "distinct (w # ws)" "\<And>t. BINDER_WORK_TRANSACTION t \<in> set (w # ws) \<Longrightarrow>
      txn_ok own rd st t n \<and> proc_alive st (own n)"
    using todo [unfolded todo_ok_def, rule_format, OF assms(2)] unfolding assms(3) by blast+
  with assms(1) show ?thesis
    by (auto simp: kp_inv_def todo_ok_def wq_ok_def refs_ok_def)
qed

lemma create_inv:
  assumes inv: "kp_inv own rd st" and fresh: "txns st t = None" "bufs st b = None" and p: "procs st p = Some pr"
    and keep: "\<And>q qr c. procs st q = Some qr \<Longrightarrow> rd (bufs st) (bp_alloc qr) c \<Longrightarrow>
       rd ((bufs st)(b \<mapsto> bb)) (if q = p then al else bp_alloc qr) c"
  shows "kp_inv own rd (st\<lparr>txns := (txns st)(t \<mapsto> x), bufs := (bufs st)(b \<mapsto> bb),
      procs := (procs st)(p \<mapsto> pr\<lparr>bp_alloc := al\<rparr>)\<rparr>)" (is "kp_inv own rd ?s")
proof -
  have t: "txn_ok own rd ?s u m" if "txn_ok own rd st u m" for u m
    using that fresh p keep [of "own m"] by (fastforce simp: txn_ok_def split: if_splits)
  have w: "work_ok rd ?s v" if "work_ok rd st v" for v
    using that fresh p keep [of "w_proc v"] by (fastforce simp: work_ok_def split: if_splits)
  have a: "proc_alive ?s q" if "proc_alive st q" for q
    using that p by (auto simp: proc_alive_def)
  have "todo_ok own rd ?s"
    using inv t a by (auto simp: kp_inv_def todo_ok_def)
  moreover have "wq_ok rd ?s" using inv w by (auto simp: kp_inv_def wq_ok_def)
  moreover have "refs_ok ?s" using inv p by (auto simp: kp_inv_def refs_ok_def)
  ultimately show ?thesis using inv by (simp add: kp_inv_def)
qed

lemma exit_inv:
  assumes inv: "kp_inv own rd st" and p: "procs st p = Some pr"
    and idle: "\<And>n nd t. nodes st n = Some nd \<Longrightarrow> BINDER_WORK_TRANSACTION t \<in> set (bn_async_todo nd) \<Longrightarrow> own n \<noteq> p"
  shows "kp_inv own rd (set_proc p (pr\<lparr>bp_is_dead := True, bp_threads_empty := e\<rparr>) st)"
    (is "kp_inv own rd ?s")
proof -
  have t: "txn_ok own rd ?s u m" if "txn_ok own rd st u m" for u m
    using that p by (cases "own m = p") (auto simp: txn_ok_def set_proc_def)
  have w: "work_ok rd ?s v" if "work_ok rd st v" for v
    using that p by (cases "w_proc v = p") (auto simp: work_ok_def set_proc_def)
  have "todo_ok own rd ?s"
    unfolding todo_ok_def
  proof (intro allI impI)
    fix n nd assume "nodes ?s n = Some nd"
    then have nd: "nodes st n = Some nd" by (simp add: set_proc_def)
    with inv have "distinct (bn_async_todo nd)" by (simp add: kp_inv_def todo_ok_def)
    moreover have "txn_ok own rd ?s u n \<and> proc_alive ?s (own n)"
      if "BINDER_WORK_TRANSACTION u \<in> set (bn_async_todo nd)" for u
    proof -
      have "txn_ok own rd st u n" "proc_alive st (own n)"
        using inv nd that by (auto simp: kp_inv_def todo_ok_def)
      with t idle [OF nd that] show ?thesis by (simp add: proc_alive_def set_proc_def)
    qed
    ultimately show "distinct (bn_async_todo nd) \<and> (\<forall>u. BINDER_WORK_TRANSACTION u \<in> set (bn_async_todo nd) \<longrightarrow>
        txn_ok own rd ?s u n \<and> proc_alive ?s (own n))" by blast
  qed
  moreover have "wq_ok rd ?s" using inv w by (auto simp: kp_inv_def wq_ok_def) (simp_all add: set_proc_def)
  moreover have "refs_ok ?s" using inv p by (auto simp: kp_inv_def refs_ok_def set_proc_def)
  ultimately show ?thesis using inv by (simp add: kp_inv_def set_proc_def)
qed

context txn_source
begin

lemma kp_step_inv:
  assumes "k_binder_alloc_copy_from_buffer syms = Some copy" "kp_ext_ok readable syms"
    and "kp_step own readable syms st st'" "kp_inv own readable st"
  shows "kp_inv own readable st'"
  using assms(3)
proof (cases rule: kp_step.cases)
  case (probe t n env)
  then obtain nd where "nodes st n = Some nd" by blast
  from probe_step [OF assms(1,4) probe(1) this, of env] probe(3) show ?thesis by auto
next
  case (work w ws)
  then have "free_wq st = w # ws" by simp
  from work_step [OF assms(2,4) this] work show ?thesis by auto
next
  case (enqueue t n nd)
  then show ?thesis using enqueue_inv [OF assms(4)] by simp
next
  case (deliver n nd w ws)
  then show ?thesis using deliver_inv [OF assms(4)] by simp
next
  case (create t b p pr bb al x)
  then show ?thesis using create_inv [OF assms(4), of t b p pr bb al x] by blast
next
  case (exit p pr e)
  then show ?thesis using exit_inv [OF assms(4), of p pr e] by blast
qed

lemma kp_steps_inv:
  assumes "k_binder_alloc_copy_from_buffer syms = Some copy" "kp_ext_ok readable syms"
    and "(kp_step own readable syms)\<^sup>*\<^sup>* st st'" "kp_inv own readable st"
  shows "kp_inv own readable st'"
  using assms(3,4) by (induction rule: rtranclp_induct) (auto intro: kp_step_inv [OF assms(1,2)])

end

lemma find_skip:
  assumes "P x" "\<And>y. y \<in> set xs \<Longrightarrow> \<not> P y"
  shows "find P (xs @ x # ys) = Some x"
  using assms(2) by (induction xs) (auto simp: assms(1))

section \<open>Flushing the work queue\<close>

text \<open>The queue drains: every item runs, in order, and none is left.\<close>

lemma run_works_inv:
  assumes ext: "kp_ext_ok rd syms"
  shows "kp_inv own rd st \<Longrightarrow> free_wq st = ws \<Longrightarrow>
    \<exists>st'. run_works syms ws st = Some st' \<and> kp_inv own rd st' \<and> free_wq st' = []"
proof (induction ws arbitrary: st)
  case (Cons w ws)
  from work_step [OF ext Cons.prems] obtain st1 where
    "rkx_free_txn_func syms w (st\<lparr>free_wq := ws\<rparr>) = Some st1" "free_wq st1 = ws" "kp_inv own rd st1"
    by blast
  with Cons.IH [of st1] show ?case by simp
qed simp

section \<open>Properties\<close>

text \<open>
  An example: one process with a node, the transaction 0 in its queue and the transaction 1 under way,
  each with a buffer of four bytes; and binder functions that do what the driver documents.
\<close>

definition sample_buf :: "u64 \<Rightarrow> txn_ref \<Rightarrow> binder_buffer" where
  "sample_buf addr t = \<lparr>bb_user_data = addr, bb_data_size = 4, bb_offsets_size = 0, bb_pid = 1,
     bb_target_node = Some 0, bb_free = False, bb_allow_user_free = False, bb_transaction = Some t\<rparr>"

definition sample_proc :: binder_proc where
  "sample_proc = \<lparr>bp_tsk = 1, bp_is_dead = False, bp_is_frozen = False, bp_threads_empty = False,
     bp_tmp_ref = 0, bp_outstanding_txns = 1, bp_alloc = \<lparr>al_buffer = 4096, al_buffer_size = 8,
       al_buffers = [0, 1], al_pages = [Some [1, 2, 3, 4], Some [1, 2, 3, 4]]\<rparr>\<rparr>"

definition sample_txn :: "buf_ref \<Rightarrow> binder_transaction" where
  "sample_txn b = \<lparr>bt_flags = 1, bt_code = 7, bt_to_proc = Some 0, bt_buffer = Some b\<rparr>"

definition sample_kp :: kp_state where
  "sample_kp = \<lparr>procs = [0 \<mapsto> sample_proc],
     nodes = [0 \<mapsto> \<lparr>bn_ptr = 1, bn_cookie = 2, bn_has_async_transaction = True,
       bn_async_todo = [BINDER_WORK_OTHER 5, BINDER_WORK_TRANSACTION 0]\<rparr>],
     txns = [0 \<mapsto> sample_txn 0, 1 \<mapsto> sample_txn 1],
     bufs = [0 \<mapsto> sample_buf 4096 0, 1 \<mapsto> sample_buf 4100 1],
     held = [], free_wq = [], obj_deleted = 0\<rparr>"

definition sample_free_buf :: "kp_state \<Rightarrow> proc_ref \<Rightarrow> buf_ref \<Rightarrow> kp_state option" where
  "sample_free_buf st p b = (case (bufs st b, procs st p) of
     (Some bb, Some pr) \<Rightarrow> Some (st\<lparr>bufs := (bufs st)(b \<mapsto> bb\<lparr>bb_free := True\<rparr>)\<rparr>) | _ \<Rightarrow> None)"

definition sample_syms :: kp_syms where
  "sample_syms = \<lparr>k_binder_transaction_buffer_release =
       Some (\<lambda>st p b off f. if bufs st b = None then None else Some st),
     k_binder_alloc_free_buf = Some sample_free_buf,
     k_binder_alloc_copy_from_buffer = Some (rk_binder_alloc_copy_from_buffer 2),
     k_binder_stats = Some (), k_binder_proc_dec_tmpref = None,
     k_binder_free_proc = Some (\<lambda>st p. Some (st\<lparr>procs := (procs st)(p := None)\<rparr>))\<rparr>"

definition sample_kp_env :: kp_env where
  "sample_kp_env = \<lparr>ke_kernel = sample_kernel, ke_hash = sample_hash, ke_rules = rkx_init_free_async,
     ke_kzalloc = True\<rparr>"

text \<open>The same process with one transaction whose buffer holds a parcel for the interface \<open>IA\<close>.\<close>

definition sample_parcel_kp :: kp_state where
  "sample_parcel_kp = sample_kp\<lparr>
     procs := [0 \<mapsto> sample_proc\<lparr>bp_alloc := \<lparr>al_buffer = 4096, al_buffer_size = 24, al_buffers = [0],
       al_pages = [Some (sample_parcel @ replicate 8 0)]\<rparr>\<rparr>],
     bufs := [0 \<mapsto> (sample_buf 4096 0)\<lparr>bb_data_size := 24\<rparr>]\<rparr>"

definition sample_skip_env :: kp_env where
  "sample_skip_env = sample_kp_env\<lparr>ke_rules := snd (rkx_add_free_async sample_hash (Some sample_entry)
     (Some [73, 65, 0]) (- 1) RKX_FREE_ASYNC_SKIP rkx_init_free_async)\<rparr>"

lemma sample_readable_free:
  assumes "h b = Some bb" "c \<noteq> b" "buffer_readable sh h al c"
  shows "buffer_readable sh (h(b \<mapsto> bb\<lparr>bb_free := True\<rparr>)) al c"
proof -
  have "rk_binder_alloc_buffer_size (h(b \<mapsto> bb\<lparr>bb_free := True\<rparr>)) al c =
      rk_binder_alloc_buffer_size h al c"
    using assms(1,2)
    by (cases "h c"; cases "rk_binder_buffer_next (al_buffers al) c")
       (auto simp: rk_binder_alloc_buffer_size_def split: option.splits)
  with assms(2,3) show ?thesis by (simp add: buffer_readable_def)
qed

lemma sample_ext_ok: "kp_ext_ok (buffer_readable 2) sample_syms"
proof -
  have "release_ok (\<lambda>st p b off f. if bufs st b = None then None else Some st)"
    unfolding release_ok_def
  proof (intro allI impI)
    fix st :: kp_state and p b :: nat and off :: u64 and f :: bool
    assume "bufs st b \<noteq> None"
    then show "\<exists>ns. (if bufs st b = None then None else Some st) = Some (st\<lparr>nodes := ns\<rparr>) \<and>
        todo_shrink (nodes st) ns"
      by (intro exI [of _ "nodes st"]) (simp add: todo_shrink_def)
  qed
  moreover have "free_buf_ok (buffer_readable 2) sample_free_buf"
    unfolding free_buf_ok_def
  proof (intro allI impI)
    fix st :: kp_state and p b bb pr
    assume o: "bufs st b = Some bb" "bb_transaction bb = None" "procs st p = Some pr"
    have "st\<lparr>bufs := h\<rparr> = st\<lparr>bufs := h, procs := (procs st)(p \<mapsto> pr\<lparr>bp_alloc := bp_alloc pr\<rparr>)\<rparr>" for h
      using o(3) by (cases st) (simp add: fun_upd_idem)
    then show "\<exists>h al. sample_free_buf st p b =
        Some (st\<lparr>bufs := h, procs := (procs st)(p \<mapsto> pr\<lparr>bp_alloc := al\<rparr>)\<rparr>) \<and>
        (\<forall>q qr c. procs st q = Some qr \<longrightarrow> c \<noteq> b \<longrightarrow> buffer_readable 2 (bufs st) (bp_alloc qr) c \<longrightarrow>
           h c = bufs st c \<and> buffer_readable 2 h (if q = p then al else bp_alloc qr) c)"
      using o sample_readable_free [where h = "bufs st" and b = b, OF o(1)]
      by (intro exI [of _ "(bufs st)(b \<mapsto> bb\<lparr>bb_free := True\<rparr>)"] exI [of _ "bp_alloc pr"])
        (auto simp: sample_free_buf_def)
  qed
  moreover have "proc_gone (buffer_readable 2) st p (st\<lparr>procs := (procs st)(p := None)\<rparr>)" for st p
    unfolding proc_gone_def by (intro exI [of _ "bufs st"]) simp
  ultimately show ?thesis
    by (simp add: kp_ext_ok_def sample_syms_def put_ok_def)
qed

lemma sample_kp_readable: "buffer_readable 2 (bufs sample_kp) (bp_alloc sample_proc) 0"
  "buffer_readable 2 (bufs sample_kp) (bp_alloc sample_proc) 1"
proof -
  have u: "[0..<4] = [0, 1, 2, 3 :: nat]" "[4..<8] = [4, 5, 6, 7 :: nat]" by (simp_all add: upt_rec)
  have sz: "rk_binder_alloc_buffer_size (bufs sample_kp) (bp_alloc sample_proc) 0 = Some 4"
    "rk_binder_alloc_buffer_size (bufs sample_kp) (bp_alloc sample_proc) 1 = Some 4"
    by (simp_all add: rk_binder_alloc_buffer_size_def sample_kp_def sample_proc_def sample_buf_def)
  show "buffer_readable 2 (bufs sample_kp) (bp_alloc sample_proc) 0"
    "buffer_readable 2 (bufs sample_kp) (bp_alloc sample_proc) 1"
    unfolding buffer_readable_def sz
    by (simp_all add: sample_kp_def sample_proc_def sample_buf_def buffer_start_def u page_mapped_def)
qed

lemma sample_txn_ok: "txn_ok (\<lambda>_. 0) (buffer_readable 2) sample_kp 0 0"
  "txn_ok (\<lambda>_. 0) (buffer_readable 2) sample_kp 1 0"
  using sample_kp_readable
  by (simp_all add: txn_ok_def) (simp_all add: sample_kp_def sample_txn_def sample_buf_def)

lemma sample_kp_inv: "kp_inv (\<lambda>_. 0) (buffer_readable 2) sample_kp"
proof -
  have "todo_ok (\<lambda>_. 0) (buffer_readable 2) sample_kp"
    using sample_txn_ok(1)
    by (auto simp: todo_ok_def proc_alive_def) (auto simp: sample_kp_def sample_proc_def split: if_splits)
  then show ?thesis
    by (simp add: kp_inv_def wq_ok_def refs_ok_def) (simp add: sample_kp_def sample_proc_def pending_def)
qed



text \<open>
  C2: what the probe does. For a one-way transaction to a frozen process whose binder side is neither
  dead nor frozen, with memory for the work item, it retires exactly the first transaction of the node's
  queue that the new one supersedes under the chosen strategy (taken from the queue, unlinked from its
  buffer, both handed to the work queue, the process pinned), and changes nothing when there is none.
\<close>

theorem probe_retires_first:
  assumes "k_binder_alloc_copy_from_buffer syms = Some (rk_binder_alloc_copy_from_buffer sh)"
    and inv: "kp_inv own (buffer_readable sh) st" and t: "txn_ok own (buffer_readable sh) st t n"
    and n: "nodes st n = Some nd" "bn_has_async_transaction nd"
    and p: "procs st (own n) = Some pr" "\<not> bp_is_dead pr" "\<not> bp_is_frozen pr"
    and x: "txns st t = Some x" "bit (bt_flags x) 0"
    and env: "rkx_is_frozen (ke_kernel env) (bp_tsk pr)" "ke_kzalloc env"
      "kp_strategy env syms st (own n) (bt_buffer x) (bt_code x) = Some s" "s \<noteq> RKX_FREE_ASYNC_SKIP"
  shows "\<exists>st'. rkx_binder_proc_transaction_pre env syms t (own n) st = Some st' \<and>
    (case find (\<lambda>w. \<exists>u. w = BINDER_WORK_TRANSACTION u \<and>
         rk_binder_can_update_transaction syms st u t s = Some True) (bn_async_todo nd) of
       Some (BINDER_WORK_TRANSACTION u) \<Rightarrow> retired (own n) n u st st'
     | _ \<Rightarrow> st' = st)"
proof -
  have h: "held st = []" using inv by (simp add: kp_inv_def)
  have q: "txn_ok own (buffer_readable sh) st u n" if "BINDER_WORK_TRANSACTION u \<in> set (bn_async_todo nd)" for u
    using inv n that by (auto simp: kp_inv_def todo_ok_def)
  have flag: "bt_flags x AND TF_ONE_WAY \<noteq> 0"
    using x(2) one_way_iff [of "\<lparr>tr_flags = bt_flags x, tr_code = 0, tr_data_size = 0, tr_buffer = 0\<rparr>"]
    by simp
  from t x obtain b bb where b: "bt_buffer x = Some b" "bufs st b = Some bb" "bb_target_node bb = Some n"
    by (auto simp: txn_ok_def)
  have pre: "rkx_binder_proc_transaction_pre env syms t (own n) st = kp_supersede True syms s t (own n) n st"
    using x flag b p env by (simp add: rkx_binder_proc_transaction_pre_def)
  let ?find = "rk_binder_find_outdated_transaction_ilocked syms st t (bn_async_todo nd) s"
  let ?hit = "\<lambda>w. \<exists>u. w = BINDER_WORK_TRANSACTION u \<and>
    rk_binder_can_update_transaction syms st u t s = Some True"
  obtain found where f: "?find = Some found"
    using legacy.find_outdated_total [OF assms(1) t n(1) q] by blast
  show ?thesis
  proof (cases found)
    case None
    with f have "\<not> ?hit w" if "w \<in> set (bn_async_todo nd)" for w
      using that by (auto simp: find_outdated_none)
    then have "find ?hit (bn_async_todo nd) = None" by (simp add: find_None_iff)
    with f None p n(2) show ?thesis by (simp add: pre kp_supersede_eq [OF h n(1) p(1)])
  next
    case (Some u)
    from find_outdated_first [OF f [unfolded Some]] obtain before after where
      todo: "bn_async_todo nd = before @ BINDER_WORK_TRANSACTION u # after"
      and hit: "rk_binder_can_update_transaction syms st u t s = Some True"
      and miss: "\<And>v. BINDER_WORK_TRANSACTION v \<in> set before \<Longrightarrow>
        rk_binder_can_update_transaction syms st v t s = Some False" by blast
    have "find ?hit (bn_async_todo nd) = Some (BINDER_WORK_TRANSACTION u)"
      unfolding todo by (rule find_skip) (use hit miss in force)+
    moreover from q [of u] todo obtain y c cc where "txns st u = Some y" "bt_buffer y = Some c" "bufs st c = Some cc"
      by (auto simp: txn_ok_def)
    from detach_retire [OF p(1) n(1) this] obtain st' where
      "Option.bind (kp_detach (own n) n u st) (kp_retire (own n) u) = Some st'" "retired (own n) n u st st'"
      by blast
    ultimately show ?thesis
      using f Some p n(2) by (simp add: pre kp_supersede_eq [OF h n(1) p(1)])
  qed
qed

lemma sample_strategy: "kp_strategy sample_kp_env sample_syms st p b code = Some RKX_FREE_ASYNC_BY_CODE"
  by (simp add: kp_strategy_def sample_kp_env_def rkx_free_async_has_entries_def rkx_init_free_async_def)

lemma sample_can_update:
  "rk_binder_can_update_transaction sample_syms sample_kp 0 1 RKX_FREE_ASYNC_BY_CODE = Some True"
  by (simp add: rk_binder_can_update_transaction_def sample_kp_def sample_txn_def sample_buf_def
      TF_ONE_WAY_def)

theorem probe_retires_first_witness:
  "\<exists>st. rkx_binder_proc_transaction_pre sample_kp_env sample_syms 1 0 sample_kp = Some st \<and>
     map_option bn_async_todo (nodes st 0) = Some [BINDER_WORK_OTHER 5] \<and>
     free_wq st = [\<lparr>w_proc = 0, w_buffer = 0, w_t = 0\<rparr>]"
proof -
  define nd where "nd = \<lparr>bn_ptr = 1, bn_cookie = 2, bn_has_async_transaction = True,
       bn_async_todo = [BINDER_WORK_OTHER 5, BINDER_WORK_TRANSACTION 0]\<rparr>"
  have o: "k_binder_alloc_copy_from_buffer sample_syms = Some (rk_binder_alloc_copy_from_buffer 2)"
    "nodes sample_kp 0 = Some nd" "procs sample_kp 0 = Some sample_proc"
    "txns sample_kp 1 = Some (sample_txn 1)" "rkx_is_frozen (ke_kernel sample_kp_env) (bp_tsk sample_proc)"
    by (simp_all add: sample_syms_def sample_kp_def nd_def sample_kp_env_def sample_kernel_def rkx_is_frozen_def)
  have "find (\<lambda>w. \<exists>u. w = BINDER_WORK_TRANSACTION u \<and>
      rk_binder_can_update_transaction sample_syms sample_kp u 1 RKX_FREE_ASYNC_BY_CODE = Some True)
      (bn_async_todo nd) = Some (BINDER_WORK_TRANSACTION 0)"
    using sample_can_update by (simp add: nd_def)
  then obtain st where "rkx_binder_proc_transaction_pre sample_kp_env sample_syms 1 0 sample_kp = Some st"
    "retired 0 0 0 sample_kp st"
    using probe_retires_first [where own = "\<lambda>_. 0", OF o(1) sample_kp_inv sample_txn_ok(2) o(2) _ o(3) _ _ o(4) _ o(5)
        _ sample_strategy]
    by (auto simp: nd_def sample_proc_def sample_txn_def sample_kp_env_def rkx_const)
  then show ?thesis
    by (auto simp: retired_def) (auto simp: sample_kp_def sample_txn_def)
qed

text \<open>
  C14: what supersedes what. Two transactions queued for the same node are exchangeable exactly when both
  are one-way, agree in code, flags and sender, carry no objects, and the strategy is by code, or is by
  data and the two payloads are byte for byte equal.
\<close>

theorem can_update_iff:
  assumes "k_binder_alloc_copy_from_buffer syms = Some (rk_binder_alloc_copy_from_buffer sh)"
    and t1: "txn_ok own (buffer_readable sh) st t1 n" "txns st t1 = Some x1" "bt_buffer x1 = Some b1" "bufs st b1 = Some buf1"
    and t2: "txn_ok own (buffer_readable sh) st t2 n" "txns st t2 = Some x2" "bt_buffer x2 = Some b2" "bufs st b2 = Some buf2"
    and n: "nodes st n = Some nd" and p: "procs st (own n) = Some pr"
    and len: "unat (bb_data_size buf1) \<le> length (buffer_content sh (bufs st) (bp_alloc pr) b1)"
      "unat (bb_data_size buf2) \<le> length (buffer_content sh (bufs st) (bp_alloc pr) b2)"
  shows "rk_binder_can_update_transaction syms st t1 t2 strategy = Some
    (bit (bt_flags x1) 0 \<and> bt_code x1 = bt_code x2 \<and> bt_flags x1 = bt_flags x2 \<and> bb_pid buf1 = bb_pid buf2 \<and>
     bb_offsets_size buf1 = 0 \<and> bb_offsets_size buf2 = 0 \<and>
     (strategy = RKX_FREE_ASYNC_BY_CODE \<or> strategy = RKX_FREE_ASYNC_BY_DATA \<and>
        take (unat (bb_data_size buf1)) (buffer_content sh (bufs st) (bp_alloc pr) b1) =
        take (unat (bb_data_size buf2)) (buffer_content sh (bufs st) (bp_alloc pr) b2)))"
proof -
  have o: "bt_to_proc x1 = Some (own n)" "bt_to_proc x2 = Some (own n)" "bb_target_node buf1 = Some n"
    "bb_target_node buf2 = Some n" "buffer_readable sh (bufs st) (bp_alloc pr) b1"
    "buffer_readable sh (bufs st) (bp_alloc pr) b2"
    using t1 t2 p by (auto simp: txn_ok_def)
  have eq: "rkx_binder_buffer_data_equal syms st (Some (own n)) (Some b1) (Some b2) =
    Some (take (unat (bb_data_size buf1)) (buffer_content sh (bufs st) (bp_alloc pr) b1) =
          take (unat (bb_data_size buf2)) (buffer_content sh (bufs st) (bp_alloc pr) b2))"
    by (rule legacy.data_equal_correct [OF assms(1) p t1(4) t2(4) o(5,6) len])
  have flags: "bt_flags x1 AND bt_flags x2 AND TF_ONE_WAY = TF_ONE_WAY \<longleftrightarrow> bit (bt_flags x1) 0 \<and> bit (bt_flags x2) 0"
    by (simp add: TF_ONE_WAY_def and_one_eq mod2_eq_if flip: and.assoc) (simp add: bit_0 even_and_iff)
  show ?thesis
    using flags eq by (auto simp: rk_binder_can_update_transaction_def t1 t2 o n p RKX_FREE_ASYNC_BY_CODE_def
        RKX_FREE_ASYNC_BY_DATA_def)
qed

lemma sample_kp_content:
  "buffer_content 2 (bufs sample_kp) (bp_alloc sample_proc) 0 = [1, 2, 3, 4]"
  "buffer_content 2 (bufs sample_kp) (bp_alloc sample_proc) 1 = [1, 2, 3, 4]"
proof -
  have u: "[0..<4] = [0, 1, 2, 3 :: nat]" "[4..<8] = [4, 5, 6, 7 :: nat]" by (simp_all add: upt_rec)
  have sz: "rk_binder_alloc_buffer_size (bufs sample_kp) (bp_alloc sample_proc) 0 = Some 4"
    "rk_binder_alloc_buffer_size (bufs sample_kp) (bp_alloc sample_proc) 1 = Some 4"
    by (simp_all add: rk_binder_alloc_buffer_size_def sample_kp_def sample_proc_def sample_buf_def)
  show "buffer_content 2 (bufs sample_kp) (bp_alloc sample_proc) 0 = [1, 2, 3, 4]"
    "buffer_content 2 (bufs sample_kp) (bp_alloc sample_proc) 1 = [1, 2, 3, 4]"
    unfolding buffer_content_def sz
    by (simp_all add: sample_kp_def sample_proc_def sample_buf_def buffer_start_def u page_byte_def)
qed

theorem can_update_iff_witness:
  "rk_binder_can_update_transaction sample_syms sample_kp 0 1 RKX_FREE_ASYNC_BY_DATA = Some True \<and>
   rk_binder_can_update_transaction sample_syms sample_kp 0 1 RKX_FREE_ASYNC_SKIP = Some False"
proof -
  have o: "k_binder_alloc_copy_from_buffer sample_syms = Some (rk_binder_alloc_copy_from_buffer 2)"
    "txns sample_kp 0 = Some (sample_txn 0)" "txns sample_kp 1 = Some (sample_txn 1)"
    "bt_buffer (sample_txn 0) = Some 0" "bt_buffer (sample_txn 1) = Some 1"
    "bufs sample_kp 0 = Some (sample_buf 4096 0)" "bufs sample_kp 1 = Some (sample_buf 4100 1)"
    "procs sample_kp 0 = Some sample_proc"
    by (simp_all add: sample_syms_def sample_kp_def sample_txn_def)
  obtain nd where nd: "nodes sample_kp 0 = Some nd" by (simp add: sample_kp_def)
  note iff = can_update_iff [where own = "\<lambda>_. 0", OF o(1) sample_txn_ok(1) o(2,4,6) sample_txn_ok(2) o(3,5,7) nd o(8)]
  show ?thesis
    using iff [of RKX_FREE_ASYNC_BY_DATA] iff [of RKX_FREE_ASYNC_SKIP]
    by (simp add: sample_kp_content sample_buf_def sample_txn_def rkx_const del: One_nat_def)
qed

text \<open>
  C17: a rule protects its interface. While the rule for an interface (of at most 62 characters) and a
  code, or the wildcard rule of the interface, says skip, a transaction with that code whose parcel was
  written for that interface makes the probe do nothing.
\<close>

theorem skip_rule_protects:
  assumes "k_binder_alloc_copy_from_buffer syms = Some (rk_binder_alloc_copy_from_buffer sh)"
    and x: "txns st t = Some x" "bt_buffer x = Some b" "bufs st b = Some buf" and p: "procs st p = Some pr"
    and r: "buffer_readable sh (bufs st) (bp_alloc pr) b"
    and data: "take (unat (bb_data_size buf)) (buffer_content sh (bufs st) (bp_alloc pr) b) = parcel header name rest"
      "unat (bb_data_size buf) = length (parcel header name rest)"
    and name: "length header = RKX_PARCEL_OFFSET" "0 \<notin> set name" "length name \<le> 62"
    and rules: "fa_inv (ke_hash env) (ke_rules env)" "entry_count (rkx_free_async_map (ke_rules env)) < 2 ^ 31"
      "rule_for (rules (ke_rules env)) name (bt_code x) = Some RKX_FREE_ASYNC_SKIP"
  shows "rkx_binder_proc_transaction_pre env syms t p st = Some st"
proof -
  let ?c = "buffer_content sh (bufs st) (bp_alloc pr) b" and ?n = "unat (bb_data_size buf)"
  have len: "?n \<le> length ?c"
    using arg_cong [OF data(1), of length] data(2) by simp
  have "token (min RKX_INTERFACETOKEN_BUFF_SIZE ?n) ?c = token (min RKX_INTERFACETOKEN_BUFF_SIZE ?n) (take ?n ?c @ [])"
    by (rule legacy.token_take [symmetric]) (use len in simp_all)
  also have "\<dots> = name"
    unfolding append_Nil2 data(1)
    using token_parcel_140 [OF name(1,2) refl, of rest] name(3) by (simp add: data(2))
  finally have "kp_strategy env syms st p (Some b) (bt_code x) = Some RKX_FREE_ASYNC_SKIP"
    using legacy.strategy_correct [OF assms(1) p x(3) r len rules(1,2), of "bt_code x"] rules(3) by simp
  with x p show ?thesis by (auto simp: rkx_binder_proc_transaction_pre_def)
qed

lemma sample_parcel_buffer:
  fixes al
  defines "al \<equiv> \<lparr>al_buffer = 4096, al_buffer_size = 24, al_buffers = [0],
       al_pages = [Some (sample_parcel @ replicate 8 0)]\<rparr>"
  shows "buffer_readable 5 (bufs sample_parcel_kp) al 0"
    "buffer_content 5 (bufs sample_parcel_kp) al 0 = sample_parcel"
proof -
  have sz: "rk_binder_alloc_buffer_size (bufs sample_parcel_kp) al 0 = Some 24"
    by (simp add: rk_binder_alloc_buffer_size_def sample_parcel_kp_def sample_buf_def al_def)
  have mapped: "page_mapped 5 al x \<and> page_byte 5 al x = sample_parcel ! x" if "x < 24" for x
    using that length_sample_parcel by (simp add: page_mapped_def page_byte_def al_def nth_append)
  show "buffer_readable 5 (bufs sample_parcel_kp) al 0"
    unfolding buffer_readable_def sz using mapped
    by (simp add: sample_parcel_kp_def sample_buf_def buffer_start_def list_all_iff) (simp add: al_def)
  have "buffer_content 5 (bufs sample_parcel_kp) al 0 = map (page_byte 5 al) [0..<24]"
    unfolding buffer_content_def sz
    by (simp add: sample_parcel_kp_def sample_buf_def buffer_start_def) (simp add: al_def)
  then show "buffer_content 5 (bufs sample_parcel_kp) al 0 = sample_parcel"
    using mapped length_sample_parcel by (simp add: list_eq_iff_nth_eq)
qed

theorem skip_rule_protects_witness:
  "rkx_binder_proc_transaction_pre sample_skip_env
     (sample_syms\<lparr>k_binder_alloc_copy_from_buffer := Some (rk_binder_alloc_copy_from_buffer 5)\<rparr>)
     0 0 sample_parcel_kp = Some sample_parcel_kp"
proof (rule skip_rule_protects)
  show "fa_inv (ke_hash sample_skip_env) (ke_rules sample_skip_env)"
    using add_inv [OF init_free_async [OF sample_hash_ok]]
    by (simp add: sample_skip_env_def sample_kp_env_def)
  have ok: "add_args_ok [73, 65, 0] (- 1) RKX_FREE_ASYNC_SKIP"
    by (simp add: add_args_ok_def strlen_def cstr_def rkx_const rkx_free_async_strategy_valid_def)
  show "rule_for (rules (ke_rules sample_skip_env)) [73, 65] (bt_code (sample_txn 0)) = Some RKX_FREE_ASYNC_SKIP"
    using add_free_async(2) [OF init_free_async [OF sample_hash_ok] ok, of "Some sample_entry"]
    by (simp add: sample_skip_env_def sample_kp_env_def rule_for_def sample_txn_def cstr_def rules_init)
  show "entry_count (rkx_free_async_map (ke_rules sample_skip_env)) < 2 ^ 31"
    using entry_count_add_le [of sample_hash "Some sample_entry" "Some [73, 65, 0]" "- 1" RKX_FREE_ASYNC_SKIP
        rkx_init_free_async]
    by (simp add: sample_skip_env_def rkx_init_free_async_def)
  show "buffer_readable 5 (bufs sample_parcel_kp) (bp_alloc (sample_proc\<lparr>bp_alloc := \<lparr>al_buffer = 4096,
      al_buffer_size = 24, al_buffers = [0], al_pages = [Some (sample_parcel @ replicate 8 0)]\<rparr>\<rparr>)) 0"
    using sample_parcel_buffer(1) by simp
  show "take (unat (bb_data_size ((sample_buf 4096 0)\<lparr>bb_data_size := 24\<rparr>)))
      (buffer_content 5 (bufs sample_parcel_kp) (bp_alloc (sample_proc\<lparr>bp_alloc := \<lparr>al_buffer = 4096,
        al_buffer_size = 24, al_buffers = [0], al_pages = [Some (sample_parcel @ replicate 8 0)]\<rparr>\<rparr>)) 0) =
      parcel (replicate RKX_PARCEL_OFFSET 7) [73, 65] [1, 2]"
    "unat (bb_data_size ((sample_buf 4096 0)\<lparr>bb_data_size := 24\<rparr>)) =
      length (parcel (replicate RKX_PARCEL_OFFSET 7) [73, 65] [1, 2])"
    using sample_parcel_buffer(2) length_sample_parcel by (simp_all flip: sample_parcel_def)
qed (simp_all add: sample_parcel_kp_def sample_kp_def sample_txn_def)

text \<open>
  C35: a rule for a long name has no effect. A rule whose name has between 63 and 139 characters is
  accepted, and for every transaction the probe then chooses the strategy it would have chosen without
  the rule: names in parcels are compared by their first 62 characters only.
\<close>

theorem long_rule_ineffective:
  assumes "k_binder_alloc_copy_from_buffer syms = Some (rk_binder_alloc_copy_from_buffer sh)"
    and objs: "procs st p = Some pr" "bufs st b = Some buf"
    and r: "buffer_readable sh (bufs st) (bp_alloc pr) b"
      "unat (bb_data_size buf) \<le> length (buffer_content sh (bufs st) (bp_alloc pr) b)"
    and rules: "fa_inv (ke_hash env) (ke_rules env)"
      "entry_count (rkx_free_async_map (ke_rules env)) < 2 ^ 31 - 1"
    and name: "62 < strlen name" "add_args_ok name rule_code s"
    and add: "rkx_add_free_async (ke_hash env) (Some e) (Some name) rule_code s (ke_rules env) = (rc, st')"
  shows "rc = 0 \<and> kp_strategy (env\<lparr>ke_rules := st'\<rparr>) syms st p (Some b) code =
    kp_strategy env syms st p (Some b) code"
proof -
  note a = add_free_async [OF rules(1) name(2), of "Some e", unfolded add]
  have few: "entry_count (rkx_free_async_map st') < 2 ^ 31"
    using entry_count_add_le [of "ke_hash env" "Some e" "Some name" rule_code s "ke_rules env", unfolded add]
      rules(2) by simp
  let ?t = "token (min RKX_INTERFACETOKEN_BUFF_SIZE (unat (bb_data_size buf)))
    (buffer_content sh (bufs st) (bp_alloc pr) b)"
  have "length ?t \<le> 62" by (rule length_token_140) simp
  then have "?t \<noteq> cstr name" using name(1) by (auto simp: strlen_def)
  then have "rule_for (rules st') ?t code = rule_for (rules (ke_rules env)) ?t code"
    using a(2) by (simp add: rule_for_def split: option.split)
  then show ?thesis
    using legacy.strategy_correct [OF assms(1) objs r rules(1), of code]
      legacy.strategy_correct [OF assms(1) objs r, of "env\<lparr>ke_rules := st'\<rparr>" code] a(1,3) few rules(2)
    by simp
qed

theorem long_rule_ineffective_witness:
  "\<exists>st'. rkx_add_free_async sample_hash (Some sample_entry) (Some (replicate 63 65 @ [0])) (- 1)
       RKX_FREE_ASYNC_SKIP rkx_init_free_async = (0, st') \<and>
     kp_strategy (sample_kp_env\<lparr>ke_rules := st'\<rparr>) sample_syms sample_kp 0 (Some 0) 7 =
       Some RKX_FREE_ASYNC_BY_CODE"
proof -
  obtain rc st' where add: "rkx_add_free_async sample_hash (Some sample_entry) (Some (replicate 63 65 @ [0])) (- 1)
       RKX_FREE_ASYNC_SKIP rkx_init_free_async = (rc, st')"
    by fastforce
  have name: "cstr (replicate 63 65 @ [0]) = replicate 63 65" by (rule cstr_append_nul) simp
  have o: "k_binder_alloc_copy_from_buffer sample_syms = Some (rk_binder_alloc_copy_from_buffer 2)"
    "procs sample_kp 0 = Some sample_proc" "bufs sample_kp 0 = Some (sample_buf 4096 0)"
    by (simp_all add: sample_syms_def sample_kp_def)
  show ?thesis
    using long_rule_ineffective [OF o(1,2,3) sample_kp_readable(1), of sample_kp_env "replicate 63 65 @ [0]" "- 1"
        RKX_FREE_ASYNC_SKIP sample_entry rc st' 7] add init_free_async [OF sample_hash_ok]
      sample_strategy [of sample_kp 0 "Some 0" 7]
    by (simp add: sample_kp_env_def sample_kp_content sample_buf_def rkx_init_free_async_def strlen_def name
        add_args_ok_def rkx_free_async_strategy_valid_def rkx_const)
qed

end
