(* ===== verification/Rkx_Wire.thy ===== *)
theory Rkx_Wire
  imports Rkx_Uapi
begin

text \<open>
  The netlink wire format both sides of the program rely on: attributes (type, length, value, padded
  to four bytes), nested attributes, and a generic netlink message. \<open>ref_skb\<close> states what the
  kernel documents of its message-building functions, as operations on the bytes written so far and
  the room of the buffer; the transport is proved against any implementation that agrees with it.
\<close>

section \<open>Attributes\<close>

definition NLA_HDRLEN :: nat where [rkx_const]: "NLA_HDRLEN = 4"
definition NLMSG_HDRLEN :: nat where [rkx_const]: "NLMSG_HDRLEN = 16"
definition GENL_HDRLEN :: nat where [rkx_const]: "GENL_HDRLEN = 4"
definition NLA_F_NESTED :: u16 where "NLA_F_NESTED = 0x8000"
definition NLA_TYPE_MASK :: u16 where "NLA_TYPE_MASK = 0x3FFF"

definition NLA_ALIGN :: "nat \<Rightarrow> nat" where
  "NLA_ALIGN n = (n + 3) div 4 * 4"

definition nla_total_size :: "nat \<Rightarrow> nat" where
  "nla_total_size payload = NLA_ALIGN (NLA_HDRLEN + payload)"

definition tlv :: "u16 \<Rightarrow> bytes \<Rightarrow> bytes" where
  "tlv t d = le16 (of_nat (NLA_HDRLEN + length d)) @ le16 t @ d @
     replicate (nla_total_size (length d) - (NLA_HDRLEN + length d)) 0"

definition tlvs :: "(u16 \<times> bytes) list \<Rightarrow> bytes" where
  "tlvs as = concat (map (\<lambda>(t, d). tlv t d) as)"

lemma NLA_ALIGN_ge: "n \<le> NLA_ALIGN n" "NLA_ALIGN n < n + 4"
  by (simp_all add: NLA_ALIGN_def)

lemma NLA_ALIGN_dvd: "4 dvd NLA_ALIGN n"
  by (simp add: NLA_ALIGN_def)

lemma NLA_ALIGN_id: "4 dvd n \<Longrightarrow> NLA_ALIGN n = n"
  by (auto simp: NLA_ALIGN_def elim!: dvdE)

lemma length_tlv [simp]: "length (tlv t d) = nla_total_size (length d)"
  using NLA_ALIGN_ge(1) [of "4 + length d"]
  by (simp add: tlv_def nla_total_size_def NLA_HDRLEN_def)

lemma nla_total_size_ge: "NLA_HDRLEN + n \<le> nla_total_size n"
  by (simp add: nla_total_size_def NLA_ALIGN_ge)

lemma tlvs_Nil [simp]: "tlvs [] = []"
  by (simp add: tlvs_def)

lemma tlvs_Cons [simp]: "tlvs ((t, d) # as) = tlv t d @ tlvs as"
  by (simp add: tlvs_def)

lemma tlvs_append [simp]: "tlvs (as @ bs) = tlvs as @ tlvs bs"
  by (simp add: tlvs_def)

lemma length_tlvs_dvd: "4 dvd length (tlvs as)"
  by (induction as) (auto simp: nla_total_size_def NLA_ALIGN_dvd)

section \<open>Messages\<close>

definition genl_header :: "nat \<Rightarrow> u16 \<Rightarrow> u16 \<Rightarrow> u32 \<Rightarrow> u8 \<Rightarrow> bytes" where
  "genl_header len fam flags seq cmd =
     le32 (of_nat len) @ le16 fam @ le16 flags @ le32 seq @ le32 0 @
     [cmd, RKX_GENL_VERSION, 0, 0]"

definition genl_msg :: "u16 \<Rightarrow> u16 \<Rightarrow> u32 \<Rightarrow> u8 \<Rightarrow> bytes \<Rightarrow> bytes" where
  "genl_msg fam flags seq cmd attrs =
     genl_header (NLMSG_HDRLEN + GENL_HDRLEN + length attrs) fam flags seq cmd @ attrs"

lemma length_genl_header [simp]: "length (genl_header len fam flags seq cmd) = 20"
  by (simp add: genl_header_def)

section \<open>What the kernel documents of its message builders\<close>

record ref_skb =
  ref_bytes :: bytes
  ref_cap :: nat

definition ref_append :: "ref_skb \<Rightarrow> bytes \<Rightarrow> ref_skb option" where
  "ref_append v d =
     (if length (ref_bytes v) + length d \<le> ref_cap v
      then Some (v\<lparr>ref_bytes := ref_bytes v @ d\<rparr>) else None)"

definition ref_patch :: "nat \<Rightarrow> bytes \<Rightarrow> ref_skb \<Rightarrow> ref_skb" where
  "ref_patch off d v =
     v\<lparr>ref_bytes := take off (ref_bytes v) @ d @ drop (off + length d) (ref_bytes v)\<rparr>"

text \<open>
  \<^verbatim>\<open>nla_put\<close>: header, payload and padding, or failure for lack of tail room.
  \<^verbatim>\<open>nla_nest_start\<close>: an empty attribute marked as nested, whose length
  \<^verbatim>\<open>nla_nest_end\<close> sets. \<^verbatim>\<open>genlmsg_put\<close> and \<^verbatim>\<open>genlmsg_end\<close>: the same for
  the message header.
\<close>

definition ref_put :: "ref_skb \<Rightarrow> u16 \<Rightarrow> bytes \<Rightarrow> ref_skb option" where
  "ref_put v t d = ref_append v (tlv t d)"

definition ref_nest_start :: "ref_skb \<Rightarrow> u16 \<Rightarrow> (ref_skb \<times> nat) option" where
  "ref_nest_start v t =
     map_option (\<lambda>v'. (v', length (ref_bytes v))) (ref_append v (tlv (t OR NLA_F_NESTED) []))"

definition ref_nest_end :: "ref_skb \<Rightarrow> nat \<Rightarrow> ref_skb" where
  "ref_nest_end v start = ref_patch start (le16 (of_nat (length (ref_bytes v) - start))) v"

definition ref_genlmsg_put :: "u16 \<Rightarrow> ref_skb \<Rightarrow> u8 \<Rightarrow> (ref_skb \<times> nat) option" where
  "ref_genlmsg_put fam v cmd =
     map_option (\<lambda>v'. (v', length (ref_bytes v))) (ref_append v (genl_header 20 fam 0 0 cmd))"

definition ref_genlmsg_end :: "ref_skb \<Rightarrow> nat \<Rightarrow> ref_skb" where
  "ref_genlmsg_end v start = ref_patch start (le32 (of_nat (length (ref_bytes v) - start))) v"

lemma ref_append_fits:
  "length (ref_bytes v) + length d \<le> ref_cap v \<Longrightarrow>
     ref_append v d = Some (v\<lparr>ref_bytes := ref_bytes v @ d\<rparr>)"
  by (simp add: ref_append_def)

lemma tlv_nil: "tlv t [] = le16 4 @ le16 t"
  by (simp add: tlv_def nla_total_size_def NLA_ALIGN_def NLA_HDRLEN_def)

lemma ref_nest_end_eq:
  assumes "ref_bytes v = b @ tlv t [] @ body" "4 dvd length body"
  shows "ref_nest_end v (length b) = v\<lparr>ref_bytes := b @ tlv t body\<rparr>"
proof -
  have "nla_total_size (length body) = 4 + length body"
    using assms(2) by (simp add: nla_total_size_def NLA_HDRLEN_def NLA_ALIGN_id)
  then have "tlv t body = le16 (of_nat (4 + length body)) @ le16 t @ body"
    by (simp add: tlv_def NLA_HDRLEN_def)
  then show ?thesis
    by (simp add: ref_nest_end_def ref_patch_def assms(1) tlv_nil)
qed

lemma ref_genlmsg_end_eq:
  assumes "ref_bytes v = genl_header 20 fam 0 0 cmd @ attrs"
  shows "ref_genlmsg_end v 0 = v\<lparr>ref_bytes := genl_msg fam 0 0 cmd attrs\<rparr>"
  by (simp add: ref_genlmsg_end_def ref_patch_def assms genl_msg_def genl_header_def rkx_const)

end
