(* ===== verification/Rkx_Netuid.thy ===== *)
theory Rkx_Netuid
  imports Rkx_Tables
begin

text \<open>
  \<^verbatim>\<open>LKM-Source/rkx_netuid.c\<close>: the hash table of the uids whose network traffic is
  monitored. The module's mutex makes every update atomic for the other writers, so an update is a
  function on the table; what it hands to \<^verbatim>\<open>kfree_rcu\<close> is part of its result. The outcome
  of \<^verbatim>\<open>kmalloc\<close> (an object with arbitrary contents, or none) is an argument.
\<close>

definition RKX_NET_UID_HASH_BITS :: nat where
  [rkx_const]: "RKX_NET_UID_HASH_BITS = 6"

record rkx_uid_info =
  ui_uid :: u32

type_synonym uid_table = "rkx_uid_info table"

definition rkx_init_net_uid :: uid_table where
  "rkx_init_net_uid = hash_init RKX_NET_UID_HASH_BITS"

definition rkx_net_uid_monitored_rcu :: "hash_env \<Rightarrow> uid_table \<Rightarrow> u32 \<Rightarrow> bool" where
  "rkx_net_uid_monitored_rcu env t uid =
     (case find (\<lambda>entry. ui_uid entry = uid) (hash_bucket t (hash_min env uid)) of
        Some entry \<Rightarrow> True
      | None \<Rightarrow> False)"

definition rkx_add_net_uid ::
  "hash_env \<Rightarrow> rkx_uid_info option \<Rightarrow> u32 \<Rightarrow> uid_table \<Rightarrow> uid_table" where
  "rkx_add_net_uid env kmalloc uid t =
     (case find (\<lambda>entry. ui_uid entry = uid) (hash_bucket t (hash_min env uid)) of
        Some entry \<Rightarrow> t
      | None \<Rightarrow>
          (case kmalloc of
             None \<Rightarrow> t
           | Some entry \<Rightarrow> hash_add t (hash_min env uid) (entry\<lparr>ui_uid := uid\<rparr>)))"

definition rkx_del_net_uid ::
  "hash_env \<Rightarrow> u32 \<Rightarrow> uid_table \<Rightarrow> uid_table \<times> rkx_uid_info list" where
  "rkx_del_net_uid env uid t =
     (case find (\<lambda>entry. ui_uid entry = uid) (hash_bucket t (hash_min env uid)) of
        None \<Rightarrow> (t, [])
      | Some entry \<Rightarrow> (hash_del (\<lambda>entry. ui_uid entry = uid) t (hash_min env uid), [entry]))"

definition rkx_destroy_net_uid :: "uid_table \<Rightarrow> uid_table \<times> rkx_uid_info list" where
  "rkx_destroy_net_uid t = (hash_clear t, concat t)"

section \<open>The table is a set of uids\<close>

definition net_uid_inv :: "hash_env \<Rightarrow> uid_table \<Rightarrow> bool" where
  "net_uid_inv env t \<longleftrightarrow> table_inv (hash_min env) ui_uid (2 ^ RKX_NET_UID_HASH_BITS) t"

definition monitored_uids :: "uid_table \<Rightarrow> u32 set" where
  "monitored_uids t = ui_uid ` entries t"

text \<open>The uid set as a map, for the shared contract of the rule stores.\<close>

definition uid_view :: "uid_table \<Rightarrow> u32 \<Rightarrow> unit option" where
  "uid_view t uid = (if uid \<in> monitored_uids t then Some () else None)"

lemma net_uid_find:
  "net_uid_inv env t \<Longrightarrow>
     find (\<lambda>entry. ui_uid entry = uid) (hash_bucket t (hash_min env uid)) = table_find ui_uid t uid"
  unfolding net_uid_inv_def by (rule find_bucket)

lemma net_uid_find_None: "table_find ui_uid t uid = None \<longleftrightarrow> uid \<notin> monitored_uids t"
  by (simp add: table_find_None monitored_uids_def)

lemma monitored_iff:
  "net_uid_inv env t \<Longrightarrow> rkx_net_uid_monitored_rcu env t uid \<longleftrightarrow> uid \<in> monitored_uids t"
  using net_uid_find_None [of t uid]
  by (auto simp: rkx_net_uid_monitored_rcu_def net_uid_find split: option.splits)

lemma init_net_uid: "hash_env_ok env \<Longrightarrow> net_uid_inv env rkx_init_net_uid"
  unfolding net_uid_inv_def rkx_init_net_uid_def
  by (rule table_inv_init) (simp add: hash_env_ok_def rkx_const)

lemma add_net_uid:
  assumes "net_uid_inv env t"
  shows "net_uid_inv env (rkx_add_net_uid env kmalloc uid t)"
    and "monitored_uids (rkx_add_net_uid env kmalloc uid t) =
      (if kmalloc \<noteq> None then insert uid (monitored_uids t) else monitored_uids t)"
proof -
  have add: "net_uid_inv env (hash_add t (hash_min env uid) (entry\<lparr>ui_uid := uid\<rparr>)) \<and>
      monitored_uids (hash_add t (hash_min env uid) (entry\<lparr>ui_uid := uid\<rparr>)) =
        insert uid (monitored_uids t)"
    if "uid \<notin> monitored_uids t" for entry
    using hash_add_correct [of "hash_min env" ui_uid _ t "entry\<lparr>ui_uid := uid\<rparr>"] assms that
    by (simp add: net_uid_inv_def monitored_uids_def)
  show "net_uid_inv env (rkx_add_net_uid env kmalloc uid t)"
    using add net_uid_find_None [of t uid] assms
    by (auto simp: rkx_add_net_uid_def net_uid_find split: option.splits)
  show "monitored_uids (rkx_add_net_uid env kmalloc uid t) =
      (if kmalloc \<noteq> None then insert uid (monitored_uids t) else monitored_uids t)"
    using add net_uid_find_None [of t uid] assms
    by (auto simp: rkx_add_net_uid_def net_uid_find split: option.splits)
qed

lemma del_net_uid:
  assumes "net_uid_inv env t"
  shows "net_uid_inv env (fst (rkx_del_net_uid env uid t))"
    and "monitored_uids (fst (rkx_del_net_uid env uid t)) = monitored_uids t - {uid}"
proof -
  have del: "net_uid_inv env (hash_del (\<lambda>e. ui_uid e = uid) t (hash_min env uid))"
    "monitored_uids (hash_del (\<lambda>e. ui_uid e = uid) t (hash_min env uid)) = monitored_uids t - {uid}"
    using hash_del_correct [of "hash_min env" ui_uid _ t uid] assms
    by (auto simp: net_uid_inv_def monitored_uids_def)
  show "net_uid_inv env (fst (rkx_del_net_uid env uid t))"
    using del(1) assms by (simp add: rkx_del_net_uid_def split: option.splits)
  show "monitored_uids (fst (rkx_del_net_uid env uid t)) = monitored_uids t - {uid}"
    using del(2) net_uid_find_None [of t uid] assms
    by (auto simp: rkx_del_net_uid_def net_uid_find split: option.splits)
qed

lemma destroy_net_uid:
  "net_uid_inv env t \<Longrightarrow> net_uid_inv env (fst (rkx_destroy_net_uid t))"
  "monitored_uids (fst (rkx_destroy_net_uid t)) = {}"
  by (simp_all add: rkx_destroy_net_uid_def net_uid_inv_def table_inv_clear monitored_uids_def)

lemma monitored_init [simp]: "monitored_uids rkx_init_net_uid = {}"
  by (simp add: monitored_uids_def rkx_init_net_uid_def)

interpretation nu: keyed_table hash_env_ok net_uid_inv uid_view "\<lambda>_. True" "\<lambda>_. True"
  "\<lambda>kmalloc. kmalloc \<noteq> None" rkx_init_net_uid
  "\<lambda>env kmalloc uid _. rkx_add_net_uid env kmalloc uid"
  "\<lambda>env uid t. fst (rkx_del_net_uid env uid t)" "\<lambda>t. fst (rkx_destroy_net_uid t)"
proof unfold_locales
  show "net_uid_inv env t \<Longrightarrow>
      uid_view (rkx_add_net_uid env kmalloc uid t) =
        (if kmalloc \<noteq> None \<or> uid_view t uid \<noteq> None then (uid_view t)(uid \<mapsto> v) else uid_view t)"
    for env t kmalloc uid v
    by (auto simp: fun_eq_iff uid_view_def add_net_uid)
qed (auto simp: init_net_uid uid_view_def add_net_uid del_net_uid destroy_net_uid fun_eq_iff)

subsection \<open>Memory: what is unlinked is freed, once\<close>

lemma del_net_uid_conserves:
  "mset (concat (fst (rkx_del_net_uid env uid t))) + mset (snd (rkx_del_net_uid env uid t)) =
     mset (concat t)"
  using mset_hash_del [of "\<lambda>entry. ui_uid entry = uid" t "hash_min env uid"]
  by (auto simp: rkx_del_net_uid_def split: option.splits)

lemma destroy_net_uid_conserves:
  "mset (concat (fst (rkx_destroy_net_uid t))) + mset (snd (rkx_destroy_net_uid t)) = mset (concat t)"
  by (simp add: rkx_destroy_net_uid_def)

section \<open>Properties\<close>

definition net_uid_run :: "hash_env \<Rightarrow> (rkx_uid_info option, u32, unit) table_cmd list \<Rightarrow> uid_table" where
  "net_uid_run env cs =
     foldl (table_step (\<lambda>env kmalloc uid _. rkx_add_net_uid env kmalloc uid)
       (\<lambda>env uid t. fst (rkx_del_net_uid env uid t)) (\<lambda>t. fst (rkx_destroy_net_uid t)) env)
       rkx_init_net_uid cs"

lemma cmd_ok_True: "list_all (cmd_ok (\<lambda>_. True) (\<lambda>_. True)) cs"
  by (induction cs) (auto elim: cmd_ok.elims intro: cmd_ok.elims(3))

text \<open>
  C6: the uid store is a set. After any sequence of additions (with or without memory), deletions and
  teardowns, from the initialised table, the packet path finds a uid exactly when the same commands on
  an abstract set leave it in.
\<close>

theorem net_uid_store_refines_set:
  assumes "hash_env_ok env"
  shows "rkx_net_uid_monitored_rcu env (net_uid_run env cs) uid \<longleftrightarrow>
    foldl (map_step (\<lambda>kmalloc. kmalloc \<noteq> None)) Map.empty cs uid = Some ()"
proof -
  have "net_uid_inv env (net_uid_run env cs)"
    unfolding net_uid_run_def by (rule nu.run_init_inv [OF assms])
  moreover have "uid_view (net_uid_run env cs) =
      foldl (map_step (\<lambda>kmalloc. kmalloc \<noteq> None)) Map.empty cs"
    unfolding net_uid_run_def by (rule nu.run_init_refines [OF assms cmd_ok_True])
  ultimately show ?thesis
    by (auto simp: monitored_iff uid_view_def fun_eq_iff split: if_splits)
qed

theorem net_uid_store_refines_set_witness:
  "hash_env_ok sample_hash \<and>
   rkx_net_uid_monitored_rcu sample_hash (net_uid_run sample_hash
     [Put (Some \<lparr>ui_uid = 0\<rparr>) 10001 (), Put (Some \<lparr>ui_uid = 0\<rparr>) 10065 (), Put None 10003 (), Del 10065])
     10001 \<and>
   \<not> rkx_net_uid_monitored_rcu sample_hash (net_uid_run sample_hash
     [Put (Some \<lparr>ui_uid = 0\<rparr>) 10001 (), Put (Some \<lparr>ui_uid = 0\<rparr>) 10065 (), Put None 10003 (), Del 10065])
     10003"
  by (simp add: net_uid_store_refines_set [OF sample_hash_ok])

end
