(* ===== verification/Rkx_Genl.thy ===== *)
theory Rkx_Genl
  imports Rkx_Hook Rkx_Wire Rkx_Netuid Rkx_Free_Async "HOL-Library.Monad_Syntax"
begin

text \<open>
  \<^verbatim>\<open>LKM-Source/rkx_genl.c\<close>: the command handlers, the attribute policy, the encoder and
  multicast of events, and the registration of the family. The netlink functions of the kernel are the
  record \<open>genl_api\<close>, over any type of socket buffers; \<open>genl_api_ok\<close> is their documented behaviour.
\<close>

section \<open>Attribute policy and command handlers\<close>

datatype nla_policy = NLA_NESTED | NLA_U32 | NLA_U8 | NLA_S32 | NLA_NUL_STRING nat

fun rkx_genl_policy :: "rkx_genl_attr \<Rightarrow> nla_policy option" where
  "rkx_genl_policy RKX_A_EVENT = Some NLA_NESTED"
| "rkx_genl_policy RKX_A_UID = Some NLA_U32"
| "rkx_genl_policy RKX_A_FREE_ASYNC_STRATEGY = Some NLA_U8"
| "rkx_genl_policy RKX_A_FREE_ASYNC_RPC_NAME = Some (NLA_NUL_STRING (RKX_INTERFACETOKEN_BUFF_SIZE - 1))"
| "rkx_genl_policy RKX_A_FREE_ASYNC_CODE = Some NLA_S32"
| "rkx_genl_policy _ = None"

text \<open>
  What the netlink core guarantees of an attribute it passes to a handler (documented at
  \<^verbatim>\<open>struct nla_policy\<close>): an integer attribute has at least its width, a string has its NUL
  within the maximal length.
\<close>

fun policy_accepts :: "nla_policy \<Rightarrow> bytes \<Rightarrow> bool" where
  "policy_accepts NLA_NESTED d \<longleftrightarrow> True"
| "policy_accepts NLA_U32 d \<longleftrightarrow> 4 \<le> length d"
| "policy_accepts NLA_U8 d \<longleftrightarrow> 1 \<le> length d"
| "policy_accepts NLA_S32 d \<longleftrightarrow> 4 \<le> length d"
| "policy_accepts (NLA_NUL_STRING n) d \<longleftrightarrow> 0 \<in> set (take (n + 1) d)"

type_synonym genl_attrs = "rkx_genl_attr \<Rightarrow> bytes option"

definition attrs_validated :: "genl_attrs \<Rightarrow> bool" where
  "attrs_validated attrs \<longleftrightarrow>
     (\<forall>a d p. attrs a = Some d \<longrightarrow> rkx_genl_policy a = Some p \<longrightarrow> policy_accepts p d)"

definition get_u32 :: "bytes \<Rightarrow> u32 option" where
  "get_u32 d = map_option of_le32 (load d 0 4)"

definition get_u8 :: "bytes \<Rightarrow> u8 option" where
  "get_u8 d = load8 d 0"

text \<open>The two rule stores, and the allocations a handler may make.\<close>

record rkx_rules =
  rr_uids :: uid_table
  rr_rules :: free_async_state

record genl_env =
  ge_hash :: hash_env
  ge_kmalloc_uid :: "rkx_uid_info option"
  ge_kmalloc_rule :: "rkx_free_async_entry option"

text \<open>A handler returns its error code and the stores, or \<open>None\<close> if it reads out of bounds.\<close>

type_synonym genl_handler = "genl_env \<Rightarrow> genl_attrs \<Rightarrow> rkx_rules \<Rightarrow> (int \<times> rkx_rules) option"

definition rkx_genl_monitor_net :: genl_handler where
  "rkx_genl_monitor_net env attrs st =
     (case attrs RKX_A_UID of
        None \<Rightarrow> Some (- EINVAL, st)
      | Some a \<Rightarrow> do {
          muid \<leftarrow> get_u32 a;
          Some (0, st\<lparr>rr_uids := rkx_add_net_uid (ge_hash env) (ge_kmalloc_uid env) muid (rr_uids st)\<rparr>)
        })"

definition rkx_genl_del_monitor_net :: genl_handler where
  "rkx_genl_del_monitor_net env attrs st =
     (case attrs RKX_A_UID of
        None \<Rightarrow> Some (- EINVAL, st)
      | Some a \<Rightarrow> do {
          muid \<leftarrow> get_u32 a;
          Some (0, st\<lparr>rr_uids := fst (rkx_del_net_uid (ge_hash env) muid (rr_uids st))\<rparr>)
        })"

definition rkx_genl_add_free_async :: genl_handler where
  "rkx_genl_add_free_async env attrs st =
     (case (attrs RKX_A_FREE_ASYNC_RPC_NAME, attrs RKX_A_FREE_ASYNC_CODE,
            attrs RKX_A_FREE_ASYNC_STRATEGY) of
        (Some rpc_name, Some c, Some s) \<Rightarrow> do {
          code \<leftarrow> get_u32 c;
          strategy \<leftarrow> get_u8 s;
          let (rc, rules') = rkx_add_free_async (ge_hash env) (ge_kmalloc_rule env) (Some rpc_name)
                code strategy (rr_rules st);
          Some (if rc \<noteq> 0 then rc else 0, st\<lparr>rr_rules := rules'\<rparr>)
        }
      | _ \<Rightarrow> Some (- EINVAL, st))"

definition rkx_genl_del_free_async :: genl_handler where
  "rkx_genl_del_free_async env attrs st =
     (case (attrs RKX_A_FREE_ASYNC_RPC_NAME, attrs RKX_A_FREE_ASYNC_CODE) of
        (Some rpc_name, Some c) \<Rightarrow> do {
          code \<leftarrow> get_u32 c;
          let (rc, rules', freed) = rkx_del_free_async (ge_hash env) (Some rpc_name) code (rr_rules st);
          Some (if rc \<noteq> 0 then rc else 0, st\<lparr>rr_rules := rules'\<rparr>)
        }
      | _ \<Rightarrow> Some (- EINVAL, st))"

fun rkx_genl_ops :: "rkx_genl_cmd \<Rightarrow> genl_handler option" where
  "rkx_genl_ops RKX_C_ADD_MONITOR_NET = Some rkx_genl_monitor_net"
| "rkx_genl_ops RKX_C_DEL_MONITOR_NET = Some rkx_genl_del_monitor_net"
| "rkx_genl_ops RKX_C_ADD_FREE_ASYNC = Some rkx_genl_add_free_async"
| "rkx_genl_ops RKX_C_DEL_FREE_ASYNC = Some rkx_genl_del_free_async"
| "rkx_genl_ops _ = None"

text \<open>The family as it is registered.\<close>

record genl_family =
  fam_name :: string
  fam_version :: u8
  fam_maxattr :: nat
  fam_policy :: "rkx_genl_attr \<Rightarrow> nla_policy option"
  fam_ops :: "rkx_genl_cmd \<Rightarrow> genl_handler option"
  fam_mcgrps :: "string list"

definition rkx_genl_mcgrps :: "string list" where
  "rkx_genl_mcgrps = [RKX_GENL_MCGRP_NAME]"

definition rkx_genl_family :: genl_family where
  "rkx_genl_family =
     \<lparr>fam_name = RKX_GENL_FAMILY_NAME, fam_version = RKX_GENL_VERSION, fam_maxattr = RKX_A_MAX,
      fam_policy = rkx_genl_policy, fam_ops = rkx_genl_ops, fam_mcgrps = rkx_genl_mcgrps\<rparr>"

text \<open>The index in \<^verbatim>\<open>rkx_genl_mcgrps\<close> of the group to which \<^verbatim>\<open>rkx_send_message\<close> multicasts.\<close>

definition event_mcgrp :: nat where "event_mcgrp = 0"

section \<open>Sending an event\<close>

record 's genl_api =
  genlmsg_new :: "nat \<Rightarrow> 's option"
  genlmsg_put :: "'s \<Rightarrow> u8 \<Rightarrow> ('s \<times> nat) option"
  nla_nest_start :: "'s \<Rightarrow> u16 \<Rightarrow> ('s \<times> nat) option"
  nla_put_s32 :: "'s \<Rightarrow> u16 \<Rightarrow> s32 \<Rightarrow> 's option"
  nla_put_string :: "'s \<Rightarrow> u16 \<Rightarrow> bytes \<Rightarrow> 's option"
  nla_nest_end :: "'s \<Rightarrow> nat \<Rightarrow> 's"
  genlmsg_end :: "'s \<Rightarrow> nat \<Rightarrow> 's"
  genlmsg_multicast :: "'s \<Rightarrow> int"

text \<open>What becomes of the buffer: freed, or handed to the netlink core.\<close>

datatype 's skb_fate = Nlmsg_free 's | Multicast 's

text \<open>A chain \<^verbatim>\<open>nla_put_s32(\<dots>) || nla_put_s32(\<dots>) || \<dots>\<close>.\<close>

fun put_s32s :: "'s genl_api \<Rightarrow> 's \<Rightarrow> (rkx_genl_attr \<times> s32) list \<Rightarrow> 's option" where
  "put_s32s api skb [] = Some skb"
| "put_s32s api skb ((a, v) # rest) = do {
     skb \<leftarrow> nla_put_s32 api skb (attr_code a) v;
     put_s32s api skb rest
   }"

definition put_binder :: "'s genl_api \<Rightarrow> 's \<Rightarrow> rkx_binder_event \<Rightarrow> 's option" where
  "put_binder api skb b = do {
     (skb, payload) \<leftarrow> nla_nest_start api skb (attr_code RKX_A_BINDER);
     skb \<leftarrow> put_s32s api skb
       [(RKX_A_BINDER_TYPE, ucast (be_binder_type b)),
        (RKX_A_BINDER_ONEWAY, ucast (be_oneway b)),
        (RKX_A_BINDER_FROM_PID, be_from_pid b),
        (RKX_A_BINDER_FROM_UID, be_from_uid b),
        (RKX_A_BINDER_TARGET_PID, be_target_pid b),
        (RKX_A_BINDER_TARGET_UID, be_target_uid b),
        (RKX_A_BINDER_CODE, be_code b)];
     skb \<leftarrow> nla_put_string api skb (attr_code RKX_A_BINDER_RPC_NAME) (be_rpc_name b);
     Some (nla_nest_end api skb payload)
   }"

definition put_signal :: "'s genl_api \<Rightarrow> 's \<Rightarrow> rkx_signal_event \<Rightarrow> 's option" where
  "put_signal api skb s = do {
     (skb, payload) \<leftarrow> nla_nest_start api skb (attr_code RKX_A_SIGNAL);
     skb \<leftarrow> put_s32s api skb
       [(RKX_A_SIGNAL_SIGNAL, se_signal s),
        (RKX_A_SIGNAL_KILLER_PID, se_killer_pid s),
        (RKX_A_SIGNAL_KILLER_UID, se_killer_uid s),
        (RKX_A_SIGNAL_DST_PID, se_dst_pid s),
        (RKX_A_SIGNAL_DST_UID, se_dst_uid s)];
     Some (nla_nest_end api skb payload)
   }"

definition put_network :: "'s genl_api \<Rightarrow> 's \<Rightarrow> rkx_network_event \<Rightarrow> 's option" where
  "put_network api skb n = do {
     (skb, payload) \<leftarrow> nla_nest_start api skb (attr_code RKX_A_NETWORK);
     skb \<leftarrow> put_s32s api skb
       [(RKX_A_NETWORK_PROTO, ucast (ne_proto n)),
        (RKX_A_NETWORK_TARGET_UID, ne_target_uid n),
        (RKX_A_NETWORK_DATA_LEN, ne_data_len n)];
     Some (nla_nest_end api skb payload)
   }"

fun put_payload :: "'s genl_api \<Rightarrow> 's \<Rightarrow> rkx_event \<Rightarrow> 's option" where
  "put_payload api skb (EV_BINDER b) = put_binder api skb b"
| "put_payload api skb (EV_SIGNAL s) = put_signal api skb s"
| "put_payload api skb (EV_NETWORK n) = put_network api skb n"
| "put_payload api skb (EV_OTHER t) = None"

text \<open>From \<^verbatim>\<open>nla_nest_start(skb, RKX_A_EVENT)\<close> to its end; \<open>None\<close> is the jump to \<^verbatim>\<open>nla_fail\<close>.\<close>

definition put_event :: "'s genl_api \<Rightarrow> 's \<Rightarrow> rkx_event \<Rightarrow> 's option" where
  "put_event api skb event = do {
     (skb, evt) \<leftarrow> nla_nest_start api skb (attr_code RKX_A_EVENT);
     skb \<leftarrow> put_payload api skb event;
     Some (nla_nest_end api skb evt)
   }"

definition rkx_send_message :: "'s genl_api \<Rightarrow> rkx_event \<Rightarrow> int \<times> 's skb_fate list" where
  "rkx_send_message api event =
     (case genlmsg_new api (nla_total_size 256) of
        None \<Rightarrow> (RKX_ERROR, [])
      | Some skb0 \<Rightarrow>
          (case genlmsg_put api skb0 (cmd_code RKX_C_EVENT) of
             None \<Rightarrow> (RKX_ERROR, [Nlmsg_free skb0])
           | Some (skb, msg_head) \<Rightarrow>
               (case put_event api skb event of
                  None \<Rightarrow> (RKX_ERROR, [Nlmsg_free skb0])
                | Some skb \<Rightarrow>
                    (let skb = genlmsg_end api skb msg_head;
                         rc = genlmsg_multicast api skb
                     in if rc \<noteq> 0 \<and> rc \<noteq> - ESRCH then (RKX_ERROR, [Multicast skb])
                        else (RKX_SUCCESS, [Multicast skb])))))"

section \<open>Registration of the family\<close>

record genl_family_state =
  rkx_genl_registered :: bool
  family_known :: bool

definition rkx_netlink_ready :: "genl_family_state \<Rightarrow> bool" where
  "rkx_netlink_ready s = rkx_genl_registered s"

definition rkx_register_genl :: "int \<Rightarrow> genl_family_state \<Rightarrow> int \<times> genl_family_state" where
  "rkx_register_genl rc s =
     (if rc \<noteq> 0 then (RKX_ERROR, s)
      else (RKX_SUCCESS, s\<lparr>family_known := True, rkx_genl_registered := True\<rparr>))"

definition rkx_unregister_genl :: "genl_family_state \<Rightarrow> genl_family_state" where
  "rkx_unregister_genl s =
     (if rkx_genl_registered s then s\<lparr>family_known := False, rkx_genl_registered := False\<rparr> else s)"

interpretation genl_reg: registration rkx_register_genl "\<lambda>_. rkx_unregister_genl"
  "\<lambda>s. rkx_genl_registered s = family_known s" family_known family_known
  by unfold_locales (simp_all add: rkx_register_genl_def rkx_unregister_genl_def split: if_splits)

section \<open>Handlers: no out-of-bounds read, and the stores keep their invariants\<close>

definition rules_inv :: "hash_env \<Rightarrow> rkx_rules \<Rightarrow> bool" where
  "rules_inv env st \<longleftrightarrow> net_uid_inv env (rr_uids st) \<and> fa_inv env (rr_rules st)"

lemma get_u32_ok: "4 \<le> length d \<Longrightarrow> get_u32 d = Some (of_le32 (take 4 d))"
  by (simp add: get_u32_def load_def)

lemma get_u8_ok: "1 \<le> length d \<Longrightarrow> get_u8 d = Some (d ! 0)"
  by (cases d) (simp_all add: get_u8_def load8_def)

lemma validated:
  assumes "attrs_validated attrs"
  shows "attrs RKX_A_UID = Some d \<Longrightarrow> 4 \<le> length d"
    and "attrs RKX_A_FREE_ASYNC_CODE = Some d \<Longrightarrow> 4 \<le> length d"
    and "attrs RKX_A_FREE_ASYNC_STRATEGY = Some d \<Longrightarrow> 1 \<le> length d"
    and "attrs RKX_A_FREE_ASYNC_RPC_NAME = Some d \<Longrightarrow>
      0 \<in> set (take RKX_INTERFACETOKEN_BUFF_SIZE d)"
  using assms by (force simp: attrs_validated_def rkx_const)+

lemma del_inv:
  "fa_inv env st \<Longrightarrow> fa_inv env (fst (snd (rkx_del_free_async env (Some name) code st)))"
  by (rule del_free_async)

lemma handler_safe:
  assumes "rkx_genl_ops cmd = Some h" "attrs_validated attrs" "rules_inv (ge_hash env) st"
  shows "\<exists>rc st'. h env attrs st = Some (rc, st') \<and> rules_inv (ge_hash env) st'"
proof -
  note v = validated [OF assms(2)]
  have inv: "net_uid_inv (ge_hash env) (rr_uids st)" "fa_inv (ge_hash env) (rr_rules st)"
    using assms(3) by (simp_all add: rules_inv_def)
  have "\<exists>rc st'. rkx_genl_monitor_net env attrs st = Some (rc, st') \<and> rules_inv (ge_hash env) st'"
    using v(1) inv
    by (auto simp: rkx_genl_monitor_net_def rules_inv_def get_u32_ok add_net_uid split: option.splits)
  moreover have "\<exists>rc st'. rkx_genl_del_monitor_net env attrs st = Some (rc, st') \<and>
      rules_inv (ge_hash env) st'"
    using v(1) inv
    by (auto simp: rkx_genl_del_monitor_net_def rules_inv_def get_u32_ok del_net_uid
        split: option.splits)
  moreover have "\<exists>rc st'. rkx_genl_add_free_async env attrs st = Some (rc, st') \<and>
      rules_inv (ge_hash env) st'"
    using v(2,3) inv add_inv [OF inv(2)]
    by (auto simp: rkx_genl_add_free_async_def rules_inv_def get_u32_ok get_u8_ok
        split: option.splits prod.splits) (metis snd_conv)+
  moreover have "\<exists>rc st'. rkx_genl_del_free_async env attrs st = Some (rc, st') \<and>
      rules_inv (ge_hash env) st'"
    using v(2) inv del_inv [OF inv(2)]
    by (auto simp: rkx_genl_del_free_async_def rules_inv_def get_u32_ok
        split: option.splits prod.splits) (metis fst_conv snd_conv)+
  ultimately show ?thesis
    using assms(1) by (cases cmd) auto
qed

section \<open>The bytes of an event on the wire\<close>

text \<open>
  What the kernel documents of its message builders: through \<open>view\<close> they act as the reference
  operations of \<open>Rkx_Wire\<close>, and \<^verbatim>\<open>genlmsg_new(n)\<close> has room for the two headers
  and \<open>n\<close> bytes.
\<close>

definition genl_api_ok :: "'s genl_api \<Rightarrow> ('s \<Rightarrow> ref_skb) \<Rightarrow> u16 \<Rightarrow> bool" where
  "genl_api_ok api view fam \<longleftrightarrow>
     (\<forall>n s. genlmsg_new api n = Some s \<longrightarrow>
        ref_bytes (view s) = [] \<and> NLMSG_HDRLEN + GENL_HDRLEN + n \<le> ref_cap (view s)) \<and>
     (\<forall>s c. map_option (map_prod view id) (genlmsg_put api s c) = ref_genlmsg_put fam (view s) c) \<and>
     (\<forall>s t. map_option (map_prod view id) (nla_nest_start api s t) = ref_nest_start (view s) t) \<and>
     (\<forall>s t v. map_option view (nla_put_s32 api s t v) = ref_put (view s) t (le32 v)) \<and>
     (\<forall>s t d. map_option view (nla_put_string api s t d) = ref_put (view s) t (cstr d @ [0])) \<and>
     (\<forall>s n. view (nla_nest_end api s n) = ref_nest_end (view s) n) \<and>
     (\<forall>s n. view (genlmsg_end api s n) = ref_genlmsg_end (view s) n)"

lemma genl_api_okD:
  assumes "genl_api_ok api view fam"
  shows "genlmsg_new api n = Some s \<Longrightarrow> ref_bytes (view s) = [] \<and> 20 + n \<le> ref_cap (view s)"
    and "map_option (map_prod view id) (genlmsg_put api s c) = ref_genlmsg_put fam (view s) c"
    and "map_option (map_prod view id) (nla_nest_start api s t) = ref_nest_start (view s) t"
    and "map_option view (nla_put_s32 api s t v) = ref_put (view s) t (le32 v)"
    and "map_option view (nla_put_string api s t d) = ref_put (view s) t (cstr d @ [0])"
    and "view (nla_nest_end api s p) = ref_nest_end (view s) p"
    and "view (genlmsg_end api s p) = ref_genlmsg_end (view s) p"
  using assms by (simp_all add: genl_api_ok_def rkx_const)

text \<open>The attributes of each event, and the message that carries it.\<close>

definition s32_attrs :: "(rkx_genl_attr \<times> s32) list \<Rightarrow> (u16 \<times> bytes) list" where
  "s32_attrs l = map (\<lambda>(a, v). (attr_code a, le32 v)) l"

fun event_payload :: "rkx_event \<Rightarrow> rkx_genl_attr" where
  "event_payload (EV_BINDER b) = RKX_A_BINDER"
| "event_payload (EV_SIGNAL s) = RKX_A_SIGNAL"
| "event_payload (EV_NETWORK n) = RKX_A_NETWORK"
| "event_payload (EV_OTHER t) = RKX_A_UNSPEC"

fun event_attrs :: "rkx_event \<Rightarrow> (u16 \<times> bytes) list" where
  "event_attrs (EV_BINDER b) =
     s32_attrs
       [(RKX_A_BINDER_TYPE, ucast (be_binder_type b)),
        (RKX_A_BINDER_ONEWAY, ucast (be_oneway b)),
        (RKX_A_BINDER_FROM_PID, be_from_pid b),
        (RKX_A_BINDER_FROM_UID, be_from_uid b),
        (RKX_A_BINDER_TARGET_PID, be_target_pid b),
        (RKX_A_BINDER_TARGET_UID, be_target_uid b),
        (RKX_A_BINDER_CODE, be_code b)] @
     [(attr_code RKX_A_BINDER_RPC_NAME, cstr (be_rpc_name b) @ [0])]"
| "event_attrs (EV_SIGNAL s) =
     s32_attrs
       [(RKX_A_SIGNAL_SIGNAL, se_signal s),
        (RKX_A_SIGNAL_KILLER_PID, se_killer_pid s),
        (RKX_A_SIGNAL_KILLER_UID, se_killer_uid s),
        (RKX_A_SIGNAL_DST_PID, se_dst_pid s),
        (RKX_A_SIGNAL_DST_UID, se_dst_uid s)]"
| "event_attrs (EV_NETWORK n) =
     s32_attrs
       [(RKX_A_NETWORK_PROTO, ucast (ne_proto n)),
        (RKX_A_NETWORK_TARGET_UID, ne_target_uid n),
        (RKX_A_NETWORK_DATA_LEN, ne_data_len n)]"
| "event_attrs (EV_OTHER t) = []"

definition nested :: "rkx_genl_attr \<Rightarrow> bytes \<Rightarrow> bytes" where
  "nested a body = tlv (attr_code a OR NLA_F_NESTED) body"

definition event_body :: "rkx_event \<Rightarrow> bytes" where
  "event_body ev = nested RKX_A_EVENT (nested (event_payload ev) (tlvs (event_attrs ev)))"

definition event_msg :: "u16 \<Rightarrow> rkx_event \<Rightarrow> bytes" where
  "event_msg fam ev = genl_msg fam 0 0 (cmd_code RKX_C_EVENT) (event_body ev)"

text \<open>\<open>appends view s d res\<close>: \<open>res\<close> is a buffer that has \<open>d\<close> behind what \<open>s\<close> has.\<close>

definition appends :: "('s \<Rightarrow> ref_skb) \<Rightarrow> 's \<Rightarrow> bytes \<Rightarrow> 's option \<Rightarrow> bool" where
  "appends view s d res \<longleftrightarrow>
     (\<exists>s'. res = Some s' \<and> view s' = (view s)\<lparr>ref_bytes := ref_bytes (view s) @ d\<rparr>)"

definition room :: "('s \<Rightarrow> ref_skb) \<Rightarrow> 's \<Rightarrow> nat \<Rightarrow> bool" where
  "room view s n \<longleftrightarrow> length (ref_bytes (view s)) + n \<le> ref_cap (view s)"

lemma appends_bind:
  assumes "appends view s d r"
    and "\<And>s'. view s' = (view s)\<lparr>ref_bytes := ref_bytes (view s) @ d\<rparr> \<Longrightarrow> appends view s' d' (f s')"
  shows "appends view s (d @ d') (r \<bind> f)"
proof -
  from assms(1) obtain s' where "r = Some s'"
    and v: "view s' = (view s)\<lparr>ref_bytes := ref_bytes (view s) @ d\<rparr>"
    by (auto simp: appends_def)
  with assms(2) [OF v] show ?thesis by (auto simp: appends_def)
qed

lemma put_appends:
  assumes "map_option view r = ref_put (view s) t d" "room view s (nla_total_size (length d))"
  shows "appends view s (tlv t d) r"
  using assms by (auto simp: appends_def room_def ref_put_def ref_append_fits)

lemma put_s32s_appends:
  assumes ok: "genl_api_ok api view fam"
  shows "room view s (length (tlvs (s32_attrs l))) \<Longrightarrow>
    appends view s (tlvs (s32_attrs l)) (put_s32s api s l)"
proof (induction l arbitrary: s)
  case Nil
  then show ?case by (simp add: appends_def s32_attrs_def)
next
  case (Cons x l)
  obtain a v where x: "x = (a, v)" by (cases x)
  have first: "appends view s (tlv (attr_code a) (le32 v)) (nla_put_s32 api s (attr_code a) v)"
    using Cons.prems by (intro put_appends genl_api_okD(4) [OF ok]) (simp add: room_def s32_attrs_def x)
  have "appends view s (tlv (attr_code a) (le32 v) @ tlvs (s32_attrs l))
      (nla_put_s32 api s (attr_code a) v \<bind> (\<lambda>s. put_s32s api s l))"
    by (rule appends_bind [OF first], rule Cons.IH) (use Cons.prems in \<open>simp add: room_def s32_attrs_def x\<close>)
  then show ?case by (simp add: x s32_attrs_def)
qed

lemma nest_appends:
  assumes ok: "genl_api_ok api view fam"
    and body: "\<And>s'. view s' = (view s)\<lparr>ref_bytes := ref_bytes (view s) @ tlv (t OR NLA_F_NESTED) []\<rparr>
      \<Longrightarrow> appends view s' d (f s')"
    and "4 dvd length d" "room view s 4"
  shows "appends view s (tlv (t OR NLA_F_NESTED) d)
    (nla_nest_start api s t \<bind> (\<lambda>(s, p). f s \<bind> (\<lambda>s. Some (nla_nest_end api s p))))"
proof -
  have "map_option (map_prod view id) (nla_nest_start api s t) = Some
      ((view s)\<lparr>ref_bytes := ref_bytes (view s) @ tlv (t OR NLA_F_NESTED) []\<rparr>, length (ref_bytes (view s)))"
    using assms(4)
    by (simp add: genl_api_okD(3) [OF ok] ref_nest_start_def ref_append_fits room_def
        nla_total_size_def NLA_ALIGN_def NLA_HDRLEN_def)
  then obtain s1 where s1: "nla_nest_start api s t = Some (s1, length (ref_bytes (view s)))"
    and v1: "view s1 = (view s)\<lparr>ref_bytes := ref_bytes (view s) @ tlv (t OR NLA_F_NESTED) []\<rparr>"
    by auto
  from body [OF v1] obtain s2 where s2: "f s1 = Some s2"
    and v2: "view s2 = (view s1)\<lparr>ref_bytes := ref_bytes (view s1) @ d\<rparr>"
    by (auto simp: appends_def)
  have "ref_nest_end (view s2) (length (ref_bytes (view s))) =
      (view s2)\<lparr>ref_bytes := ref_bytes (view s) @ tlv (t OR NLA_F_NESTED) d\<rparr>"
    by (rule ref_nest_end_eq) (simp_all add: v2 v1 assms(3))
  then show ?thesis
    by (simp add: appends_def s1 s2 genl_api_okD(6) [OF ok]) (simp add: v1 v2)
qed

text \<open>The attributes of a well-formed event fit the 260 bytes \<^verbatim>\<open>rkx_send_message\<close> asks for.\<close>

lemma length_s32_attrs: "length (tlvs (s32_attrs l)) = 8 * length l"
  by (induction l) (auto simp: s32_attrs_def nla_total_size_def NLA_ALIGN_def NLA_HDRLEN_def)

lemma event_attrs_length:
  assumes "event_wf ev"
  shows "length (tlvs (event_attrs ev)) \<le> 200"
proof (cases ev)
  case (EV_BINDER b)
  with assms have "strlen (be_rpc_name b) < 140"
    using strlen_lt [of "be_rpc_name b"] by (simp add: rkx_const)
  moreover have "nla_total_size (Suc (strlen (be_rpc_name b))) < 5 + strlen (be_rpc_name b) + 4"
    using NLA_ALIGN_ge(2) [of "4 + Suc (strlen (be_rpc_name b))"]
    by (simp add: nla_total_size_def NLA_HDRLEN_def)
  moreover have "4 dvd nla_total_size (Suc (strlen (be_rpc_name b)))"
    by (simp add: nla_total_size_def NLA_ALIGN_dvd)
  ultimately have "nla_total_size (Suc (strlen (be_rpc_name b))) \<le> 144"
    by presburger
  with EV_BINDER show ?thesis by (simp add: length_s32_attrs strlen_def)
qed (use assms in \<open>simp_all add: length_s32_attrs\<close>)

lemma put_binder_eq:
  "put_binder api s b = nla_nest_start api s (attr_code RKX_A_BINDER) \<bind> (\<lambda>(s, p).
     (put_s32s api s
       [(RKX_A_BINDER_TYPE, ucast (be_binder_type b)),
        (RKX_A_BINDER_ONEWAY, ucast (be_oneway b)),
        (RKX_A_BINDER_FROM_PID, be_from_pid b),
        (RKX_A_BINDER_FROM_UID, be_from_uid b),
        (RKX_A_BINDER_TARGET_PID, be_target_pid b),
        (RKX_A_BINDER_TARGET_UID, be_target_uid b),
        (RKX_A_BINDER_CODE, be_code b)] \<bind>
      (\<lambda>s. nla_put_string api s (attr_code RKX_A_BINDER_RPC_NAME) (be_rpc_name b))) \<bind>
     (\<lambda>s. Some (nla_nest_end api s p)))"
  unfolding put_binder_def Option.bind_assoc ..

lemma tlvs_append_right: "tlvs as @ tlv t d = tlvs (as @ [(t, d)])"
  by simp

lemma put_payload_appends:
  assumes ok: "genl_api_ok api view fam" and wf: "event_wf ev"
    and r: "room view s (4 + length (tlvs (event_attrs ev)))"
  shows "appends view s (nested (event_payload ev) (tlvs (event_attrs ev))) (put_payload api s ev)"
proof (cases ev)
  case (EV_BINDER b)
  have 1: "room view s 4" using r by (simp add: room_def)
  show ?thesis
    unfolding EV_BINDER event_payload.simps put_payload.simps put_binder_eq nested_def
  proof (rule nest_appends [OF ok _ length_tlvs_dvd 1])
    fix s' assume v: "view s' = (view s)
      \<lparr>ref_bytes := ref_bytes (view s) @ tlv (attr_code RKX_A_BINDER OR NLA_F_NESTED) []\<rparr>"
    have "room view s' (length (tlvs (event_attrs ev)))"
      using r by (simp add: room_def v nla_total_size_def NLA_ALIGN_def NLA_HDRLEN_def)
    then show "appends view s' (tlvs (event_attrs (EV_BINDER b))) (put_s32s api s'
       [(RKX_A_BINDER_TYPE, ucast (be_binder_type b)),
        (RKX_A_BINDER_ONEWAY, ucast (be_oneway b)),
        (RKX_A_BINDER_FROM_PID, be_from_pid b),
        (RKX_A_BINDER_FROM_UID, be_from_uid b),
        (RKX_A_BINDER_TARGET_PID, be_target_pid b),
        (RKX_A_BINDER_TARGET_UID, be_target_uid b),
        (RKX_A_BINDER_CODE, be_code b)] \<bind>
      (\<lambda>s. nla_put_string api s (attr_code RKX_A_BINDER_RPC_NAME) (be_rpc_name b)))"
      unfolding event_attrs.simps tlvs_append_right [symmetric]
      by (intro appends_bind put_s32s_appends [OF ok] put_appends genl_api_okD(5) [OF ok])
        (simp_all add: room_def EV_BINDER length_s32_attrs)
  qed
next
  case (EV_SIGNAL sg)
  then show ?thesis
    unfolding EV_SIGNAL event_payload.simps put_payload.simps put_signal_def nested_def event_attrs.simps
    using r by (intro nest_appends [OF ok] length_tlvs_dvd put_s32s_appends [OF ok])
      (simp_all add: EV_SIGNAL room_def length_s32_attrs nla_total_size_def NLA_ALIGN_def NLA_HDRLEN_def)
next
  case (EV_NETWORK n)
  then show ?thesis
    unfolding EV_NETWORK event_payload.simps put_payload.simps put_network_def nested_def event_attrs.simps
    using r by (intro nest_appends [OF ok] length_tlvs_dvd put_s32s_appends [OF ok])
      (simp_all add: EV_NETWORK room_def length_s32_attrs nla_total_size_def NLA_ALIGN_def NLA_HDRLEN_def)
qed (use wf in simp)

lemma nested_dvd: "4 dvd length (nested a d)"
  by (simp add: nested_def nla_total_size_def NLA_ALIGN_dvd)

lemma put_event_appends:
  assumes ok: "genl_api_ok api view fam" and wf: "event_wf ev"
    and r: "room view s (8 + length (tlvs (event_attrs ev)))"
  shows "appends view s (event_body ev) (put_event api s ev)"
proof -
  have 1: "room view s 4" using r by (simp add: room_def)
  show ?thesis
    unfolding put_event_def event_body_def nested_def [of RKX_A_EVENT]
    by (rule nest_appends [OF ok _ nested_dvd 1], rule put_payload_appends [OF ok wf])
      (use r in \<open>simp add: room_def nla_total_size_def NLA_ALIGN_def NLA_HDRLEN_def\<close>)
qed

lemma send_message_bytes:
  assumes ok: "genl_api_ok api view fam" and wf: "event_wf ev"
    and new: "genlmsg_new api (nla_total_size 256) = Some s"
  shows "\<exists>skb. ref_bytes (view skb) = event_msg fam ev \<and>
    rkx_send_message api ev =
      (if genlmsg_multicast api skb \<in> {0, - ESRCH} then RKX_SUCCESS else RKX_ERROR, [Multicast skb])"
proof -
  have s: "ref_bytes (view s) = []" "280 \<le> ref_cap (view s)"
    using genl_api_okD(1) [OF ok new] by (auto simp: nla_total_size_def NLA_ALIGN_def NLA_HDRLEN_def)
  then have "map_option (map_prod view id) (genlmsg_put api s (cmd_code RKX_C_EVENT)) =
      Some ((view s)\<lparr>ref_bytes := genl_header 20 fam 0 0 (cmd_code RKX_C_EVENT)\<rparr>, 0)"
    by (simp add: genl_api_okD(2) [OF ok] ref_genlmsg_put_def ref_append_fits)
  then obtain s1 where s1: "genlmsg_put api s (cmd_code RKX_C_EVENT) = Some (s1, 0)"
    and v1: "view s1 = (view s)\<lparr>ref_bytes := genl_header 20 fam 0 0 (cmd_code RKX_C_EVENT)\<rparr>"
    by auto
  have "room view s1 (8 + length (tlvs (event_attrs ev)))"
    using s event_attrs_length [OF wf] by (simp add: room_def v1)
  from put_event_appends [OF ok wf this] obtain s2 where s2: "put_event api s1 ev = Some s2"
    and v2: "view s2 = (view s1)\<lparr>ref_bytes := ref_bytes (view s1) @ event_body ev\<rparr>"
    by (auto simp: appends_def)
  have "ref_bytes (view (genlmsg_end api s2 0)) = event_msg fam ev"
    by (simp add: genl_api_okD(7) [OF ok] event_msg_def ref_genlmsg_end_eq v2 v1)
  moreover have "rkx_send_message api ev =
      (if genlmsg_multicast api (genlmsg_end api s2 0) \<in> {0, - ESRCH} then RKX_SUCCESS else RKX_ERROR,
       [Multicast (genlmsg_end api s2 0)])"
    by (simp add: rkx_send_message_def new s1 s2 Let_def del: cmd_code.simps)
  ultimately show ?thesis by blast
qed

section \<open>Properties\<close>

text \<open>
  A sequence of requests: the netlink core looks the command up in the operations of the family and
  calls its handler; a command without one is refused before it reaches the module.
\<close>

fun genl_run :: "genl_env \<Rightarrow> (rkx_genl_cmd \<times> genl_attrs) list \<Rightarrow> rkx_rules \<Rightarrow> rkx_rules option" where
  "genl_run env [] st = Some st"
| "genl_run env ((cmd, attrs) # rs) st =
     (case rkx_genl_ops cmd of
        None \<Rightarrow> genl_run env rs st
      | Some h \<Rightarrow> h env attrs st \<bind> (\<lambda>(rc, st). genl_run env rs st))"

definition init_rules :: rkx_rules where
  "init_rules = \<lparr>rr_uids = rkx_init_net_uid, rr_rules = rkx_init_free_async\<rparr>"

text \<open>A request to add the rule \<open>name\<close>, \<open>code\<close>, \<open>strategy\<close>, and one to monitor a uid.\<close>

definition rule_attrs :: "bytes \<Rightarrow> s32 \<Rightarrow> u8 \<Rightarrow> genl_attrs" where
  "rule_attrs name code strategy =
     [RKX_A_FREE_ASYNC_RPC_NAME \<mapsto> name @ [0], RKX_A_FREE_ASYNC_CODE \<mapsto> le32 code,
      RKX_A_FREE_ASYNC_STRATEGY \<mapsto> [strategy]]"

definition uid_attrs :: "u32 \<Rightarrow> genl_attrs" where
  "uid_attrs uid = [RKX_A_UID \<mapsto> le32 uid]"

text \<open>The netlink functions of the kernel as their documentation describes them, for examples.\<close>

definition ref_api :: "u16 \<Rightarrow> (ref_skb \<Rightarrow> int) \<Rightarrow> ref_skb genl_api" where
  "ref_api fam mc = \<lparr>genlmsg_new = (\<lambda>n. Some \<lparr>ref_bytes = [], ref_cap = NLMSG_HDRLEN + GENL_HDRLEN + n\<rparr>),
     genlmsg_put = ref_genlmsg_put fam, nla_nest_start = ref_nest_start,
     nla_put_s32 = (\<lambda>s t v. ref_put s t (le32 v)),
     nla_put_string = (\<lambda>s t d. ref_put s t (cstr d @ [0])),
     nla_nest_end = ref_nest_end, genlmsg_end = ref_genlmsg_end, genlmsg_multicast = mc\<rparr>"

definition sample_genl_env :: genl_env where
  "sample_genl_env = \<lparr>ge_hash = sample_hash, ge_kmalloc_uid = Some \<lparr>ui_uid = 0\<rparr>,
     ge_kmalloc_rule = Some sample_entry\<rparr>"

lemma ref_api_ok: "genl_api_ok (ref_api fam mc) id fam"
  by (simp add: genl_api_ok_def ref_api_def prod.map_id0 option.map_id0 option.map_id)

lemma init_rules_inv: "hash_env_ok env \<Longrightarrow> rules_inv env init_rules"
  by (simp add: rules_inv_def init_rules_def init_net_uid init_free_async)

lemma uid_attrs_validated: "attrs_validated (uid_attrs uid)"
  by (simp add: attrs_validated_def uid_attrs_def)

lemma empty_attrs_validated: "attrs_validated Map.empty"
  by (simp add: attrs_validated_def)

lemma sample_genl_hash: "ge_hash sample_genl_env = sample_hash"
  by (simp add: sample_genl_env_def)

lemma genl_run_inv:
  assumes "\<forall>(cmd, attrs) \<in> set rs. attrs_validated attrs" "rules_inv (ge_hash env) st"
  shows "\<exists>st'. genl_run env rs st = Some st' \<and> rules_inv (ge_hash env) st'"
  using assms
proof (induction rs arbitrary: st)
  case (Cons r rs)
  obtain cmd attrs where r: "r = (cmd, attrs)" by (cases r)
  with Cons.prems have v: "attrs_validated attrs" "\<forall>(cmd, attrs) \<in> set rs. attrs_validated attrs"
    by auto
  show ?case
  proof (cases "rkx_genl_ops cmd")
    case None
    with Cons.IH [OF v(2) Cons.prems(2)] show ?thesis by (simp add: r)
  next
    case (Some h)
    obtain rc st1 where h: "h env attrs st = Some (rc, st1)" "rules_inv (ge_hash env) st1"
      using handler_safe [OF Some v(1) Cons.prems(2)] by blast
    from Cons.IH [OF v(2) h(2)] show ?thesis by (simp add: r Some h(1))
  qed
qed simp



text \<open>
  C8: what arrives at the listeners. When the buffer could be allocated, the message the module hands
  to the multicast is exactly the encoding of the event: it always fits, so no event is dropped for
  its size, and the result is success unless the multicast failed for another reason than that nobody
  listens.
\<close>

theorem send_message_encodes:
  assumes "genl_api_ok api view fam" "event_wf ev"
    and "genlmsg_new api (nla_total_size 256) = Some s"
  shows "\<exists>skb. ref_bytes (view skb) = event_msg fam ev \<and>
    rkx_send_message api ev =
      (if genlmsg_multicast api skb \<in> {0, - ESRCH} then RKX_SUCCESS else RKX_ERROR, [Multicast skb])"
  by (rule send_message_bytes [OF assms])

theorem send_message_encodes_witness:
  "\<exists>skb. ref_bytes skb = event_msg 28 (EV_NETWORK \<lparr>ne_proto = 4, ne_target_uid = 10086, ne_data_len = 4\<rparr>) \<and>
     rkx_send_message (ref_api 28 (\<lambda>_. - 3))
       (EV_NETWORK \<lparr>ne_proto = 4, ne_target_uid = 10086, ne_data_len = 4\<rparr>) = (0, [Multicast skb])"
  using send_message_encodes [OF ref_api_ok, of
      "EV_NETWORK \<lparr>ne_proto = 4, ne_target_uid = 10086, ne_data_len = 4\<rparr>" 28 "\<lambda>_. - 3"]
  by (simp add: ref_api_def RKX_SUCCESS_def ESRCH_def)

text \<open>
  The buffer of a message is disposed of exactly once on every path, whatever the netlink
  functions return: it is either freed or given to the multicast, never both, and a message that is
  not multicast is an error.
\<close>

theorem send_message_no_leak:
  "length (snd (rkx_send_message api ev)) =
     (if genlmsg_new api (nla_total_size 256) = None then 0 else 1) \<and>
   (fst (rkx_send_message api ev) = RKX_SUCCESS \<longleftrightarrow>
     (\<exists>skb. snd (rkx_send_message api ev) = [Multicast skb] \<and> genlmsg_multicast api skb \<in> {0, - ESRCH}))"
  by (simp add: rkx_send_message_def Let_def split: option.splits)

end
