(* ===== verification/Rkx_Signal.thy ===== *)
theory Rkx_Signal
  imports Rkx_Hook Rkx_Frozen
begin

text \<open>
  \<^verbatim>\<open>LKM-Source/rkx_signal.c\<close>: the signal hook and its registration.
\<close>

definition SIGQUIT :: s32 where "SIGQUIT = 3"
definition SIGABRT :: s32 where "SIGABRT = 6"
definition SIGKILL :: s32 where "SIGKILL = 9"
definition SIGTERM :: s32 where "SIGTERM = 15"

definition rkx_do_send_sig_info_vh ::
  "kernel \<Rightarrow> bool \<Rightarrow> s32 \<times> task_ref option \<times> task_ref option \<Rightarrow> rkx_event list option" where
  "rkx_do_send_sig_info_vh k ready = (\<lambda>(sig, killer, dst).
     case (dst, killer) of
       (Some dst, Some killer) \<Rightarrow>
         if rkx_is_frozen k dst \<and>
            (sig = SIGKILL \<or> sig = SIGTERM \<or> sig = SIGABRT \<or> sig = SIGQUIT) \<and> ready
         then
           Some [EV_SIGNAL \<lparr>se_signal = sig,
                   se_killer_pid = tsk_tgid (task k killer), se_killer_uid = tsk_uid (task k killer),
                   se_dst_pid = tsk_tgid (task k dst), se_dst_uid = tsk_uid (task k dst)\<rparr>]
         else Some []
     | _ \<Rightarrow> Some [])"

interpretation sig_hook: event_hook "\<lambda>_ _. True" rkx_do_send_sig_info_vh
  by unfold_locales (auto simp: rkx_do_send_sig_info_vh_def split: option.splits)

record signal_hooks =
  rkx_signal_hooked :: bool
  sh_attached :: bool

definition rkx_register_signal :: "int \<Rightarrow> signal_hooks \<Rightarrow> int \<times> signal_hooks" where
  "rkx_register_signal rc s =
     (if rc \<noteq> RKX_SUCCESS then (rc, s)
      else (RKX_SUCCESS, s\<lparr>sh_attached := True, rkx_signal_hooked := True\<rparr>))"

definition rkx_unregister_signal :: "signal_hooks \<Rightarrow> signal_hooks" where
  "rkx_unregister_signal s =
     (if rkx_signal_hooked s then s\<lparr>sh_attached := False, rkx_signal_hooked := False\<rparr> else s)"

interpretation signal_reg: registration rkx_register_signal "\<lambda>_. rkx_unregister_signal"
  "\<lambda>s. rkx_signal_hooked s = sh_attached s" sh_attached sh_attached
  by unfold_locales (simp_all add: rkx_register_signal_def rkx_unregister_signal_def split: if_splits)

section \<open>Properties\<close>


end
