(* ===== verification/Rkx_Netfilter.thy ===== *)
theory Rkx_Netfilter
  imports Rkx_Hook Rkx_Netuid
begin

text \<open>
  \<^verbatim>\<open>LKM-Source/rkx_netfilter.c\<close>: the local-input hook that reports TCP traffic for the
  monitored uids, and its registration in every network namespace. A packet is the byte list from its
  network header. The kernel's \<^verbatim>\<open>pskb_may_pull\<close> and \<^verbatim>\<open>ipv6_find_hdr\<close> are
  fields of the environment, and so are the facts the kernel knows of the packet's socket. A header
  read beyond the packet is a fault (\<open>None\<close>).
\<close>

section \<open>Packets and environment\<close>

record sock =
  sk_fullsock :: bool
  sk_socket_uid :: "u32 option"

record nf_hook_state =
  st_hook :: nat
  st_in :: bool

record nf_input =
  in_skb :: "bytes option"
  in_state :: "nf_hook_state option"
  in_sk :: "sock option"

record nf_env =
  nf_hash :: hash_env
  nf_uids :: uid_table
  CONFIG_IPV6 :: bool
  pskb_may_pull :: "bytes \<Rightarrow> u32 \<Rightarrow> bool"
  ipv6_find_hdr :: "bytes \<Rightarrow> int \<times> u32"

definition NF_ACCEPT :: nat where "NF_ACCEPT = 1"
definition NF_INET_LOCAL_IN :: nat where "NF_INET_LOCAL_IN = 1"
definition IPPROTO_TCP :: nat where "IPPROTO_TCP = 6"
definition sizeof_iphdr :: u32 where "sizeof_iphdr = 20"
definition sizeof_ipv6hdr :: u64 where "sizeof_ipv6hdr = 40"
definition sizeof_tcphdr :: u64 where "sizeof_tcphdr = 20"

text \<open>
  Documented behaviour of the kernel functions: a successful pull means the packet has that many
  bytes, and the transport header \<^verbatim>\<open>ipv6_find_hdr\<close> finds starts within the packet.
\<close>

definition nf_env_ok :: "nf_env \<Rightarrow> nf_input \<Rightarrow> bool" where
  "nf_env_ok env i \<longleftrightarrow> (\<forall>pkt. in_skb i = Some pkt \<longrightarrow>
     length pkt < 2 ^ 31 \<and>
     (\<forall>n. pskb_may_pull env pkt n \<longrightarrow> unat n \<le> length pkt) \<and>
     (0 \<le> fst (ipv6_find_hdr env pkt) \<longrightarrow>
        40 \<le> unat (snd (ipv6_find_hdr env pkt)) \<and> unat (snd (ipv6_find_hdr env pkt)) \<le> length pkt))"

definition rkx_sock_to_uid :: "sock option \<Rightarrow> u32" where
  "rkx_sock_to_uid sk =
     (case sk of
        Some s \<Rightarrow> (case sk_socket_uid s of Some uid \<Rightarrow> uid | None \<Rightarrow> 0)
      | None \<Rightarrow> 0)"

section \<open>Header fields\<close>

text \<open>\<^verbatim>\<open>struct iphdr\<close>, \<^verbatim>\<open>struct ipv6hdr\<close> and \<^verbatim>\<open>struct tcphdr\<close> as laid out on the wire.\<close>

definition ip_version :: "bytes \<Rightarrow> nat option" where
  "ip_version pkt = map_option (\<lambda>b. unat (drop_bit 4 b)) (load8 pkt 0)"

definition ip_ihl :: "bytes \<Rightarrow> u32 option" where
  "ip_ihl pkt = map_option (\<lambda>b. ucast (b AND 15)) (load8 pkt 0)"

definition ip_protocol :: "bytes \<Rightarrow> nat option" where
  "ip_protocol pkt = map_option unat (load8 pkt 9)"

definition ip_tot_len :: "bytes \<Rightarrow> u16 option" where
  "ip_tot_len pkt = map_option of_be16 (load pkt 2 2)"

definition ip6_payload_len :: "bytes \<Rightarrow> u16 option" where
  "ip6_payload_len pkt = map_option of_be16 (load pkt 4 2)"

definition tcp_doff :: "bytes \<Rightarrow> nat \<Rightarrow> u8 option" where
  "tcp_doff pkt th = map_option (\<lambda>b. drop_bit 4 b) (load8 pkt (th + 12))"

text \<open>The \<^verbatim>\<open>syn\<close>, \<^verbatim>\<open>fin\<close> and \<^verbatim>\<open>rst\<close> bits: is any of them set?\<close>

definition tcp_syn_fin_rst :: "bytes \<Rightarrow> nat \<Rightarrow> bool option" where
  "tcp_syn_fin_rst pkt th = map_option (\<lambda>b. bit b 1 \<or> bit b 0 \<or> bit b 2) (load8 pkt (th + 13))"

section \<open>Parsing\<close>

text \<open>
  A result \<open>Some None\<close> is the return value \<open>-1\<close> (pass the packet through), \<open>Some (Some (proto,
  data_len))\<close> the return value \<open>0\<close> with its two out-parameters. The lengths are computed in the
  unsigned type of the C expression and then read as an \<^verbatim>\<open>int\<close>.
\<close>

definition ipv4_data_len :: "u16 \<Rightarrow> u32 \<Rightarrow> u8 \<Rightarrow> s32" where
  "ipv4_data_len tot_len ip_hdr_len doff = ucast tot_len - ip_hdr_len - push_bit 2 (ucast doff)"

definition ipv6_data_len :: "u16 \<Rightarrow> u32 \<Rightarrow> u8 \<Rightarrow> s32" where
  "ipv6_data_len payload_len thoff doff =
     ucast (ucast payload_len - (ucast thoff - sizeof_ipv6hdr) - push_bit 2 (ucast doff) :: u64)"

definition rkx_parse_tcp_ipv4 :: "nf_env \<Rightarrow> bytes \<Rightarrow> (u8 \<times> s32) option option" where
  "rkx_parse_tcp_ipv4 env skb =
     (if \<not> pskb_may_pull env skb sizeof_iphdr then Some None
      else
        (case (ip_protocol skb, ip_ihl skb, ip_tot_len skb) of
           (Some protocol, Some ihl, Some tot_len) \<Rightarrow>
             if protocol \<noteq> IPPROTO_TCP then Some None
             else
               (let ip_hdr_len = push_bit 2 ihl
                in if \<not> pskb_may_pull env skb (ip_hdr_len + ucast sizeof_tcphdr) then Some None
                   else
                     (case (tcp_doff skb (unat ip_hdr_len), tcp_syn_fin_rst skb (unat ip_hdr_len)) of
                        (Some doff, Some flags) \<Rightarrow>
                          (let data_len = ipv4_data_len tot_len ip_hdr_len doff
                           in if sint data_len \<le> 0 \<and> \<not> flags then Some None
                              else Some (Some (RKX_NET_PROTO_IPV4, data_len)))
                      | _ \<Rightarrow> None))
         | _ \<Rightarrow> None))"

definition rkx_parse_tcp_ipv6 :: "nf_env \<Rightarrow> bytes \<Rightarrow> (u8 \<times> s32) option option" where
  "rkx_parse_tcp_ipv6 env skb =
     (if \<not> pskb_may_pull env skb (ucast sizeof_ipv6hdr) then Some None
      else
        (let (ret, thoff) = ipv6_find_hdr env skb
         in if ret \<noteq> int IPPROTO_TCP then Some None
            else if \<not> pskb_may_pull env skb (ucast (ucast thoff + sizeof_tcphdr)) then Some None
            else
              (case (ip6_payload_len skb, tcp_doff skb (unat thoff),
                     tcp_syn_fin_rst skb (unat thoff)) of
                 (Some payload_len, Some doff, Some flags) \<Rightarrow>
                   (let data_len = ipv6_data_len payload_len thoff doff
                    in if sint data_len \<le> 0 \<and> \<not> flags then Some None
                       else Some (Some (RKX_NET_PROTO_IPV6, data_len)))
               | _ \<Rightarrow> None)))"

section \<open>The hook\<close>

text \<open>The choice of the parser by the version field of the first header byte.\<close>

definition nf_parse :: "nf_env \<Rightarrow> bytes \<Rightarrow> (u8 \<times> s32) option option" where
  "nf_parse env skb =
     (case ip_version skb of
        None \<Rightarrow> None
      | Some version \<Rightarrow>
          if version = 4 then rkx_parse_tcp_ipv4 env skb
          else if CONFIG_IPV6 env \<and> version = 6 then rkx_parse_tcp_ipv6 env skb
          else Some None)"

definition rkx_nf_local_in ::
  "nf_env \<Rightarrow> bool \<Rightarrow> nf_input \<Rightarrow> (nat \<times> rkx_event list) option" where
  "rkx_nf_local_in env ready i =
     (case (in_skb i, in_state i) of
        (Some skb, Some state) \<Rightarrow>
          if skb = [] then Some (NF_ACCEPT, [])
          else if st_hook state \<noteq> NF_INET_LOCAL_IN \<or> \<not> st_in state then Some (NF_ACCEPT, [])
          else
            (case in_sk i of
               None \<Rightarrow> Some (NF_ACCEPT, [])
             | Some sk \<Rightarrow>
                 if \<not> sk_fullsock sk then Some (NF_ACCEPT, [])
                 else
                   (let uid = rkx_sock_to_uid (Some sk)
                    in if uid < RKX_MIN_APP_UID then Some (NF_ACCEPT, [])
                       else if \<not> rkx_net_uid_monitored_rcu (nf_hash env) (nf_uids env) uid
                       then Some (NF_ACCEPT, [])
                       else
                         (case nf_parse env skb of
                            None \<Rightarrow> None
                          | Some None \<Rightarrow> Some (NF_ACCEPT, [])
                          | Some (Some (proto, data_len)) \<Rightarrow>
                              if ready then
                                Some (NF_ACCEPT, [EV_NETWORK \<lparr>ne_proto = proto,
                                        ne_target_uid = uid, ne_data_len = data_len\<rparr>])
                              else Some (NF_ACCEPT, []))))
      | _ \<Rightarrow> Some (NF_ACCEPT, []))"

section \<open>Reads stay inside the packet\<close>

lemma load8_ok: "off < length pkt \<Longrightarrow> \<exists>b. load8 pkt off = Some b"
  by (simp add: load8_def)

lemma ihl_bound: "ip_ihl pkt = Some ihl \<Longrightarrow> unat (push_bit 2 ihl) = 4 * unat ihl \<and> unat ihl \<le> 15"
proof -
  assume "ip_ihl pkt = Some ihl"
  then obtain b :: u8 where ihl: "ihl = ucast (b AND 15)" by (auto simp: ip_ihl_def)
  have "unat (b AND 15) \<le> unat (15 :: u8)"
    by (rule word_and_le1 [THEN word_le_nat_alt [THEN iffD1]])
  then have i: "unat ihl \<le> 15" by (simp add: ihl unat_ucast_up)
  then have "unat (push_bit 2 ihl) = 4 * unat ihl"
    by (simp add: push_bit_eq_mult unat_mult_lem [THEN iffD1] mult.commute unat_word_ariths)
  with i show ?thesis by simp
qed

lemma parse_ipv4_safe:
  assumes "\<And>n. pskb_may_pull env pkt n \<Longrightarrow> unat n \<le> length pkt"
  shows "rkx_parse_tcp_ipv4 env pkt \<noteq> None"
proof (cases "pskb_may_pull env pkt sizeof_iphdr")
  case True
  then have len: "20 \<le> length pkt" using assms by (force simp: sizeof_iphdr_def)
  then have "pkt \<noteq> []" by auto
  with len obtain protocol ihl tot_len where
    fields: "ip_protocol pkt = Some protocol" "ip_ihl pkt = Some ihl" "ip_tot_len pkt = Some tot_len"
    by (auto simp: ip_protocol_def ip_ihl_def ip_tot_len_def load8_def load_def)
  note ihl = ihl_bound [OF fields(2)]
  have "unat (push_bit 2 ihl + ucast sizeof_tcphdr) = 4 * unat ihl + 20"
    using ihl by (simp add: sizeof_tcphdr_def unat_word_ariths)
  then have "\<exists>doff flags. tcp_doff pkt (unat (push_bit 2 ihl)) = Some doff \<and>
      tcp_syn_fin_rst pkt (unat (push_bit 2 ihl)) = Some flags"
    if "pskb_may_pull env pkt (push_bit 2 ihl + ucast sizeof_tcphdr)"
    using assms [OF that] ihl by (simp add: tcp_doff_def tcp_syn_fin_rst_def load8_def)
  with True fields show ?thesis
    by (auto simp: rkx_parse_tcp_ipv4_def Let_def)
qed (simp add: rkx_parse_tcp_ipv4_def)

lemma parse_ipv6_safe:
  assumes pull: "\<And>n. pskb_may_pull env pkt n \<Longrightarrow> unat n \<le> length pkt"
    and len: "length pkt < 2 ^ 31"
    and hdr: "0 \<le> fst (ipv6_find_hdr env pkt) \<Longrightarrow> unat (snd (ipv6_find_hdr env pkt)) \<le> length pkt"
  shows "rkx_parse_tcp_ipv6 env pkt \<noteq> None"
proof (cases "pskb_may_pull env pkt (ucast sizeof_ipv6hdr)")
  case True
  then have "40 \<le> length pkt" using pull by (force simp: sizeof_ipv6hdr_def)
  then obtain payload_len where p: "ip6_payload_len pkt = Some payload_len"
    by (auto simp: ip6_payload_len_def load_def)
  obtain ret thoff where f: "ipv6_find_hdr env pkt = (ret, thoff)"
    by (cases "ipv6_find_hdr env pkt")
  have "\<exists>doff flags. tcp_doff pkt (unat thoff) = Some doff \<and> tcp_syn_fin_rst pkt (unat thoff) = Some flags"
    if "ret = int IPPROTO_TCP" "pskb_may_pull env pkt (ucast (ucast thoff + sizeof_tcphdr))"
  proof -
    have "unat thoff < 2 ^ 31" using hdr len f that(1) by (simp add: IPPROTO_TCP_def)
    then have "unat (ucast (ucast thoff + sizeof_tcphdr :: u64) :: u32) = unat thoff + 20"
      by (simp add: sizeof_tcphdr_def unat_word_ariths unsigned_ucast_eq take_bit_nat_eq_self)
    with pull [OF that(2)] show ?thesis
      by (simp add: tcp_doff_def tcp_syn_fin_rst_def load8_def)
  qed
  with True p f show ?thesis
    by (auto simp: rkx_parse_tcp_ipv6_def Let_def)
qed (simp add: rkx_parse_tcp_ipv6_def)

lemma nf_parse_safe:
  assumes "nf_env_ok env i" "in_skb i = Some pkt" "pkt \<noteq> []"
  shows "nf_parse env pkt \<noteq> None"
proof -
  from assms(3) obtain v where "ip_version pkt = Some v"
    by (auto simp: ip_version_def load8_def)
  moreover have "rkx_parse_tcp_ipv4 env pkt \<noteq> None" "rkx_parse_tcp_ipv6 env pkt \<noteq> None"
    using assms(1,2) parse_ipv4_safe [of env pkt] parse_ipv6_safe [of env pkt]
    by (auto simp: nf_env_ok_def)
  ultimately show ?thesis by (simp add: nf_parse_def)
qed

text \<open>The one equation of the hook: it never faults, always accepts, and sends when it should.\<close>

definition nf_reports :: "nf_env \<Rightarrow> nf_input \<Rightarrow> (u32 \<times> u8 \<times> s32) option" where
  "nf_reports env i =
     (case (in_skb i, in_state i, in_sk i) of
        (Some skb, Some state, Some sk) \<Rightarrow>
          if skb \<noteq> [] \<and> st_hook state = NF_INET_LOCAL_IN \<and> st_in state \<and> sk_fullsock sk \<and>
             rkx_sock_to_uid (Some sk) \<ge> RKX_MIN_APP_UID \<and>
             rkx_net_uid_monitored_rcu (nf_hash env) (nf_uids env) (rkx_sock_to_uid (Some sk))
          then
            (case nf_parse env skb of
               Some (Some (proto, data_len)) \<Rightarrow> Some (rkx_sock_to_uid (Some sk), proto, data_len)
             | _ \<Rightarrow> None)
          else None
      | _ \<Rightarrow> None)"

lemma nf_local_in_eq:
  assumes "nf_env_ok env i"
  shows "rkx_nf_local_in env ready i = Some (NF_ACCEPT,
    case nf_reports env i of
      Some (uid, proto, data_len) \<Rightarrow>
        if ready then [EV_NETWORK \<lparr>ne_proto = proto, ne_target_uid = uid, ne_data_len = data_len\<rparr>]
        else []
    | None \<Rightarrow> [])"
proof (cases "in_skb i")
  case None
  then show ?thesis by (simp add: rkx_nf_local_in_def nf_reports_def)
next
  case (Some pkt)
  show ?thesis
  proof (cases "in_state i")
    case None
    with Some show ?thesis by (simp add: rkx_nf_local_in_def nf_reports_def)
  next
    case state: (Some st)
    have "nf_parse env pkt \<noteq> None" if "pkt \<noteq> []"
      using nf_parse_safe [OF assms Some that] .
    with Some state show ?thesis
      by (cases "in_sk i"; cases "nf_parse env pkt")
         (auto simp: rkx_nf_local_in_def nf_reports_def Let_def not_less split: option.splits)
  qed
qed

interpretation nf_hook: event_hook nf_env_ok
  "\<lambda>env ready i. map_option snd (rkx_nf_local_in env ready i)"
  by unfold_locales (auto simp: nf_local_in_eq split: option.splits)

section \<open>The reported length\<close>

lemma sint_of_int_small:
  "- 2147483648 \<le> k \<Longrightarrow> k < 2147483648 \<Longrightarrow> sint (word_of_int k :: s32) = k"
  by (simp add: signed_of_int signed_take_bit_int_eq_self)

lemma u16_range: "0 \<le> uint (w :: u16)" "uint (w :: u16) < 65536"
  using unsigned_less [of w] by simp_all

lemma u8_range: "0 \<le> uint (w :: u8)" "uint (w :: u8) < 256"
  using unsigned_less [of w] by simp_all

lemma ipv4_data_len_exact:
  assumes "uint ip_hdr_len \<le> 60"
  shows "sint (ipv4_data_len tot_len ip_hdr_len doff) =
    uint tot_len - uint ip_hdr_len - 4 * uint doff"
proof -
  have "ipv4_data_len tot_len ip_hdr_len doff =
      word_of_int (uint tot_len - uint ip_hdr_len - 4 * uint doff)"
    unfolding ipv4_data_len_def by (simp add: push_bit_eq_mult)
  then have "sint (ipv4_data_len tot_len ip_hdr_len doff) =
      sint (word_of_int (uint tot_len - uint ip_hdr_len - 4 * uint doff) :: s32)"
    by (rule arg_cong)
  also have "\<dots> = uint tot_len - uint ip_hdr_len - 4 * uint doff"
    using assms u16_range [of tot_len] u8_range [of doff] uint_ge_0 [of ip_hdr_len]
    by (intro sint_of_int_small) linarith+
  finally show ?thesis .
qed

lemma ipv6_data_len_exact:
  assumes "40 \<le> uint thoff" "uint thoff < 1073741824"
  shows "sint (ipv6_data_len payload_len thoff doff) =
    uint payload_len - (uint thoff - 40) - 4 * uint doff"
proof -
  have "(ucast payload_len - (ucast thoff - sizeof_ipv6hdr) - push_bit 2 (ucast doff) :: u64) =
      word_of_int (uint payload_len - (uint thoff - 40) - 4 * uint doff)"
    unfolding sizeof_ipv6hdr_def by (simp add: push_bit_eq_mult)
  then have "sint (ipv6_data_len payload_len thoff doff) =
      sint (word_of_int (uint payload_len - (uint thoff - 40) - 4 * uint doff) :: s32)"
    by (simp only: ipv6_data_len_def ucast_of_int_64_32)
  also have "\<dots> = uint payload_len - (uint thoff - 40) - 4 * uint doff"
    using assms u16_range [of payload_len] u8_range [of doff]
    by (intro sint_of_int_small) linarith+
  finally show ?thesis .
qed

section \<open>Registration\<close>

text \<open>The hook is attached to local input, once for each protocol family.\<close>

definition NFPROTO_IPV4 :: nat where "NFPROTO_IPV4 = 2"
definition NFPROTO_IPV6 :: nat where "NFPROTO_IPV6 = 10"
definition NF_IP_PRI_SELINUX_LAST :: int where "NF_IP_PRI_SELINUX_LAST = 225"
definition NF_IP6_PRI_SELINUX_LAST :: int where "NF_IP6_PRI_SELINUX_LAST = 225"

record nf_hook_ops =
  ops_pf :: nat
  ops_hooknum :: nat
  ops_priority :: int

definition rkx_nf_ops :: "nf_env \<Rightarrow> nf_hook_ops list" where
  "rkx_nf_ops env =
     \<lparr>ops_pf = NFPROTO_IPV4, ops_hooknum = NF_INET_LOCAL_IN, ops_priority = NF_IP_PRI_SELINUX_LAST + 1\<rparr> #
     (if CONFIG_IPV6 env
      then [\<lparr>ops_pf = NFPROTO_IPV6, ops_hooknum = NF_INET_LOCAL_IN, ops_priority = NF_IP6_PRI_SELINUX_LAST + 1\<rparr>]
      else [])"

text \<open>
  The hooks are registered in every network namespace of \<^verbatim>\<open>for_each_net\<close>; the
  environment gives the return code for each. \<open>nf_hooked\<close> is the kernel's side. Unregistering in a
  namespace that has no hook of the module makes the kernel warn ("hook not found"); \<open>nf_warned\<close>
  collects those namespaces.
\<close>

record nf_state =
  nf_nets :: "nat list"
  nf_hooked :: "nat set"
  nf_warned :: "nat list"
  rkx_netfilter_registered :: bool

definition nf_unregister_net_hooks :: "nat \<Rightarrow> nf_state \<Rightarrow> nf_state" where
  "nf_unregister_net_hooks net s =
     (if net \<in> nf_hooked s then s\<lparr>nf_hooked := nf_hooked s - {net}\<rparr>
      else s\<lparr>nf_warned := nf_warned s @ [net]\<rparr>)"

definition rkx_unregister_netfilter_hooks :: "nf_state \<Rightarrow> nf_state" where
  "rkx_unregister_netfilter_hooks s = fold nf_unregister_net_hooks (nf_nets s) s"

definition rkx_unregister_netfilter :: "nf_state \<Rightarrow> nf_state" where
  "rkx_unregister_netfilter s =
     (if rkx_netfilter_registered s
      then (rkx_unregister_netfilter_hooks s)\<lparr>rkx_netfilter_registered := False\<rparr> else s)"

text \<open>The registration loop: it stops at the first failure.\<close>

fun nf_register_loop :: "(nat \<Rightarrow> int) \<Rightarrow> nat list \<Rightarrow> nf_state \<Rightarrow> int \<times> nf_state" where
  "nf_register_loop rc [] s = (RKX_SUCCESS, s)"
| "nf_register_loop rc (net # nets) s =
     (if rc net \<noteq> RKX_SUCCESS then (rc net, s)
      else nf_register_loop rc nets (s\<lparr>nf_hooked := insert net (nf_hooked s)\<rparr>))"

definition rkx_register_netfilter :: "(nat \<Rightarrow> int) \<Rightarrow> nf_state \<Rightarrow> int \<times> nf_state" where
  "rkx_register_netfilter rc s =
     (let (r, s) = nf_register_loop rc (nf_nets s) s
      in if r \<noteq> RKX_SUCCESS then (RKX_ERROR, rkx_unregister_netfilter_hooks s)
         else (RKX_SUCCESS, s\<lparr>rkx_netfilter_registered := True\<rparr>))"

definition nf_flags_ok :: "nf_state \<Rightarrow> bool" where
  "nf_flags_ok s \<longleftrightarrow> nf_hooked s \<subseteq> set (nf_nets s) \<and> (nf_hooked s \<noteq> {} \<longrightarrow> rkx_netfilter_registered s)"

definition nf_active :: "nf_state \<Rightarrow> bool" where
  "nf_active s \<longleftrightarrow> nf_hooked s \<noteq> {} \<or> rkx_netfilter_registered s"

lemma fold_unregister_hooked:
  "nf_hooked (fold nf_unregister_net_hooks nets s) = nf_hooked s - set nets"
  by (induction nets arbitrary: s) (auto simp: nf_unregister_net_hooks_def)

lemma fold_unregister_frame [simp]:
  "nf_nets (fold nf_unregister_net_hooks nets s) = nf_nets s"
  "rkx_netfilter_registered (fold nf_unregister_net_hooks nets s) = rkx_netfilter_registered s"
  by (induction nets arbitrary: s) (auto simp: nf_unregister_net_hooks_def)

lemma unregister_hooks_all:
  "nf_hooked s \<subseteq> set (nf_nets s) \<Longrightarrow> nf_hooked (rkx_unregister_netfilter_hooks s) = {}"
  by (auto simp: rkx_unregister_netfilter_hooks_def fold_unregister_hooked)

lemma register_loop_frame [simp]:
  "nf_nets (snd (nf_register_loop rc nets s)) = nf_nets s"
  "rkx_netfilter_registered (snd (nf_register_loop rc nets s)) = rkx_netfilter_registered s"
  "nf_warned (snd (nf_register_loop rc nets s)) = nf_warned s"
  by (induction rc nets s rule: nf_register_loop.induct) auto

lemma register_loop_hooked:
  "nf_hooked (snd (nf_register_loop rc nets s)) =
     nf_hooked s \<union> set (takeWhile (\<lambda>net. rc net = RKX_SUCCESS) nets)"
  by (induction rc nets s rule: nf_register_loop.induct) auto

lemma register_loop_rc:
  "fst (nf_register_loop rc nets s) = RKX_SUCCESS \<longleftrightarrow> (\<forall>net \<in> set nets. rc net = RKX_SUCCESS)"
  by (induction rc nets s rule: nf_register_loop.induct) auto

lemma register_netfilter_cases:
  "rkx_register_netfilter rc s =
     (if \<forall>net \<in> set (nf_nets s). rc net = RKX_SUCCESS
      then (RKX_SUCCESS, (snd (nf_register_loop rc (nf_nets s) s))\<lparr>rkx_netfilter_registered := True\<rparr>)
      else (RKX_ERROR,
            rkx_unregister_netfilter_hooks (snd (nf_register_loop rc (nf_nets s) s))))"
  using register_loop_rc [of rc "nf_nets s" s]
  by (auto simp: rkx_register_netfilter_def split: prod.splits)

interpretation nf_reg: registration rkx_register_netfilter "\<lambda>_. rkx_unregister_netfilter"
  nf_flags_ok nf_active "\<lambda>s. nf_hooked s = set (nf_nets s) \<and> rkx_netfilter_registered s"
proof unfold_locales
  fix rc and s :: nf_state
  let ?s = "snd (nf_register_loop rc (nf_nets s) s)"
  assume ok: "nf_flags_ok s"
  have sub: "nf_hooked ?s \<subseteq> set (nf_nets ?s)"
    using ok by (auto simp: register_loop_hooked nf_flags_ok_def dest: set_takeWhileD)
  have unreg: "nf_hooked (rkx_unregister_netfilter_hooks ?s) = {}"
    "rkx_netfilter_registered (rkx_unregister_netfilter_hooks ?s) = rkx_netfilter_registered s"
    using unregister_hooks_all [OF sub] by (simp_all add: rkx_unregister_netfilter_hooks_def)
  show "\<not> nf_active s \<Longrightarrow> nf_flags_ok (snd (rkx_register_netfilter rc s))"
    using sub unreg by (simp add: register_netfilter_cases nf_flags_ok_def)
  show "\<not> nf_active s \<Longrightarrow> fst (rkx_register_netfilter rc s) = RKX_SUCCESS \<Longrightarrow>
      nf_hooked (snd (rkx_register_netfilter rc s)) = set (nf_nets (snd (rkx_register_netfilter rc s)))
      \<and> rkx_netfilter_registered (snd (rkx_register_netfilter rc s))"
    by (simp add: register_netfilter_cases register_loop_hooked nf_active_def
        takeWhile_eq_all_conv [THEN iffD2] split: if_splits)
  show "\<not> nf_active s \<Longrightarrow> fst (rkx_register_netfilter rc s) \<noteq> RKX_SUCCESS \<Longrightarrow>
      \<not> nf_active (snd (rkx_register_netfilter rc s))"
    using unreg by (simp add: register_netfilter_cases nf_active_def split: if_splits)
  show "nf_flags_ok (rkx_unregister_netfilter s)" "\<not> nf_active (rkx_unregister_netfilter s)"
    using ok unregister_hooks_all [of s]
    by (auto simp: rkx_unregister_netfilter_def nf_flags_ok_def nf_active_def
        rkx_unregister_netfilter_hooks_def)
  show "\<not> nf_active s \<Longrightarrow> rkx_unregister_netfilter s = s"
    by (simp add: rkx_unregister_netfilter_def nf_active_def)
qed

text \<open>
  The packets that reach the hook: those of a hooked namespace at a point and of a family of \<open>rkx_nf_ops\<close>. After
  a successful registration they are all packets at local input, in every namespace, of exactly the families
  for which the hook has a parser.
\<close>

definition nf_reaches :: "nf_env \<Rightarrow> nf_state \<Rightarrow> nat \<Rightarrow> nat \<Rightarrow> nat \<Rightarrow> bool" where
  "nf_reaches env s net pf hooknum \<longleftrightarrow> net \<in> nf_hooked s \<and>
     (\<exists>ops \<in> set (rkx_nf_ops env). ops_pf ops = pf \<and> ops_hooknum ops = hooknum)"

lemma registered_reaches:
  assumes "nf_flags_ok s" "\<not> nf_active s" "rkx_register_netfilter rc s = (RKX_SUCCESS, s')"
  shows "nf_reaches env s' net pf hooknum \<longleftrightarrow>
    net \<in> set (nf_nets s') \<and> hooknum = NF_INET_LOCAL_IN \<and> (pf = NFPROTO_IPV4 \<or> CONFIG_IPV6 env \<and> pf = NFPROTO_IPV6)"
  using nf_reg.register_ok [OF assms(1,2), of rc] assms(3) by (auto simp: nf_reaches_def rkx_nf_ops_def)

lemma nf_parse_families:
  "ip_version pkt = Some v \<Longrightarrow> \<not> (v = 4 \<or> CONFIG_IPV6 env \<and> v = 6) \<Longrightarrow> nf_parse env pkt = Some None"
  by (auto simp: nf_parse_def)

text \<open>The namespaces the error path unregisters although they have no hook of the module.\<close>

lemma fold_unregister_warned:
  "distinct nets \<Longrightarrow>
     nf_warned (fold nf_unregister_net_hooks nets s) =
       nf_warned s @ filter (\<lambda>net. net \<notin> nf_hooked s) nets"
proof (induction nets arbitrary: s)
  case (Cons net nets)
  then have "filter (\<lambda>n. n \<notin> nf_hooked s - {net}) nets = filter (\<lambda>n. n \<notin> nf_hooked s) nets"
    by (intro filter_cong) auto
  with Cons show ?case by (simp add: nf_unregister_net_hooks_def)
qed simp

lemma register_netfilter_warns:
  assumes "\<not> nf_active s" "distinct (nf_nets s)" "fst (rkx_register_netfilter rc s) \<noteq> RKX_SUCCESS"
  shows "nf_warned (snd (rkx_register_netfilter rc s)) =
    nf_warned s @ dropWhile (\<lambda>net. rc net = RKX_SUCCESS) (nf_nets s)"
proof -
  let ?P = "\<lambda>net. rc net = RKX_SUCCESS"
  let ?t = "takeWhile ?P (nf_nets s)" and ?d = "dropWhile ?P (nf_nets s)"
  have split: "nf_nets s = ?t @ ?d" by simp
  then have "distinct (?t @ ?d)" using assms(2) by simp
  then have disj: "set ?t \<inter> set ?d = {}" unfolding distinct_append by blast
  have "filter (\<lambda>net. net \<notin> set ?t) (?t @ ?d) = ?d"
    using disj by (simp only: filter_append) (auto simp: filter_empty_conv filter_id_conv)
  then have "filter (\<lambda>net. net \<notin> set ?t) (nf_nets s) = ?d"
    by simp
  moreover have "nf_hooked s = {}" using assms(1) by (simp add: nf_active_def)
  ultimately show ?thesis
    using assms(2,3)
    by (simp add: register_netfilter_cases rkx_unregister_netfilter_hooks_def
        fold_unregister_warned register_loop_hooked split: if_splits)
qed

section \<open>Properties\<close>

text \<open>The length of the TCP payload of an IPv4 packet, as an integer.\<close>

definition ipv4_payload :: "bytes \<Rightarrow> int" where
  "ipv4_payload pkt = uint (of_be16 (take 2 (drop 2 pkt))) - 4 * uint (pkt ! 0 AND 15) -
     4 * uint (drop_bit 4 (pkt ! (4 * unat (pkt ! 0 AND 15) + 12)))"

definition ipv6_payload :: "bytes \<Rightarrow> nat \<Rightarrow> int" where
  "ipv6_payload pkt th = uint (of_be16 (take 2 (drop 4 pkt))) - (int th - 40) -
     4 * uint (drop_bit 4 (pkt ! (th + 12)))"

text \<open>A 44-byte IPv4 packet with a four byte payload, its environment and its arrival, for examples.\<close>

definition sample_ipv4 :: bytes where
  "sample_ipv4 = [69, 0, 0, 44, 0, 0, 0, 0, 64, 6] @ replicate 22 0 @ [80, 16] @ replicate 10 0"

definition sample_nf_env :: nf_env where
  "sample_nf_env = \<lparr>nf_hash = sample_hash,
     nf_uids = rkx_add_net_uid sample_hash (Some \<lparr>ui_uid = 0\<rparr>) 10086 rkx_init_net_uid,
     CONFIG_IPV6 = True, pskb_may_pull = (\<lambda>pkt n. unat n \<le> length pkt),
     ipv6_find_hdr = (\<lambda>_. (- 1, 0))\<rparr>"

definition sample_nf_input :: nf_input where
  "sample_nf_input = \<lparr>in_skb = Some sample_ipv4, in_state = Some \<lparr>st_hook = 1, st_in = True\<rparr>,
     in_sk = Some \<lparr>sk_fullsock = True, sk_socket_uid = Some 10086\<rparr>\<rparr>"

definition sample_ipv6 :: bytes where
  "sample_ipv6 = [96, 0, 0, 0, 0, 20, 6, 64] @ replicate 44 0 @ [80, 1] @ replicate 6 0"

definition sample_nf_env6 :: nf_env where
  "sample_nf_env6 = sample_nf_env\<lparr>ipv6_find_hdr := (\<lambda>_. (6, 40))\<rparr>"

lemma sample_nf_ok: "nf_env_ok sample_nf_env sample_nf_input"
  by (simp add: nf_env_ok_def sample_nf_env_def sample_nf_input_def sample_ipv4_def)

lemma sample_nf_uids: "net_uid_inv (nf_hash sample_nf_env) (nf_uids sample_nf_env)"
  "monitored_uids (nf_uids sample_nf_env) = {10086}"
  using add_net_uid [OF init_net_uid [OF sample_hash_ok], of "Some \<lparr>ui_uid = 0\<rparr>" 10086]
  by (simp_all add: sample_nf_env_def)

lemma low_bits_flags: "(bit b 1 \<or> bit b 0 \<or> bit b 2) \<longleftrightarrow> (b :: u8) AND 7 \<noteq> 0"
proof -
  have m: "(7 :: u8) = mask 3" by (simp add: mask_eq_exp_minus_1)
  have i: "bit (b AND 7) n \<longleftrightarrow> bit b n \<and> n < 3" for n
    unfolding m bit_and_iff bit_mask_iff by (auto dest: bit_imp_possible_bit)
  have three: "n < 3 \<longleftrightarrow> n = 0 \<or> n = 1 \<or> n = 2" for n :: nat by linarith
  have "b AND 7 = 0 \<longleftrightarrow> (\<forall>n. \<not> bit (b AND 7) n)"
    by (metis bit_0_eq bit_eqI bot_apply bot_bool_def)
  then show ?thesis unfolding i three by blast
qed

lemma nf_reports_uid:
  assumes "nf_reports env i = Some (uid, proto, data_len)"
  shows "rkx_net_uid_monitored_rcu (nf_hash env) (nf_uids env) uid" "RKX_MIN_APP_UID \<le> uid"
  using assms by (auto simp: nf_reports_def split: option.splits if_splits)

text \<open>
  The packet hook reads only bytes of the packet, always lets the packet pass, and what it reports
  is traffic of a monitored application uid.
\<close>

theorem nf_local_in_contract:
  assumes "nf_env_ok env i" "net_uid_inv (nf_hash env) (nf_uids env)"
  shows "\<exists>evs. rkx_nf_local_in env ready i = Some (NF_ACCEPT, evs) \<and> length evs \<le> 1 \<and>
    (\<forall>ev \<in> set evs. ready \<and> (\<exists>n. ev = EV_NETWORK n \<and>
       ne_target_uid n \<in> monitored_uids (nf_uids env) \<and> RKX_MIN_APP_UID \<le> ne_target_uid n))"
proof (cases "nf_reports env i")
  case None
  then show ?thesis by (simp add: nf_local_in_eq [OF assms(1)])
next
  case (Some r)
  obtain uid proto data_len where r: "r = (uid, proto, data_len)" by (cases r)
  have "uid \<in> monitored_uids (nf_uids env)" "RKX_MIN_APP_UID \<le> uid"
    using nf_reports_uid [OF Some [unfolded r]] monitored_iff [OF assms(2)] by simp_all
  with Some r show ?thesis
    by (cases ready) (simp_all add: nf_local_in_eq [OF assms(1)])
qed

theorem nf_local_in_contract_witness:
  "\<exists>evs. rkx_nf_local_in sample_nf_env True sample_nf_input = Some (NF_ACCEPT, evs) \<and>
     (\<forall>ev \<in> set evs. \<exists>n. ev = EV_NETWORK n \<and> ne_target_uid n = 10086)"
  using nf_local_in_contract [OF sample_nf_ok sample_nf_uids(1), of True]
  unfolding sample_nf_uids(2) by blast

text \<open>
  C31: a TCP packet over IPv4 passes unreported exactly when it has no payload and none of the flags
  SYN, FIN and RST; otherwise the reported length is the integer difference of the header lengths,
  without wrap-around.
\<close>

theorem parse_tcp_ipv4_correct:
  assumes pull: "\<And>n. pskb_may_pull env pkt n \<longleftrightarrow> unat n \<le> length pkt"
    and len: "20 \<le> length pkt" "4 * unat (pkt ! 0 AND 15) + 20 \<le> length pkt"
    and tcp: "pkt ! 9 = 6"
  shows "\<exists>r. rkx_parse_tcp_ipv4 env pkt = Some r \<and>
    (r = None \<longleftrightarrow> ipv4_payload pkt \<le> 0 \<and>
       pkt ! (4 * unat (pkt ! 0 AND 15) + 13) AND 7 = 0) \<and>
    (\<forall>proto data_len. r = Some (proto, data_len) \<longrightarrow>
       proto = RKX_NET_PROTO_IPV4 \<and> sint data_len = ipv4_payload pkt)"
proof -
  define ihl :: u32 where "ihl = ucast (pkt ! 0 AND 15)"
  have "0 < length pkt" using len(1) by linarith
  then have ihl_some: "ip_ihl pkt = Some ihl"
    by (simp add: ip_ihl_def load8_def ihl_def)
  have u: "unat ihl = unat (pkt ! 0 AND 15)" by (simp add: ihl_def unat_ucast_up)
  note b = ihl_bound [OF ihl_some]
  have h: "uint (push_bit 2 ihl) = 4 * uint (pkt ! 0 AND 15)"
    using b u by (simp only: uint_nat)
  have pull2: "pskb_may_pull env pkt (push_bit 2 ihl + ucast sizeof_tcphdr)"
    using b u len(2) by (simp add: pull sizeof_tcphdr_def unat_word_ariths)
  define flags where "flags = pkt ! (4 * unat ihl + 13)"
  have flags: "(bit flags 1 \<or> bit flags 0 \<or> bit flags 2) \<longleftrightarrow> flags AND 7 \<noteq> 0"
    by (rule low_bits_flags)
  define data_len where "data_len = ipv4_data_len (of_be16 (take 2 (drop 2 pkt))) (push_bit 2 ihl)
    (drop_bit 4 (pkt ! (4 * unat ihl + 12)))"
  have "uint (push_bit 2 ihl) \<le> 60" using b unfolding uint_nat by linarith
  then have payload: "sint data_len = ipv4_payload pkt"
    unfolding data_len_def ipv4_payload_def by (subst ipv4_data_len_exact) (simp_all only: h u)
  have "rkx_parse_tcp_ipv4 env pkt =
      Some (if ipv4_payload pkt \<le> 0 \<and> flags AND 7 = 0 then None
            else Some (RKX_NET_PROTO_IPV4, data_len))"
  proof -
    have fields: "ip_protocol pkt = Some IPPROTO_TCP"
      "ip_tot_len pkt = Some (of_be16 (take 2 (drop 2 pkt)))"
      "tcp_doff pkt (unat (push_bit 2 ihl)) = Some (drop_bit 4 (pkt ! (4 * unat ihl + 12)))"
      "tcp_syn_fin_rst pkt (unat (push_bit 2 ihl)) = Some (flags AND 7 \<noteq> 0)"
      using b len u tcp flags
      by (simp_all add: ip_protocol_def load8_def ip_tot_len_def load_def IPPROTO_TCP_def
          tcp_doff_def tcp_syn_fin_rst_def flags_def)
    have "pskb_may_pull env pkt sizeof_iphdr" using len(1) by (simp add: pull sizeof_iphdr_def)
    then show ?thesis
      using pull2 payload
      by (simp add: rkx_parse_tcp_ipv4_def fields ihl_some Let_def flip: data_len_def)
  qed
  with payload show ?thesis unfolding flags_def u by auto
qed

theorem parse_tcp_ipv4_correct_witness:
  "ipv4_payload sample_ipv4 = 4 \<and>
   (\<exists>r. rkx_parse_tcp_ipv4 sample_nf_env sample_ipv4 = Some r \<and> r \<noteq> None \<and>
     (\<forall>proto data_len. r = Some (proto, data_len) \<longrightarrow> proto = 4 \<and> sint data_len = 4))"
proof -
  have pull: "pskb_may_pull sample_nf_env sample_ipv4 n \<longleftrightarrow> unat n \<le> length sample_ipv4" for n
    by (simp add: sample_nf_env_def)
  have first: "sample_ipv4 ! 0 AND 15 = 5" by (simp add: sample_ipv4_def)
  have payload: "ipv4_payload sample_ipv4 = 4"
    by (simp add: ipv4_payload_def first) (simp add: sample_ipv4_def of_be16_def nth_append)
  have len: "20 \<le> length sample_ipv4" "4 * unat (sample_ipv4 ! 0 AND 15) + 20 \<le> length sample_ipv4"
    "sample_ipv4 ! 9 = 6"
    unfolding first by (simp_all add: sample_ipv4_def)
  show ?thesis
    using parse_tcp_ipv4_correct [OF pull len] payload by (auto simp: RKX_NET_PROTO_IPV4_def)
qed

text \<open>
  C32: the same for IPv6, with the transport header wherever \<^verbatim>\<open>ipv6_find_hdr\<close> found it: the
  length computed in unsigned 64-bit arithmetic and truncated is the integer difference.
\<close>

theorem parse_tcp_ipv6_correct:
  assumes pull: "\<And>n. pskb_may_pull env pkt n \<longleftrightarrow> unat n \<le> length pkt"
    and hdr: "ipv6_find_hdr env pkt = (6, of_nat th)" "40 \<le> th" "th + 20 \<le> length pkt"
    and len: "length pkt < 2 ^ 30"
  shows "\<exists>r. rkx_parse_tcp_ipv6 env pkt = Some r \<and>
    (r = None \<longleftrightarrow> ipv6_payload pkt th \<le> 0 \<and> pkt ! (th + 13) AND 7 = 0) \<and>
    (\<forall>proto data_len. r = Some (proto, data_len) \<longrightarrow>
       proto = RKX_NET_PROTO_IPV6 \<and> sint data_len = ipv6_payload pkt th)"
proof -
  have th: "th < 1073741824" using hdr(3) len by simp
  then have u: "unat (of_nat th :: u32) = th" by (simp add: unat_of_nat take_bit_nat_eq_self)
  then have ui: "uint (of_nat th :: u32) = int th" by (simp only: uint_nat)
  define data_len where "data_len = ipv6_data_len (of_be16 (take 2 (drop 4 pkt))) (of_nat th)
    (drop_bit 4 (pkt ! (th + 12)))"
  have "40 \<le> uint (of_nat th :: u32)" "uint (of_nat th :: u32) < 1073741824"
    unfolding ui using hdr(2) th by linarith+
  then have payload: "sint data_len = ipv6_payload pkt th"
    unfolding data_len_def ipv6_payload_def by (simp only: ipv6_data_len_exact ui)
  have sum: "unat (ucast (ucast (of_nat th :: u32) + sizeof_tcphdr :: u64) :: u32) = th + 20"
    using th by (simp add: sizeof_tcphdr_def unat_word_ariths unsigned_ucast_eq take_bit_nat_eq_self u)
  have fields: "ip6_payload_len pkt = Some (of_be16 (take 2 (drop 4 pkt)))"
    "tcp_doff pkt (unat (of_nat th :: u32)) = Some (drop_bit 4 (pkt ! (th + 12)))"
    "tcp_syn_fin_rst pkt (unat (of_nat th :: u32)) = Some (pkt ! (th + 13) AND 7 \<noteq> 0)"
    unfolding u using hdr(2,3) low_bits_flags [of "pkt ! (th + 13)"]
    by (simp_all add: load8_def load_def ip6_payload_len_def tcp_doff_def tcp_syn_fin_rst_def)
  have pulls: "pskb_may_pull env pkt (ucast sizeof_ipv6hdr)"
    "pskb_may_pull env pkt (ucast (ucast (of_nat th :: u32) + sizeof_tcphdr :: u64))"
    unfolding pull sum using hdr(2,3) by (simp_all add: sizeof_ipv6hdr_def)
  have "rkx_parse_tcp_ipv6 env pkt =
      Some (if ipv6_payload pkt th \<le> 0 \<and> pkt ! (th + 13) AND 7 = 0 then None
            else Some (RKX_NET_PROTO_IPV6, data_len))"
    unfolding rkx_parse_tcp_ipv6_def hdr(1) Let_def prod.case fields
    using pulls payload by (simp add: IPPROTO_TCP_def flip: data_len_def)
  with payload show ?thesis by auto
qed

theorem parse_tcp_ipv6_correct_witness:
  "ipv6_payload sample_ipv6 40 = 0 \<and>
   (\<exists>r. rkx_parse_tcp_ipv6 sample_nf_env6 sample_ipv6 = Some r \<and> r \<noteq> None \<and>
     (\<forall>proto data_len. r = Some (proto, data_len) \<longrightarrow> proto = 6 \<and> sint data_len = 0))"
proof -
  have pull: "pskb_may_pull sample_nf_env6 sample_ipv6 n \<longleftrightarrow> unat n \<le> length sample_ipv6" for n
    by (simp add: sample_nf_env6_def sample_nf_env_def)
  have payload: "ipv6_payload sample_ipv6 40 = 0"
    by (simp add: ipv6_payload_def sample_ipv6_def of_be16_def nth_append)
  have hdr: "ipv6_find_hdr sample_nf_env6 sample_ipv6 = (6, of_nat 40)" "(40 :: nat) \<le> 40"
    "40 + 20 \<le> length sample_ipv6" "length sample_ipv6 < 2 ^ 30"
    by (simp_all add: sample_nf_env6_def sample_ipv6_def)
  have fin: "sample_ipv6 ! (40 + 13) AND 7 \<noteq> 0" by (simp add: sample_ipv6_def nth_append)
  show ?thesis
    using parse_tcp_ipv6_correct [OF pull hdr] payload fin by (auto simp: RKX_NET_PROTO_IPV6_def)
qed

text \<open>
  C36: the error path of the registration. When the hooks cannot be registered in some namespace, none
  stays registered in any, but the cleanup also unregisters the namespaces the loop never reached:
  from the failing one on, each of them is reported by the kernel as not found.
\<close>

theorem register_netfilter_error_path:
  assumes "\<not> nf_active s" "nf_flags_ok s" "distinct (nf_nets s)"
    and "\<exists>net \<in> set (nf_nets s). rc net \<noteq> RKX_SUCCESS"
  shows "fst (rkx_register_netfilter rc s) = RKX_ERROR \<and>
    nf_hooked (snd (rkx_register_netfilter rc s)) = {} \<and>
    nf_warned (snd (rkx_register_netfilter rc s)) =
      nf_warned s @ dropWhile (\<lambda>net. rc net = RKX_SUCCESS) (nf_nets s)"
proof -
  have fail: "fst (rkx_register_netfilter rc s) = RKX_ERROR"
    using assms(4) by (auto simp: register_netfilter_cases)
  then have "fst (rkx_register_netfilter rc s) \<noteq> RKX_SUCCESS" by simp
  with fail show ?thesis
    using nf_reg.register_fail [OF assms(2,1), of rc] register_netfilter_warns [OF assms(1,3), of rc]
    by (simp add: nf_active_def)
qed

theorem register_netfilter_error_path_witness:
  "nf_warned (snd (rkx_register_netfilter (\<lambda>net. if net = 1 then - 12 else 0)
     \<lparr>nf_nets = [0, 1, 2], nf_hooked = {}, nf_warned = [], rkx_netfilter_registered = False\<rparr>)) = [1, 2]"
  using register_netfilter_error_path [of
      "\<lparr>nf_nets = [0, 1, 2], nf_hooked = {}, nf_warned = [], rkx_netfilter_registered = False\<rparr>"
      "\<lambda>net. if net = 1 then - 12 else 0"]
  by (simp add: nf_active_def nf_flags_ok_def rkx_const)

end
