(* ===== verification/Rkx_Main.thy ===== *)
theory Rkx_Main
  imports Rkx_Genl Rkx_Signal Rkx_Netfilter Rkx_Binder_Kp
begin

text \<open>
  \<^verbatim>\<open>LKM-Source/rkx.c\<close>: module initialisation and exit, composed from the registrations of
  the components. The environment holds what the kernel answers to each of them; the state is that of
  all components. \<^verbatim>\<open>tracepoint_synchronize_unregister\<close> waits for running hooks and
  changes no state. The error path of \<^verbatim>\<open>rkx_init\<close> and \<^verbatim>\<open>rkx_exit\<close> are the
  same sequence of calls, kept as a list so that its order can be stated.
\<close>

record rkx_module =
  m_genl :: genl_family_state
  m_binder :: binder_hooks
  m_signal :: signal_hooks
  m_nf :: nf_state
  m_kp :: kp_module
  m_rules :: rkx_rules

record rkx_init_env =
  ie_genl :: int
  ie_binder :: binder_reg_env
  ie_signal :: int
  ie_nf :: "nat \<Rightarrow> int"
  ie_kp :: kp_reg_env

section \<open>Exit\<close>

definition stop_kp :: "rkx_module \<Rightarrow> rkx_module" where
  "stop_kp m = m\<lparr>m_kp := rkx_unregister_binder_kp (m_kp m)\<rparr>"

definition stop_netfilter :: "rkx_module \<Rightarrow> rkx_module" where
  "stop_netfilter m = m\<lparr>m_nf := rkx_unregister_netfilter (m_nf m)\<rparr>"

definition stop_signal :: "rkx_module \<Rightarrow> rkx_module" where
  "stop_signal m = m\<lparr>m_signal := rkx_unregister_signal (m_signal m)\<rparr>"

definition stop_binder :: "rkx_module \<Rightarrow> rkx_module" where
  "stop_binder m = m\<lparr>m_binder := rkx_unregister_binder (m_binder m)\<rparr>"

definition stop_genl :: "rkx_module \<Rightarrow> rkx_module" where
  "stop_genl m = m\<lparr>m_genl := rkx_unregister_genl (m_genl m)\<rparr>"

definition drop_free_async :: "rkx_module \<Rightarrow> rkx_module" where
  "drop_free_async m = m\<lparr>m_rules := (m_rules m)\<lparr>rr_rules :=
     fst (rkx_destroy_free_async (rr_rules (m_rules m)))\<rparr>\<rparr>"

definition drop_net_uid :: "rkx_module \<Rightarrow> rkx_module" where
  "drop_net_uid m = m\<lparr>m_rules := (m_rules m)\<lparr>rr_uids :=
     fst (rkx_destroy_net_uid (rr_uids (m_rules m)))\<rparr>\<rparr>"

definition teardown :: "(rkx_module \<Rightarrow> rkx_module) list" where
  "teardown = [stop_kp, stop_netfilter, stop_signal, stop_binder, stop_genl, drop_free_async,
     drop_net_uid]"

definition rkx_exit :: "rkx_module \<Rightarrow> rkx_module" where
  "rkx_exit m = fold (\<lambda>f. f) teardown m"

section \<open>Initialisation\<close>

definition init_stores :: "rkx_module \<Rightarrow> rkx_module" where
  "init_stores m = m\<lparr>m_rules := \<lparr>rr_uids = rkx_init_net_uid, rr_rules = rkx_init_free_async\<rparr>\<rparr>"

definition start_genl :: "rkx_init_env \<Rightarrow> rkx_module \<Rightarrow> int \<times> rkx_module" where
  "start_genl e m = (let (r, s) = rkx_register_genl (ie_genl e) (m_genl m) in (r, m\<lparr>m_genl := s\<rparr>))"

definition start_binder :: "rkx_init_env \<Rightarrow> rkx_module \<Rightarrow> int \<times> rkx_module" where
  "start_binder e m = (let (r, s) = rkx_register_binder (ie_binder e) (m_binder m) in (r, m\<lparr>m_binder := s\<rparr>))"

definition start_signal :: "rkx_init_env \<Rightarrow> rkx_module \<Rightarrow> int \<times> rkx_module" where
  "start_signal e m = (let (r, s) = rkx_register_signal (ie_signal e) (m_signal m) in (r, m\<lparr>m_signal := s\<rparr>))"

definition start_netfilter :: "rkx_init_env \<Rightarrow> rkx_module \<Rightarrow> int \<times> rkx_module" where
  "start_netfilter e m = (let (r, s) = rkx_register_netfilter (ie_nf e) (m_nf m) in (r, m\<lparr>m_nf := s\<rparr>))"

definition start_kp :: "rkx_init_env \<Rightarrow> rkx_module \<Rightarrow> rkx_module" where
  "start_kp e m = m\<lparr>m_kp := rkx_register_binder_kp (ie_kp e) (m_kp m)\<rparr>"

definition rkx_init :: "rkx_init_env \<Rightarrow> rkx_module \<Rightarrow> int \<times> rkx_module" where
  "rkx_init e m =
     (case start_genl e (init_stores m) of (r, m) \<Rightarrow>
        if r \<noteq> RKX_SUCCESS then (RKX_ERROR, fold (\<lambda>f. f) teardown m)
        else case start_binder e m of (r, m) \<Rightarrow>
          if r \<noteq> RKX_SUCCESS then (RKX_ERROR, fold (\<lambda>f. f) teardown m)
          else case start_signal e m of (r, m) \<Rightarrow>
            if r \<noteq> RKX_SUCCESS then (RKX_ERROR, fold (\<lambda>f. f) teardown m)
            else case start_netfilter e m of (r, m) \<Rightarrow>
              if r \<noteq> RKX_SUCCESS then (RKX_ERROR, fold (\<lambda>f. f) teardown m)
              else (RKX_SUCCESS, start_kp e m))"

section \<open>All or nothing\<close>

text \<open>\<open>module_ok\<close>: each component's flags describe what the kernel holds of it.\<close>

definition module_ok :: "rkx_module \<Rightarrow> bool" where
  "module_ok m \<longleftrightarrow> rkx_genl_registered (m_genl m) = family_known (m_genl m) \<and>
     binder_flags_ok (m_binder m) \<and> rkx_signal_hooked (m_signal m) = sh_attached (m_signal m) \<and>
     nf_flags_ok (m_nf m) \<and> kp_flags_ok (m_kp m)"

definition hooks_idle :: "rkx_module \<Rightarrow> bool" where
  "hooks_idle m \<longleftrightarrow> bh_attached (m_binder m) = {} \<and> \<not> sh_attached (m_signal m) \<and>
     \<not> nf_active (m_nf m) \<and> \<not> kp_active (m_kp m)"

definition module_idle :: "rkx_module \<Rightarrow> bool" where
  "module_idle m \<longleftrightarrow> hooks_idle m \<and> \<not> family_known (m_genl m)"

definition stores_empty :: "rkx_module \<Rightarrow> bool" where
  "stores_empty m \<longleftrightarrow> entries (rr_uids (m_rules m)) = {} \<and>
     entries (rkx_free_async_map (rr_rules (m_rules m))) = {}"

lemmas start_defs = start_genl_def start_binder_def start_signal_def start_netfilter_def start_kp_def
lemmas stop_defs = stop_kp_def stop_netfilter_def stop_signal_def stop_binder_def stop_genl_def
  drop_free_async_def drop_net_uid_def

lemma exit_fields:
  "m_genl (rkx_exit m) = rkx_unregister_genl (m_genl m)"
  "m_binder (rkx_exit m) = rkx_unregister_binder (m_binder m)"
  "m_signal (rkx_exit m) = rkx_unregister_signal (m_signal m)"
  "m_nf (rkx_exit m) = rkx_unregister_netfilter (m_nf m)"
  "m_kp (rkx_exit m) = rkx_unregister_binder_kp (m_kp m)"
  "m_rules (rkx_exit m) = \<lparr>rr_uids = fst (rkx_destroy_net_uid (rr_uids (m_rules m))),
     rr_rules = fst (rkx_destroy_free_async (rr_rules (m_rules m)))\<rparr>"
  by (simp_all add: rkx_exit_def teardown_def stop_defs)

lemma exit_idle:
  assumes "module_ok m"
  shows "module_idle (rkx_exit m)" "stores_empty (rkx_exit m)"
proof -
  show "module_idle (rkx_exit m)"
    using assms genl_reg.unregister_inactive [of "m_genl m"]
      binder_reg.unregister_inactive [of "m_binder m"]
      signal_reg.unregister_inactive [of "m_signal m"]
      nf_reg.unregister_inactive [of "m_nf m"] kp_reg.unregister_inactive [of "m_kp m"]
    by (simp add: module_ok_def module_idle_def hooks_idle_def exit_fields)
  show "stores_empty (rkx_exit m)"
    by (simp add: stores_empty_def exit_fields rkx_destroy_net_uid_def rkx_destroy_free_async_def
        entries_def concat_hash_clear)
qed

lemma init_stores_ok [simp]:
  "module_ok (init_stores m) = module_ok m" "module_idle (init_stores m) = module_idle m"
  "hooks_idle (init_stores m) = hooks_idle m"
  by (simp_all add: init_stores_def module_ok_def module_idle_def hooks_idle_def)

text \<open>What the module is once \<^verbatim>\<open>rkx_init\<close> has succeeded.\<close>

definition module_running :: "rkx_module \<Rightarrow> bool" where
  "module_running m \<longleftrightarrow> rkx_netlink_ready (m_genl m) \<and> family_known (m_genl m) \<and>
     bh_attached (m_binder m) = UNIV \<and> sh_attached (m_signal m) \<and>
     nf_hooked (m_nf m) = set (nf_nets (m_nf m)) \<and> (kp_active (m_kp m) \<longrightarrow> kp_full (m_kp m))"

text \<open>One step of the initialisation: it keeps the flags right, and touches one component.\<close>

lemma start_genl_step:
  assumes "module_ok m" "\<not> family_known (m_genl m)" "start_genl e m = (r, m')"
  shows "module_ok m'" "r = RKX_SUCCESS \<Longrightarrow> family_known (m_genl m') \<and> rkx_genl_registered (m_genl m')"
    "m' = m\<lparr>m_genl := m_genl m'\<rparr>"
proof -
  obtain s where s: "rkx_register_genl (ie_genl e) (m_genl m) = (r, s)" "m' = m\<lparr>m_genl := s\<rparr>"
    using assms(3) by (auto simp: start_genl_def split: prod.splits)
  show "module_ok m'" "r = RKX_SUCCESS \<Longrightarrow> family_known (m_genl m') \<and> rkx_genl_registered (m_genl m')"
    using assms(1,2) genl_reg.ok_register [of "m_genl m" "ie_genl e"]
      genl_reg.register_ok [of "m_genl m" "ie_genl e"] s
    by (auto simp: module_ok_def)
  show "m' = m\<lparr>m_genl := m_genl m'\<rparr>" using s by simp
qed

lemma start_binder_step:
  assumes "module_ok m" "bh_attached (m_binder m) = {}" "start_binder e m = (r, m')"
  shows "module_ok m'" "r = RKX_SUCCESS \<Longrightarrow> bh_attached (m_binder m') = UNIV"
    "m' = m\<lparr>m_binder := m_binder m'\<rparr>"
proof -
  obtain s where s: "rkx_register_binder (ie_binder e) (m_binder m) = (r, s)" "m' = m\<lparr>m_binder := s\<rparr>"
    using assms(3) by (auto simp: start_binder_def split: prod.splits)
  show "module_ok m'" "r = RKX_SUCCESS \<Longrightarrow> bh_attached (m_binder m') = UNIV"
    using assms(1,2) binder_reg.ok_register [of "m_binder m" "ie_binder e"]
      binder_reg.register_ok [of "m_binder m" "ie_binder e"] s
    by (auto simp: module_ok_def)
  show "m' = m\<lparr>m_binder := m_binder m'\<rparr>" using s by simp
qed

lemma start_signal_step:
  assumes "module_ok m" "\<not> sh_attached (m_signal m)" "start_signal e m = (r, m')"
  shows "module_ok m'" "r = RKX_SUCCESS \<Longrightarrow> sh_attached (m_signal m')"
    "m' = m\<lparr>m_signal := m_signal m'\<rparr>"
proof -
  obtain s where s: "rkx_register_signal (ie_signal e) (m_signal m) = (r, s)" "m' = m\<lparr>m_signal := s\<rparr>"
    using assms(3) by (auto simp: start_signal_def split: prod.splits)
  show "module_ok m'" "r = RKX_SUCCESS \<Longrightarrow> sh_attached (m_signal m')"
    using assms(1,2) signal_reg.ok_register [of "m_signal m" "ie_signal e"]
      signal_reg.register_ok [of "m_signal m" "ie_signal e"] s
    by (auto simp: module_ok_def)
  show "m' = m\<lparr>m_signal := m_signal m'\<rparr>" using s by simp
qed

lemma start_netfilter_step:
  assumes "module_ok m" "\<not> nf_active (m_nf m)" "start_netfilter e m = (r, m')"
  shows "module_ok m'" "r = RKX_SUCCESS \<Longrightarrow> nf_hooked (m_nf m') = set (nf_nets (m_nf m'))"
    "m' = m\<lparr>m_nf := m_nf m'\<rparr>"
proof -
  obtain s where s: "rkx_register_netfilter (ie_nf e) (m_nf m) = (r, s)" "m' = m\<lparr>m_nf := s\<rparr>"
    using assms(3) by (auto simp: start_netfilter_def split: prod.splits)
  show "module_ok m'" "r = RKX_SUCCESS \<Longrightarrow> nf_hooked (m_nf m') = set (nf_nets (m_nf m'))"
    using assms(1,2) nf_reg.ok_register [of "m_nf m" "ie_nf e"]
      nf_reg.register_ok [of "m_nf m" "ie_nf e"] s
    by (auto simp: module_ok_def)
  show "m' = m\<lparr>m_nf := m_nf m'\<rparr>" using s by simp
qed

lemma start_kp_step:
  assumes "module_ok m" "\<not> kp_active (m_kp m)"
  shows "module_ok (start_kp e m)" "kp_active (m_kp (start_kp e m)) \<Longrightarrow> kp_full (m_kp (start_kp e m))"
proof -
  have k: "snd (register_kp_result (ie_kp e) (m_kp m)) = m_kp (start_kp e m)"
    by (simp add: register_kp_result_def start_kp_def Let_def)
  have ok: "kp_flags_ok (m_kp m)" using assms(1) by (simp add: module_ok_def)
  show "module_ok (start_kp e m)"
    using assms kp_reg.ok_register [of "m_kp m" "ie_kp e", OF ok] unfolding k
    by (simp add: module_ok_def start_kp_def)
  show "kp_active (m_kp (start_kp e m)) \<Longrightarrow> kp_full (m_kp (start_kp e m))"
    using kp_reg.register_ok [of "m_kp m" "ie_kp e", OF ok assms(2)]
      kp_reg.register_fail [of "m_kp m" "ie_kp e", OF ok assms(2)] unfolding k by blast
qed

lemma init_result:
  assumes ok: "module_ok m" and idle: "module_idle m" and run: "rkx_init e m = (r, m')"
  shows "(r = RKX_SUCCESS \<and> module_running m' \<and> module_ok m') \<or>
    (r = RKX_ERROR \<and> module_idle m' \<and> stores_empty m')"
proof -
  let ?m0 = "init_stores m"
  have fail: "module_idle (fold (\<lambda>f. f) teardown x) \<and> stores_empty (fold (\<lambda>f. f) teardown x)"
    if "module_ok x" for x using exit_idle [OF that] by (simp add: rkx_exit_def)
  obtain r1 m1 where 1: "start_genl e ?m0 = (r1, m1)" by (cases "start_genl e ?m0")
  obtain r2 m2 where 2: "start_binder e m1 = (r2, m2)" by (cases "start_binder e m1")
  obtain r3 m3 where 3: "start_signal e m2 = (r3, m3)" by (cases "start_signal e m2")
  obtain r4 m4 where 4: "start_netfilter e m3 = (r4, m4)" by (cases "start_netfilter e m3")
  have i0: "module_ok ?m0" "bh_attached (m_binder ?m0) = {}" "\<not> sh_attached (m_signal ?m0)"
    "\<not> nf_active (m_nf ?m0)" "\<not> kp_active (m_kp ?m0)" "\<not> family_known (m_genl ?m0)"
    using ok idle by (simp_all add: module_idle_def hooks_idle_def init_stores_def module_ok_def)
  note s1 = start_genl_step [OF i0(1,6) 1]
  have b1: "bh_attached (m_binder m1) = {}" using s1(3) i0 by (metis rkx_module.select_convs(2) rkx_module.surjective rkx_module.update_convs(1))
  note s2 = start_binder_step [OF s1(1) b1 2]
  have m2: "m_genl m2 = m_genl m1" "m_signal m2 = m_signal ?m0" "m_nf m2 = m_nf ?m0" "m_kp m2 = m_kp ?m0"
    using s2(3) s1(3) by (cases ?m0; cases m1; cases m2; simp)+
  note s3 = start_signal_step [OF s2(1) _ 3, unfolded m2, OF i0(3)]
  have m3: "m_genl m3 = m_genl m1" "m_binder m3 = m_binder m2" "m_nf m3 = m_nf ?m0" "m_kp m3 = m_kp ?m0"
    using s3(3) m2 by (cases m2; cases m3; simp)+
  note s4 = start_netfilter_step [OF s3(1) _ 4, unfolded m3, OF i0(4)]
  have m4: "m_genl m4 = m_genl m1" "m_binder m4 = m_binder m2" "m_signal m4 = m_signal m3" "m_kp m4 = m_kp ?m0"
    using s4(3) m3 by (cases m3; cases m4; simp)+
  note s5 = start_kp_step [OF s4(1), unfolded m4, OF i0(5), of e]
  have "module_running (start_kp e m4)"
    if "r1 = RKX_SUCCESS" "r2 = RKX_SUCCESS" "r3 = RKX_SUCCESS" "r4 = RKX_SUCCESS"
    using s1(2) s2(2) s3(2) s4(2) s5(2) that m4
    by (simp add: module_running_def rkx_netlink_ready_def start_kp_def)
  then show ?thesis
    using run fail s1(1) s2(1) s3(1) s4(1) s5(1)
    by (auto simp: rkx_init_def 1 2 3 4 split: if_splits)
qed

text \<open>
  The order of the teardown: while any hook of the module is still attached, the family is registered
  as it was and both stores are as they were, so no hook runs on a destroyed store.
\<close>

lemma teardown_order:
  assumes "module_ok m" "\<not> hooks_idle (fold (\<lambda>f. f) (take k teardown) m)"
  shows "m_genl (fold (\<lambda>f. f) (take k teardown) m) = m_genl m"
    "m_rules (fold (\<lambda>f. f) (take k teardown) m) = m_rules m"
proof -
  let ?x = "\<lambda>k. fold (\<lambda>f. f) (take k teardown) m"
  have idle: "hooks_idle (stop_binder (stop_signal (stop_netfilter (stop_kp m))))"
    using exit_idle(1) [OF assms(1)]
    by (simp add: module_idle_def hooks_idle_def exit_fields stop_defs)
  have stay: "hooks_idle (stop_genl x) = hooks_idle x" "hooks_idle (drop_free_async x) = hooks_idle x"
    "hooks_idle (drop_net_uid x) = hooks_idle x" for x
    by (simp_all add: hooks_idle_def stop_defs)
  have "k < 4"
  proof (rule ccontr)
    assume "\<not> k < 4"
    then consider "k = 4" | "k = 5" | "k = 6" | "7 \<le> k" by linarith
    then show False
      using assms(2) idle by cases (simp_all add: teardown_def stay numeral_eq_Suc take_Cons')
  qed
  then consider "k = 0" | "k = 1" | "k = 2" | "k = 3" by linarith
  then show "m_genl (?x k) = m_genl m" "m_rules (?x k) = m_rules m"
    by (cases, simp_all add: teardown_def stop_defs numeral_eq_Suc)+
qed

section \<open>Properties\<close>

text \<open>A freshly loaded module, and environments in which everything succeeds, or the signal hook fails.\<close>

definition fresh_module :: rkx_module where
  "fresh_module = \<lparr>m_genl = \<lparr>rkx_genl_registered = False, family_known = False\<rparr>,
     m_binder = \<lparr>rkx_alloc_buf_hooked = False, rkx_reply_hooked = False, rkx_trans_hooked = False,
       bh_attached = {}\<rparr>,
     m_signal = \<lparr>rkx_signal_hooked = False, sh_attached = False\<rparr>,
     m_nf = \<lparr>nf_nets = [0, 1], nf_hooked = {}, nf_warned = [], rkx_netfilter_registered = False\<rparr>,
     m_kp = \<lparr>rkx_kp_registered = False, rkx_free_wq = False, kp_kallsyms_armed = False,
       kp_transaction_armed = False, kp_symbols = kp_null_syms, kp_heap = None\<rparr>,
     m_rules = \<lparr>rr_uids = [], rr_rules = \<lparr>rkx_free_async_map = [], rkx_free_async_count = 0\<rparr>\<rparr>\<rparr>"

definition sample_init_env :: "int \<Rightarrow> rkx_init_env" where
  "sample_init_env sig = \<lparr>ie_genl = 0, ie_binder = \<lparr>rc_alloc = 0, rc_reply = 0, rc_trans = 0\<rparr>,
     ie_signal = sig, ie_nf = (\<lambda>_. 0),
     ie_kp = \<lparr>re_version = (6, 6, 0), re_page_shift = 12, alloc_workqueue = True, register_kallsyms = 0,
       register_transaction = 0, kallsyms = kp_null_syms\<rparr>\<rparr>"

lemma fresh_ok: "module_ok fresh_module" "module_idle fresh_module"
  by (simp_all add: fresh_module_def module_ok_def binder_flags_ok_def nf_flags_ok_def kp_flags_ok_def
      module_idle_def hooks_idle_def nf_active_def kp_active_def)



text \<open>
  C28: the order of the teardown. After any number of its calls, as long as one hook is still attached,
  the family and both rule stores are untouched, so no hook ever runs on a destroyed store; and after
  all of them nothing is left.
\<close>

theorem exit_in_order:
  assumes "module_ok m"
  shows "(\<forall>k. hooks_idle (fold (\<lambda>f. f) (take k teardown) m) \<or>
      (m_genl (fold (\<lambda>f. f) (take k teardown) m) = m_genl m \<and>
       m_rules (fold (\<lambda>f. f) (take k teardown) m) = m_rules m)) \<and>
    module_idle (rkx_exit m) \<and> stores_empty (rkx_exit m)"
  using teardown_order [OF assms] exit_idle [OF assms] by blast

theorem exit_in_order_witness:
  "module_idle (rkx_exit (snd (rkx_init (sample_init_env 0) fresh_module))) \<and>
   stores_empty (rkx_exit (snd (rkx_init (sample_init_env 0) fresh_module)))"
proof -
  have "fst (rkx_init (sample_init_env 0) fresh_module) = RKX_SUCCESS"
    by (simp add: rkx_init_def start_defs sample_init_env_def rkx_register_genl_def
        rkx_register_binder_def rkx_register_signal_def register_netfilter_cases rkx_const)
  then have "module_ok (snd (rkx_init (sample_init_env 0) fresh_module))"
    using init_result [OF fresh_ok prod.collapse [symmetric], of "sample_init_env 0"] by auto
  from exit_in_order [OF this] show ?thesis by blast
qed

end
