(* ===== verification/Rkx_Nla.thy ===== *)
theory Rkx_Nla
  imports Rkx_Wire "HOL-Library.Monad_Syntax"
begin

text \<open>
  \<^verbatim>\<open>Develop/rekernel_x/src/main/cpp/rkx_nla.h\<close>: the attribute reader and the message
  builder of the client. A pointer to an attribute is an offset into the receive buffer, and every read
  is bounds-checked. The builder's \<^verbatim>\<open>uint16_t\<close> lengths wrap, as in the code.
\<close>

section \<open>Reading attributes\<close>

definition nla_len_field :: "bytes \<Rightarrow> nat \<Rightarrow> u16 option" where
  "nla_len_field buf nla = map_option of_le16 (load buf nla 2)"

definition nla_type :: "bytes \<Rightarrow> nat \<Rightarrow> u16 option" where
  "nla_type buf nla = map_option (\<lambda>b. of_le16 b AND NLA_TYPE_MASK) (load buf (nla + 2) 2)"

definition nla_data :: "nat \<Rightarrow> nat" where
  "nla_data nla = nla + NLA_HDRLEN"

definition nla_len :: "bytes \<Rightarrow> nat \<Rightarrow> u16 option" where
  "nla_len buf nla = map_option (\<lambda>l. l - of_nat NLA_HDRLEN) (nla_len_field buf nla)"

text \<open>The second and third test are evaluated only if the first holds, so a short buffer is not read.\<close>

definition nla_ok :: "bytes \<Rightarrow> nat \<Rightarrow> int \<Rightarrow> bool option" where
  "nla_ok buf nla remaining =
     (if remaining \<ge> int NLA_HDRLEN then do {
        l \<leftarrow> nla_len_field buf nla;
        Some (unat l \<ge> NLA_HDRLEN \<and> uint l \<le> remaining)
      } else Some False)"

definition nla_next :: "bytes \<Rightarrow> nat \<Rightarrow> int \<Rightarrow> (nat \<times> int) option" where
  "nla_next buf nla remaining = do {
     l \<leftarrow> nla_len_field buf nla;
     let totlen = NLA_ALIGN (unat l);
     Some (nla + totlen, remaining - int totlen)
   }"

lemma nla_next_decreases:
  assumes "nla_ok buf pos remaining = Some True" "nla_next buf pos remaining = Some nxt"
  shows "nat (snd nxt) < nat remaining" "fst nxt \<ge> pos + NLA_HDRLEN"
proof -
  obtain l where l: "nla_len_field buf pos = Some l" "NLA_HDRLEN \<le> unat l" "0 < remaining"
    "nxt = (pos + NLA_ALIGN (unat l), remaining - int (NLA_ALIGN (unat l)))"
    using assms by (auto simp: nla_ok_def nla_next_def rkx_const Let_def split: bind_splits if_splits)
  with NLA_ALIGN_ge(1) [of "unat l"] show "nat (snd nxt) < nat remaining" "fst nxt \<ge> pos + NLA_HDRLEN"
    by (auto simp: rkx_const)
qed

text \<open>\<^verbatim>\<open>nla_for_each_attr\<close>: the offsets its body runs on.\<close>

function nla_for_each_attr :: "bytes \<Rightarrow> nat \<Rightarrow> int \<Rightarrow> nat list option" where
  "nla_for_each_attr buf pos remaining =
     (case nla_ok buf pos remaining of
        None \<Rightarrow> None
      | Some ok \<Rightarrow>
          if ok then
            (case nla_next buf pos remaining of
               None \<Rightarrow> None
             | Some nxt \<Rightarrow> map_option (\<lambda>ps. pos # ps) (nla_for_each_attr buf (fst nxt) (snd nxt)))
          else Some [])"
  by pat_completeness auto
termination
proof (relation "measure (\<lambda>(buf, pos, remaining). nat remaining)", goal_cases)
  case (2 buf pos remaining ok nxt)
  then show ?case using nla_next_decreases(1) [of buf pos remaining nxt] by (simp add: case_prod_beta)
qed simp

declare nla_for_each_attr.simps [simp del]

definition rkx_nla_get :: "bytes \<Rightarrow> nat option \<Rightarrow> nat \<Rightarrow> (bytes option) option" where
  "rkx_nla_get buf nla size_of_T =
     (case nla of
        None \<Rightarrow> Some None
      | Some pos \<Rightarrow> do {
          l \<leftarrow> nla_len buf pos;
          if unat l < size_of_T then Some None
          else map_option Some (load buf (nla_data pos) size_of_T)
        })"

text \<open>The getters without a length check, and the one that returns a default.\<close>

definition nla_get_u8 :: "bytes \<Rightarrow> nat \<Rightarrow> u8 option" where
  "nla_get_u8 buf nla = load8 buf (nla_data nla)"

definition nla_get_u16 :: "bytes \<Rightarrow> nat \<Rightarrow> u16 option" where
  "nla_get_u16 buf nla = map_option of_le16 (load buf (nla_data nla) 2)"

definition nla_get_u32 :: "bytes \<Rightarrow> nat \<Rightarrow> u32 option" where
  "nla_get_u32 buf nla = map_option of_le32 (load buf (nla_data nla) 4)"

definition nla_get_s32 :: "bytes \<Rightarrow> nat \<Rightarrow> s32 option" where
  "nla_get_s32 buf nla = map_option of_le32 (load buf (nla_data nla) 4)"

definition nla_get_val :: "bytes \<Rightarrow> nat option \<Rightarrow> nat \<Rightarrow> bytes \<Rightarrow> bytes option" where
  "nla_get_val buf nla size_of_T def_val =
     (case nla of
        None \<Rightarrow> Some def_val
      | Some pos \<Rightarrow> do {
          l \<leftarrow> nla_len buf pos;
          if unat l < size_of_T then Some def_val
          else load buf (nla_data pos) size_of_T
        })"

text \<open>The table of \<^verbatim>\<open>maxtype + 1\<close> pointers; a later attribute of the same type wins.\<close>

fun nla_parse_loop :: "bytes \<Rightarrow> nat \<Rightarrow> nat list \<Rightarrow> (nat \<Rightarrow> nat option) \<Rightarrow> (nat \<Rightarrow> nat option) option" where
  "nla_parse_loop buf maxtype [] tb = Some tb"
| "nla_parse_loop buf maxtype (nla # rest) tb = do {
     ty \<leftarrow> nla_type buf nla;
     nla_parse_loop buf maxtype rest
       (if 0 < unat ty \<and> unat ty \<le> maxtype then tb(unat ty \<mapsto> nla) else tb)
   }"

definition rkx_nla_parse :: "bytes \<Rightarrow> nat \<Rightarrow> nat \<Rightarrow> int \<Rightarrow> (nat \<Rightarrow> nat option) option" where
  "rkx_nla_parse buf maxtype head len = do {
     ps \<leftarrow> nla_for_each_attr buf head len;
     nla_parse_loop buf maxtype ps (\<lambda>_. None)
   }"

definition rkx_nla_parse_nested :: "bytes \<Rightarrow> nat \<Rightarrow> nat \<Rightarrow> (nat \<Rightarrow> nat option) option" where
  "rkx_nla_parse_nested buf maxtype nla = do {
     l \<leftarrow> nla_len buf nla;
     rkx_nla_parse buf maxtype (nla_data nla) (uint l)
   }"

section \<open>Building messages\<close>

record nla_builder =
  nb_buf :: bytes
  nb_cap :: nat
  nb_len :: nat

definition NLM_F_REQUEST :: u16 where "NLM_F_REQUEST = 1"

definition nla_align16 :: "u16 \<Rightarrow> u16" where
  "nla_align16 l = (l + 3) AND NOT 3"

definition nb_put :: "nla_builder \<Rightarrow> u16 \<Rightarrow> bytes \<Rightarrow> u16 \<Rightarrow> (bool \<times> nla_builder) option" where
  "nb_put b ty data datalen =
     (let attr_len = of_nat NLA_HDRLEN + datalen;
          aligned = nla_align16 attr_len
      in if nb_len b + unat aligned > nb_cap b then Some (False, b)
         else do {
           buf \<leftarrow> store (nb_buf b) (nb_len b) (le16 attr_len);
           buf \<leftarrow> store buf (nb_len b + 2) (le16 ty);
           buf \<leftarrow> (if datalen \<noteq> 0 then do {
                     d \<leftarrow> load data 0 (unat datalen);
                     store buf (nb_len b + NLA_HDRLEN) d
                   } else Some buf);
           buf \<leftarrow> (if aligned > attr_len
                   then store buf (nb_len b + unat attr_len) (replicate (unat (aligned - attr_len)) 0)
                   else Some buf);
           Some (True, b\<lparr>nb_buf := buf, nb_len := nb_len b + unat aligned\<rparr>)
         })"

definition nb_new :: "bytes \<Rightarrow> nat \<Rightarrow> nla_builder option" where
  "nb_new buf cap = do {
     buf \<leftarrow> store buf 0 (replicate (NLMSG_HDRLEN + GENL_HDRLEN) 0);
     Some \<lparr>nb_buf = buf, nb_cap = cap, nb_len = NLMSG_HDRLEN + GENL_HDRLEN\<rparr>
   }"

definition putGenlHeader :: "nla_builder \<Rightarrow> u16 \<Rightarrow> u32 \<Rightarrow> u8 \<Rightarrow> u8 \<Rightarrow> nla_builder option" where
  "putGenlHeader b family seq cmd version = do {
     buf \<leftarrow> store (nb_buf b) 0 (le32 0);
     buf \<leftarrow> store buf 4 (le16 family);
     buf \<leftarrow> store buf 6 (le16 NLM_F_REQUEST);
     buf \<leftarrow> store buf 8 (le32 seq);
     buf \<leftarrow> store buf 12 (le32 0);
     buf \<leftarrow> store buf NLMSG_HDRLEN [cmd, version];
     buf \<leftarrow> store buf (NLMSG_HDRLEN + 2) (le16 0);
     Some (b\<lparr>nb_buf := buf\<rparr>)
   }"

definition putU32 :: "nla_builder \<Rightarrow> u16 \<Rightarrow> u32 \<Rightarrow> (bool \<times> nla_builder) option" where
  "putU32 b ty v = nb_put b ty (le32 v) 4"

definition putS32 :: "nla_builder \<Rightarrow> u16 \<Rightarrow> s32 \<Rightarrow> (bool \<times> nla_builder) option" where
  "putS32 b ty v = nb_put b ty (le32 v) 4"

definition putU8 :: "nla_builder \<Rightarrow> u16 \<Rightarrow> u8 \<Rightarrow> (bool \<times> nla_builder) option" where
  "putU8 b ty v = nb_put b ty [v] 1"

definition putString :: "nla_builder \<Rightarrow> u16 \<Rightarrow> bytes \<Rightarrow> (bool \<times> nla_builder) option" where
  "putString b ty s = nb_put b ty s (of_nat (strlen s + 1))"

definition nb_finish :: "nla_builder \<Rightarrow> (nat \<times> bytes) option" where
  "nb_finish b = do {
     buf \<leftarrow> store (nb_buf b) 0 (le32 (of_nat (nb_len b)));
     Some (nb_len b, buf)
   }"

section \<open>The reader inverts the wire format\<close>

text \<open>\<open>attr_at buf pos t d\<close>: an attribute of type \<open>t\<close> with payload \<open>d\<close> stands at \<open>pos\<close>.\<close>

definition attr_at :: "bytes \<Rightarrow> nat \<Rightarrow> u16 \<Rightarrow> bytes \<Rightarrow> bool" where
  "attr_at buf pos t d \<longleftrightarrow> 4 + length d < 2 ^ 16 \<and>
     load buf pos 2 = Some (le16 (of_nat (4 + length d))) \<and>
     load buf (pos + 2) 2 = Some (le16 t) \<and> load buf (pos + 4) (length d) = Some d"

lemma load_at: "pos = length pre \<Longrightarrow> n = length d \<Longrightarrow> load (pre @ d @ post) pos n = Some d"
  by (simp add: load_append)

lemma attr_at_tlv:
  assumes "4 + length d < 2 ^ 16"
  shows "attr_at (pre @ tlv t d @ post) (length pre) t d"
proof -
  let ?l = "le16 (of_nat (4 + length d))"
  obtain pad where tlv: "tlv t d = ?l @ le16 t @ d @ pad"
    by (simp add: tlv_def NLA_HDRLEN_def)
  have "load (pre @ ?l @ (le16 t @ d @ pad @ post)) (length pre) 2 = Some ?l"
    by (rule load_at) simp_all
  moreover have "load ((pre @ ?l) @ le16 t @ (d @ pad @ post)) (length pre + 2) 2 = Some (le16 t)"
    by (rule load_at) simp_all
  moreover have "load ((pre @ ?l @ le16 t) @ d @ (pad @ post)) (length pre + 4) (length d) = Some d"
    by (rule load_at) simp_all
  ultimately show ?thesis using assms by (simp add: attr_at_def tlv)
qed

lemma attr_at_fields:
  assumes "attr_at buf pos t d"
  shows "nla_len_field buf pos = Some (of_nat (4 + length d))"
    "unat (of_nat (4 + length d) :: u16) = 4 + length d"
    "nla_len buf pos = Some (of_nat (length d))" "unat (of_nat (length d) :: u16) = length d"
    "nla_type buf pos = Some (t AND NLA_TYPE_MASK)"
    "uint (of_nat (4 + length d) :: u16) = int (4 + length d)"
    "uint (of_nat (length d) :: u16) = int (length d)"
proof -
  have l: "4 + length d < 2 ^ 16" using assms by (simp add: attr_at_def)
  then show u: "unat (of_nat (4 + length d) :: u16) = 4 + length d"
    "unat (of_nat (length d) :: u16) = length d"
    by (simp_all only: unat_of_nat) simp_all
  show "uint (of_nat (4 + length d) :: u16) = int (4 + length d)"
    "uint (of_nat (length d) :: u16) = int (length d)"
    by (simp_all only: uint_nat u)
  show f: "nla_len_field buf pos = Some (of_nat (4 + length d))"
    using assms unfolding attr_at_def nla_len_field_def by simp
  show "nla_len buf pos = Some (of_nat (length d))"
    by (simp add: nla_len_def f rkx_const)
  show "nla_type buf pos = Some (t AND NLA_TYPE_MASK)"
    using assms by (simp add: attr_at_def nla_type_def)
qed

text \<open>The offsets of a list of attributes laid out from \<open>pos\<close>.\<close>

fun attr_offsets :: "nat \<Rightarrow> (u16 \<times> bytes) list \<Rightarrow> nat list" where
  "attr_offsets pos [] = []"
| "attr_offsets pos ((t, d) # as) = pos # attr_offsets (pos + nla_total_size (length d)) as"

definition small :: "(u16 \<times> bytes) list \<Rightarrow> bool" where
  "small as \<longleftrightarrow> list_all (\<lambda>(t, d). 4 + length d < 2 ^ 16) as"

lemma for_each_tlvs:
  "small as \<Longrightarrow> buf = pre @ tlvs as @ post \<Longrightarrow>
     nla_for_each_attr buf (length pre) (int (length (tlvs as))) = Some (attr_offsets (length pre) as)"
proof (induction as arbitrary: pre)
  case Nil
  then show ?case by (simp add: nla_for_each_attr.simps nla_ok_def NLA_HDRLEN_def)
next
  case (Cons a as)
  obtain t d where a: "a = (t, d)" by (cases a)
  have d: "4 + length d < 2 ^ 16" and small: "small as" using Cons.prems(1) by (auto simp: small_def a)
  have buf: "buf = pre @ tlv t d @ (tlvs as @ post)" using Cons.prems(2) by (simp add: a)
  have at: "attr_at buf (length pre) t d" unfolding buf by (rule attr_at_tlv [OF d])
  note f = attr_at_fields [OF at]
  let ?rem = "int (length (tlvs (a # as)))"
  have tot: "4 + length d \<le> nla_total_size (length d)"
    using nla_total_size_ge [of "length d"] by (simp add: rkx_const)
  have ok: "nla_ok buf (length pre) ?rem = Some True"
    using tot unfolding nla_ok_def f(1) by (simp add: f(2,6) rkx_const a del: of_nat_add)
  have nxt: "nla_next buf (length pre) ?rem =
      Some (length pre + nla_total_size (length d), int (length (tlvs as)))"
    by (simp add: nla_next_def f(1) f(2) Let_def a nla_total_size_def NLA_HDRLEN_def del: of_nat_add)
  have "nla_for_each_attr buf (length (pre @ tlv t d)) (int (length (tlvs as))) =
      Some (attr_offsets (length (pre @ tlv t d)) as)"
    by (rule Cons.IH [OF small]) (simp add: buf)
  then show ?case
    by (subst nla_for_each_attr.simps) (simp add: ok nxt, simp add: a)
qed

text \<open>The attribute a table of pointers should hold for a type: the last one of that type.\<close>

definition attr_lookup :: "(u16 \<times> bytes) list \<Rightarrow> nat \<Rightarrow> (u16 \<times> bytes) option" where
  "attr_lookup as = map_of (rev (map (\<lambda>(t, d). (unat (t AND NLA_TYPE_MASK), (t, d))) as))"

definition tb_slot :: "bytes \<Rightarrow> (u16 \<times> bytes) option \<Rightarrow> nat option \<Rightarrow> bool" where
  "tb_slot buf r slot \<longleftrightarrow>
     (case r of None \<Rightarrow> slot = None | Some (t, d) \<Rightarrow> (\<exists>pos. slot = Some pos \<and> attr_at buf pos t d))"

definition tb_for :: "bytes \<Rightarrow> nat \<Rightarrow> (u16 \<times> bytes) list \<Rightarrow> (nat \<Rightarrow> nat option) \<Rightarrow> bool" where
  "tb_for buf maxtype as tb \<longleftrightarrow> (\<forall>ty.
     tb_slot buf (if 0 < ty \<and> ty \<le> maxtype then attr_lookup as ty else None) (tb ty))"

lemma tb_slot_simps [simp]:
  "tb_slot buf None slot \<longleftrightarrow> slot = None"
  "tb_slot buf (Some (t, d)) (Some pos) \<longleftrightarrow> attr_at buf pos t d"
  "\<not> tb_slot buf (Some r) None"
  by (auto simp: tb_slot_def split: prod.splits)

lemma attr_lookup_Nil [simp]: "attr_lookup [] = Map.empty"
  by (simp add: attr_lookup_def)

lemma attr_lookup_snoc:
  "attr_lookup (as @ [(t, d)]) = (attr_lookup as)(unat (t AND NLA_TYPE_MASK) \<mapsto> (t, d))"
  by (simp add: attr_lookup_def)

lemma parse_loop_tlvs:
  "small as \<Longrightarrow> buf = pre @ tlvs as @ post \<Longrightarrow> tb_for buf maxtype as0 tb0 \<Longrightarrow>
     \<exists>tb. nla_parse_loop buf maxtype (attr_offsets (length pre) as) tb0 = Some tb \<and>
       tb_for buf maxtype (as0 @ as) tb"
proof (induction as arbitrary: pre as0 tb0)
  case (Cons a as)
  obtain t d where a: "a = (t, d)" by (cases a)
  have d: "4 + length d < 2 ^ 16" and small: "small as" using Cons.prems(1) by (auto simp: small_def a)
  have buf: "buf = pre @ tlv t d @ (tlvs as @ post)" using Cons.prems(2) by (simp add: a)
  have at: "attr_at buf (length pre) t d" unfolding buf by (rule attr_at_tlv [OF d])
  let ?ty = "unat (t AND NLA_TYPE_MASK)"
  let ?tb = "if 0 < ?ty \<and> ?ty \<le> maxtype then tb0(?ty \<mapsto> length pre) else tb0"
  have "tb_for buf maxtype (as0 @ [(t, d)]) ?tb"
    unfolding tb_for_def
  proof
    fix ty
    have "tb_slot buf (if 0 < ty \<and> ty \<le> maxtype then attr_lookup as0 ty else None) (tb0 ty)"
      using Cons.prems(3) unfolding tb_for_def by (rule spec)
    with at show "tb_slot buf
        (if 0 < ty \<and> ty \<le> maxtype then attr_lookup (as0 @ [(t, d)]) ty else None) (?tb ty)"
      by (cases "ty = ?ty") (auto simp: attr_lookup_snoc split: if_splits)
  qed
  moreover have "buf = (pre @ tlv t d) @ tlvs as @ post" by (simp add: buf)
  ultimately obtain tb where
    "nla_parse_loop buf maxtype (attr_offsets (length (pre @ tlv t d)) as) ?tb = Some tb"
    "tb_for buf maxtype ((as0 @ [(t, d)]) @ as) tb"
    using Cons.IH [OF small] by blast
  then show ?case by (simp add: a attr_at_fields(5) [OF at])
qed simp

lemma parse_tlvs:
  assumes "small as" "buf = pre @ tlvs as @ post" "head = length pre" "len = int (length (tlvs as))"
  shows "\<exists>tb. rkx_nla_parse buf maxtype head len = Some tb \<and> tb_for buf maxtype as tb"
proof -
  have "tb_for buf maxtype [] (\<lambda>_. None)" by (simp add: tb_for_def)
  from parse_loop_tlvs [OF assms(1,2) this] show ?thesis
    by (simp add: rkx_nla_parse_def assms(3,4) for_each_tlvs [OF assms(1,2)])
qed

lemma parse_nested_tlvs:
  assumes at: "attr_at buf pos t (tlvs as)" and small: "small as"
  shows "\<exists>tb. rkx_nla_parse_nested buf maxtype pos = Some tb \<and> tb_for buf maxtype as tb"
proof -
  from at have ld: "load buf (pos + 4) (length (tlvs as)) = Some (tlvs as)"
    by (simp add: attr_at_def)
  then have "buf = take (pos + 4) buf @ tlvs as @ drop (pos + 4 + length (tlvs as)) buf"
    "length (take (pos + 4) buf) = pos + 4"
    by (auto simp: load_def split: if_splits)
       (metis append_take_drop_id drop_drop add.commute)+
  from parse_tlvs [OF small this(1), of "pos + 4" "int (length (tlvs as))"] this(2) show ?thesis
    by (simp add: rkx_nla_parse_nested_def attr_at_fields [OF at] nla_data_def NLA_HDRLEN_def)
qed

lemma tb_for_Some:
  assumes "tb_for buf maxtype as tb" "attr_lookup as ty = Some (t, d)" "0 < ty" "ty \<le> maxtype"
  shows "\<exists>pos. tb ty = Some pos \<and> attr_at buf pos t d"
  using assms spec [OF assms(1) [unfolded tb_for_def], of ty] by (cases "tb ty") auto

lemma tb_for_None: "tb_for buf maxtype as tb \<Longrightarrow> attr_lookup as ty = None \<Longrightarrow> tb ty = None"
  unfolding tb_for_def by (drule spec [of _ ty]) (simp split: if_splits)

text \<open>A guarded read of a 32-bit attribute returns its value.\<close>

lemma nla_get_attr:
  assumes "attr_at buf pos t d"
  shows "rkx_nla_get buf (Some pos) (length d) = Some (Some d)"
  using assms attr_at_fields [OF assms]
  by (simp add: rkx_nla_get_def nla_data_def NLA_HDRLEN_def attr_at_def)

section \<open>The builder produces the wire format\<close>

text \<open>\<open>nb_ok b h as\<close>: the buffer starts with 20 header bytes \<open>h\<close> and the attributes \<open>as\<close>.\<close>

definition nb_ok :: "nla_builder \<Rightarrow> bytes \<Rightarrow> (u16 \<times> bytes) list \<Rightarrow> bool" where
  "nb_ok b h as \<longleftrightarrow> length h = 20 \<and> length (nb_buf b) = nb_cap b \<and>
     nb_len b = 20 + length (tlvs as) \<and> nb_len b \<le> nb_cap b \<and>
     take (nb_len b) (nb_buf b) = h @ tlvs as"

lemma store_take:
  "store buf off d = Some buf' \<Longrightarrow> take (off + length d) buf' = take off buf @ d"
  by (auto simp: store_def split: if_splits)

lemma store_append:
  "length pre = off \<Longrightarrow> length d = length old \<Longrightarrow>
     store (pre @ old @ post) off d = Some (pre @ d @ post)"
  by (simp add: store_def)

lemma store_split:
  assumes "off + length d \<le> length buf"
  shows "store buf off d = Some (take off buf @ d @ drop (off + length d) buf)"
  using assms by (simp add: store_def)

lemma align16:
  assumes "4 + n + 3 < 2 ^ 16"
  shows "unat (nla_align16 (of_nat (4 + n))) = nla_total_size n"
proof -
  have "(of_nat (4 + n) + 3 :: u16) = of_nat (4 + n + 3)" by simp
  moreover have "unat (of_nat (4 + n + 3) :: u16) = 4 + n + 3"
    using assms by (simp only: unat_of_nat) simp
  ultimately show ?thesis
    by (simp only: nla_align16_def nla_total_size_def NLA_ALIGN_def NLA_HDRLEN_def unat_and_not_3)
qed

lemma store_ex: "off + length d \<le> length buf \<Longrightarrow> \<exists>buf'. store buf off d = Some buf'"
  by (simp add: store_def)

text \<open>Writing \<open>d\<close> where the first \<open>off\<close> bytes are \<open>pre\<close>: the first bytes are then \<open>pre @ d\<close>.\<close>

lemma store_extends:
  assumes "take off buf = pre" "length pre = off" "off + length d \<le> length buf" "off + length d = off'"
  shows "\<exists>buf'. store buf off d = Some buf' \<and> length buf' = length buf \<and> take off' buf' = pre @ d"
  using assms store_ex [OF assms(3)] store_take [of buf off d] store_length [of buf off d] by fastforce

lemma nb_put_correct:
  assumes ok: "nb_ok b h as" and n: "n + 7 < 2 ^ 16" "n \<le> length data"
  shows "if nb_len b + nla_total_size n \<le> nb_cap b
    then \<exists>b'. nb_put b ty data (of_nat n) = Some (True, b') \<and> nb_ok b' h (as @ [(ty, take n data)]) \<and>
      nb_cap b' = nb_cap b
    else nb_put b ty data (of_nat n) = Some (False, b)"
proof -
  define a where "a = (of_nat (4 + n) :: u16)"
  let ?L = "nb_len b" and ?d = "take n data"
  let ?pad = "replicate (nla_total_size n - (4 + n)) (0 :: u8)"
  have a: "of_nat NLA_HDRLEN + of_nat n = a" by (simp add: NLA_HDRLEN_def a_def)
  have ua: "unat a = 4 + n" "unat (of_nat n :: u16) = n" using n by (simp_all only: unat_of_nat a_def) simp_all
  have ut: "unat (nla_align16 a) = nla_total_size n" using align16 [of n] n(1) by (simp add: a_def)
  have le: "4 + n \<le> nla_total_size n" using nla_total_size_ge [of n] by (simp add: NLA_HDRLEN_def)
  have gt: "nla_align16 a > a \<longleftrightarrow> ?pad \<noteq> []" using le by (auto simp: word_less_nat_alt ua ut)
  have diff: "unat (nla_align16 a - a) = nla_total_size n - (4 + n)"
    using le by (subst unat_sub) (simp_all only: word_le_nat_alt ua ut)
  have z: "of_nat n \<noteq> (0 :: u16) \<longleftrightarrow> ?d \<noteq> []" using n ua(2) by (auto simp: unat_eq_zero [symmetric])
  show ?thesis
  proof (cases "?L + nla_total_size n \<le> nb_cap b")
    case False
    then show ?thesis by (simp add: nb_put_def Let_def a ut)
  next
    case True
    have b: "length (nb_buf b) = nb_cap b" "take ?L (nb_buf b) = h @ tlvs as" "?L = length (h @ tlvs as)"
      using ok by (auto simp: nb_ok_def)
    have room: "?L + 4 + n \<le> length (nb_buf b)" using True le b(1) by linarith
    obtain b1 where 1: "store (nb_buf b) ?L (le16 a) = Some b1" "length b1 = length (nb_buf b)"
      "take (?L + 2) b1 = (h @ tlvs as) @ le16 a"
      using store_extends [OF b(2) b(3) [symmetric], of "le16 a" "?L + 2"] room by auto
    obtain b2 where 2: "store b1 (?L + 2) (le16 ty) = Some b2" "length b2 = length (nb_buf b)"
      "take (?L + 4) b2 = (h @ tlvs as) @ le16 a @ le16 ty"
      using store_extends [OF 1(3), of "le16 ty" "?L + 4"] room 1(2) b(3) by (auto simp del: add_2_eq_Suc')
    obtain b3 where 3: "store b2 (?L + 4) ?d = Some b3" "length b3 = length (nb_buf b)"
      "take (?L + 4 + n) b3 = (h @ tlvs as) @ le16 a @ le16 ty @ ?d"
      using store_extends [OF 2(3), of ?d "?L + 4 + n"] room 2(2) b(3) n(2) by auto
    obtain b4 where 4: "store b3 (?L + 4 + n) ?pad = Some b4" "length b4 = length (nb_buf b)"
      "take (?L + nla_total_size n) b4 = (h @ tlvs as) @ le16 a @ le16 ty @ ?d @ ?pad"
      using store_extends [OF 3(3), of ?pad "?L + nla_total_size n"] True le 3(2) b n(2) by auto
    have e3: "(if of_nat n \<noteq> (0 :: u16) then do { d \<leftarrow> load data 0 (unat (of_nat n :: u16)); store b2 (?L + 4) d }
        else Some b2) = Some b3"
      using 3(1) n(2) z ua(2) by (auto simp: load_def store_def split: if_splits)
    have e4: "(if nla_align16 a > a then store b3 (?L + unat a) (replicate (unat (nla_align16 a - a)) 0)
        else Some b3) = Some b4"
      using 4(1) gt unfolding diff ua(1) by (auto simp: store_def add.assoc split: if_splits)
    have "tlv ty ?d = le16 a @ le16 ty @ ?d @ ?pad"
      using n(2) by (simp add: tlv_def NLA_HDRLEN_def a_def)
    then have "nb_ok (b\<lparr>nb_buf := b4, nb_len := ?L + nla_total_size n\<rparr>) h (as @ [(ty, ?d)])"
      using ok True 4 n(2) b(1) le by (simp add: nb_ok_def)
    moreover have "nb_put b ty data (of_nat n) = Some (True, b\<lparr>nb_buf := b4, nb_len := ?L + nla_total_size n\<rparr>)"
    proof -
      have "\<not> nb_cap b < ?L + nla_total_size n" using True by simp
      then show ?thesis
        unfolding nb_put_def Let_def a ut
        by (simp only: if_False NLA_HDRLEN_def 1(1) 2(1) e3 e4 Option.bind_lunit)
    qed
    ultimately show ?thesis using True by simp
  qed
qed

text \<open>A fresh builder with its header, and the finished message.\<close>

lemma nb_start:
  assumes "length buf = cap" "20 \<le> cap"
  shows "\<exists>b b'. nb_new buf cap = Some b \<and> putGenlHeader b fam seq cmd RKX_GENL_VERSION = Some b' \<and>
    nb_ok b' (genl_header 0 fam NLM_F_REQUEST seq cmd) [] \<and> nb_cap b' = cap"
proof -
  have "\<exists>b0. store buf 0 (replicate 20 0) = Some b0 \<and> length b0 = cap"
    using store_extends [of 0 buf "[]" "replicate 20 0" 20] assms by auto
  then obtain b0 where b0: "store buf 0 (replicate 20 0) = Some b0" "length b0 = cap" by blast
  have "\<exists>b1. store b0 0 (le32 0) = Some b1 \<and> length b1 = cap \<and> take 4 b1 = le32 0"
    using store_extends [of 0 b0 "[]" "le32 0" 4] assms(2) b0(2) by auto
  then obtain b1 where 1: "store b0 0 (le32 0) = Some b1" "length b1 = cap" "take 4 b1 = le32 0" by blast
  have "\<exists>b2. store b1 4 (le16 fam) = Some b2 \<and> length b2 = cap \<and> take 6 b2 = le32 0 @ le16 fam"
    using store_extends [OF 1(3), of "le16 fam" 6] assms(2) 1(2) by auto
  then obtain b2 where 2: "store b1 4 (le16 fam) = Some b2" "length b2 = cap" "take 6 b2 = le32 0 @ le16 fam" by blast
  have "\<exists>b3. store b2 6 (le16 NLM_F_REQUEST) = Some b3 \<and> length b3 = cap \<and> take 8 b3 = le32 0 @ le16 fam @ le16 NLM_F_REQUEST"
    using store_extends [OF 2(3), of "le16 NLM_F_REQUEST" 8] assms(2) 2(2) by auto
  then obtain b3 where 3: "store b2 6 (le16 NLM_F_REQUEST) = Some b3" "length b3 = cap"
    "take 8 b3 = le32 0 @ le16 fam @ le16 NLM_F_REQUEST" by blast
  have "\<exists>b4. store b3 8 (le32 seq) = Some b4 \<and> length b4 = cap \<and> take 12 b4 = le32 0 @ le16 fam @ le16 NLM_F_REQUEST @ le32 seq"
    using store_extends [OF 3(3), of "le32 seq" 12] assms(2) 3(2) by auto
  then obtain b4 where 4: "store b3 8 (le32 seq) = Some b4" "length b4 = cap"
    "take 12 b4 = le32 0 @ le16 fam @ le16 NLM_F_REQUEST @ le32 seq" by blast
  have "\<exists>b5. store b4 12 (le32 0) = Some b5 \<and> length b5 = cap \<and> take 16 b5 = le32 0 @ le16 fam @ le16 NLM_F_REQUEST @ le32 seq @ le32 0"
    using store_extends [OF 4(3), of "le32 0" 16] assms(2) 4(2) by auto
  then obtain b5 where 5: "store b4 12 (le32 0) = Some b5" "length b5 = cap"
    "take 16 b5 = le32 0 @ le16 fam @ le16 NLM_F_REQUEST @ le32 seq @ le32 0" by blast
  have "\<exists>b6. store b5 16 [cmd, RKX_GENL_VERSION] = Some b6 \<and> length b6 = cap \<and> take 18 b6 = le32 0 @ le16 fam @ le16 NLM_F_REQUEST @ le32 seq @ le32 0 @ [cmd, RKX_GENL_VERSION]"
    using store_extends [OF 5(3), of "[cmd, RKX_GENL_VERSION]" 18] assms(2) 5(2) by auto
  then obtain b6 where 6: "store b5 16 [cmd, RKX_GENL_VERSION] = Some b6" "length b6 = cap"
    "take 18 b6 = le32 0 @ le16 fam @ le16 NLM_F_REQUEST @ le32 seq @ le32 0 @ [cmd, RKX_GENL_VERSION]" by blast
  have "\<exists>b7. store b6 18 (le16 0) = Some b7 \<and> length b7 = cap \<and> take 20 b7 = le32 0 @ le16 fam @ le16 NLM_F_REQUEST @ le32 seq @ le32 0 @ [cmd, RKX_GENL_VERSION] @ le16 0"
    using store_extends [OF 6(3), of "le16 0" 20] assms(2) 6(2) by auto
  then obtain b7 where 7: "store b6 18 (le16 0) = Some b7" "length b7 = cap"
    "take 20 b7 = le32 0 @ le16 fam @ le16 NLM_F_REQUEST @ le32 seq @ le32 0 @ [cmd, RKX_GENL_VERSION] @ le16 0" by blast
  have new: "nb_new buf cap = Some \<lparr>nb_buf = b0, nb_cap = cap, nb_len = 20\<rparr>"
    using b0(1) by (simp add: nb_new_def NLMSG_HDRLEN_def GENL_HDRLEN_def)
  moreover have "putGenlHeader \<lparr>nb_buf = b0, nb_cap = cap, nb_len = 20\<rparr> fam seq cmd RKX_GENL_VERSION =
      Some \<lparr>nb_buf = b7, nb_cap = cap, nb_len = 20\<rparr>"
    using 1(1) 2(1) 3(1) 4(1) 5(1) 6(1) 7(1) by (simp add: putGenlHeader_def NLMSG_HDRLEN_def)
  moreover have "nb_ok \<lparr>nb_buf = b7, nb_cap = cap, nb_len = 20\<rparr> (genl_header 0 fam NLM_F_REQUEST seq cmd) []"
    using 7 assms by (simp add: nb_ok_def genl_header_def le16_def)
  ultimately show ?thesis by auto
qed

lemma nb_finish_correct:
  assumes "nb_ok b (genl_header 0 fam NLM_F_REQUEST seq cmd) as"
  shows "\<exists>buf. nb_finish b = Some (length (genl_msg fam NLM_F_REQUEST seq cmd (tlvs as)), buf) \<and>
    length buf = nb_cap b \<and>
    take (length (genl_msg fam NLM_F_REQUEST seq cmd (tlvs as))) buf = genl_msg fam NLM_F_REQUEST seq cmd (tlvs as)"
proof -
  let ?L = "nb_len b" and ?m = "genl_msg fam NLM_F_REQUEST seq cmd (tlvs as)"
  have ok: "length (nb_buf b) = nb_cap b" "?L = 20 + length (tlvs as)" "?L \<le> nb_cap b"
    "take ?L (nb_buf b) = genl_header 0 fam NLM_F_REQUEST seq cmd @ tlvs as"
    using assms by (auto simp: nb_ok_def)
  have l: "length ?m = ?L" by (simp add: genl_msg_def ok(2))
  have st: "store (nb_buf b) 0 (le32 (of_nat ?L)) = Some (le32 (of_nat ?L) @ drop 4 (nb_buf b))"
    using ok by (simp add: store_def)
  have "take ?L (le32 (of_nat ?L) @ drop 4 (nb_buf b)) = le32 (of_nat ?L) @ drop 4 (take ?L (nb_buf b))"
    using ok(2) by (simp add: drop_take)
  also have "\<dots> = ?m"
    unfolding ok(4) by (simp add: genl_msg_def genl_header_def ok(2) rkx_const)
  finally show ?thesis
    using st ok by (simp add: nb_finish_def l)
qed

section \<open>What was read is the same in a longer buffer\<close>

lemma load_prefix: "load h off n = Some v \<Longrightarrow> load (h @ x) off n = Some v"
  by (auto simp: load_def split: if_splits)

lemma nla_len_field_append: "nla_len_field d p = Some l \<Longrightarrow> nla_len_field (d @ x) p = Some l"
  by (auto simp: nla_len_field_def load_prefix)

lemma nla_type_append: "nla_type d p = Some t \<Longrightarrow> nla_type (d @ x) p = Some t"
  by (auto simp: nla_type_def load_prefix)

lemma for_each_append:
  "nla_for_each_attr d pos remaining = Some ps \<Longrightarrow> nla_for_each_attr (d @ x) pos remaining = Some ps"
proof (induction d pos remaining arbitrary: ps rule: nla_for_each_attr.induct)
  case (1 d pos remaining)
  obtain ok where ok: "nla_ok d pos remaining = Some ok"
    using "1.prems" by (subst (asm) nla_for_each_attr.simps) (auto split: option.splits)
  then have ok': "nla_ok (d @ x) pos remaining = Some ok"
    by (auto simp: nla_ok_def nla_len_field_append split: if_splits bind_splits)
  show ?case
  proof (cases ok)
    case False
    with "1.prems" show ?thesis by (subst (asm) nla_for_each_attr.simps, subst nla_for_each_attr.simps) (simp add: ok ok')
  next
    case True
    then obtain nxt qs where nxt: "nla_next d pos remaining = Some nxt"
      and qs: "nla_for_each_attr d (fst nxt) (snd nxt) = Some qs" "ps = pos # qs"
      using "1.prems" ok by (subst (asm) nla_for_each_attr.simps) (auto split: option.splits)
    have "nla_next (d @ x) pos remaining = Some nxt"
      using nxt by (auto simp: nla_next_def nla_len_field_append Let_def split: bind_splits)
    moreover have "nla_for_each_attr (d @ x) (fst nxt) (snd nxt) = Some qs"
      using "1.IH" [OF ok True nxt qs(1)] .
    ultimately show ?thesis using True ok' qs(2) by (subst nla_for_each_attr.simps) simp
  qed
qed

lemma parse_loop_append:
  "nla_parse_loop d maxtype ps tb = Some tb' \<Longrightarrow> nla_parse_loop (d @ x) maxtype ps tb = Some tb'"
  by (induction ps arbitrary: tb) (auto simp: nla_type_append split: bind_splits)

lemma parse_append:
  "rkx_nla_parse d maxtype head len = Some tb \<Longrightarrow> rkx_nla_parse (d @ x) maxtype head len = Some tb"
  by (auto simp: rkx_nla_parse_def for_each_append parse_loop_append split: bind_splits)

lemma parse_nested_append:
  "rkx_nla_parse_nested d maxtype p = Some tb \<Longrightarrow> rkx_nla_parse_nested (d @ x) maxtype p = Some tb"
  by (auto simp: rkx_nla_parse_nested_def nla_len_def nla_len_field_append parse_append split: bind_splits)

section \<open>The reader stays inside the buffer\<close>

text \<open>\<open>attr_in buf p lo hi\<close>: the attribute at \<open>p\<close>, by its own length field, lies in \<open>[lo, hi)\<close>.\<close>

definition attr_in :: "bytes \<Rightarrow> nat \<Rightarrow> nat \<Rightarrow> nat \<Rightarrow> bool" where
  "attr_in buf p lo hi \<longleftrightarrow> lo \<le> p \<and>
     (\<exists>l. nla_len_field buf p = Some l \<and> 4 \<le> unat l \<and> p + unat l \<le> hi)"

lemma nla_ok_in:
  assumes "int pos + remaining \<le> int hi" "hi \<le> length buf"
  shows "\<exists>ok. nla_ok buf pos remaining = Some ok \<and> (ok \<longrightarrow> attr_in buf pos pos hi)"
proof (cases "4 \<le> remaining")
  case True
  with assms have "pos + 2 \<le> length buf" by linarith
  then obtain l where l: "nla_len_field buf pos = Some l" by (auto simp: nla_len_field_def load_def)
  have "uint l \<le> remaining \<Longrightarrow> pos + unat l \<le> hi"
    using assms(1) unfolding uint_nat by linarith
  with True l show ?thesis by (auto simp: nla_ok_def attr_in_def rkx_const)
qed (auto simp: nla_ok_def rkx_const)

lemma attr_in_mono: "attr_in buf p lo hi \<Longrightarrow> lo' \<le> lo \<Longrightarrow> hi \<le> hi' \<Longrightarrow> attr_in buf p lo' hi'"
  by (auto simp: attr_in_def intro: order_trans)

lemma for_each_in:
  "int pos + remaining \<le> int hi \<Longrightarrow> hi \<le> length buf \<Longrightarrow>
     \<exists>ps. nla_for_each_attr buf pos remaining = Some ps \<and> list_all (\<lambda>p. attr_in buf p pos hi) ps"
proof (induction buf pos remaining rule: nla_for_each_attr.induct)
  case (1 buf pos remaining)
  obtain ok where ok: "nla_ok buf pos remaining = Some ok" and at: "ok \<longrightarrow> attr_in buf pos pos hi"
    using nla_ok_in [OF 1(2,3)] by blast
  show ?case
  proof (cases ok)
    case False
    with ok show ?thesis by (simp add: nla_for_each_attr.simps)
  next
    case True
    with at obtain l where l: "nla_len_field buf pos = Some l" by (auto simp: attr_in_def)
    let ?n = "NLA_ALIGN (unat l)"
    have nxt: "nla_next buf pos remaining = Some (pos + ?n, remaining - int ?n)"
      by (simp add: nla_next_def l Let_def)
    have "\<exists>ps. nla_for_each_attr buf (pos + ?n) (remaining - int ?n) = Some ps \<and>
        list_all (\<lambda>p. attr_in buf p (pos + ?n) hi) ps"
      using 1(1) [OF ok True nxt] 1(2,3) by simp
    then obtain ps where ps: "nla_for_each_attr buf (pos + ?n) (remaining - int ?n) = Some ps"
      "list_all (\<lambda>p. attr_in buf p (pos + ?n) hi) ps" by blast
    have "list_all (\<lambda>p. attr_in buf p pos hi) ps"
      by (rule list.pred_mono_strong [OF ps(2)]) (erule attr_in_mono; simp)
    with ps(1) show ?thesis
      using True at by (subst nla_for_each_attr.simps) (simp add: ok nxt)
  qed
qed

lemma nla_type_in:
  assumes "attr_in buf p lo hi" "hi \<le> length buf"
  shows "\<exists>t. nla_type buf p = Some t"
proof -
  have "p + 4 \<le> length buf" using assms by (auto simp: attr_in_def)
  then show ?thesis by (simp add: nla_type_def load_def)
qed

lemma nla_len_in:
  assumes "attr_in buf p lo hi"
  shows "\<exists>l. nla_len buf p = Some l \<and> p + 4 + unat l \<le> hi"
proof -
  obtain l where l: "nla_len_field buf p = Some l" "4 \<le> unat l" "p + unat l \<le> hi"
    using assms by (auto simp: attr_in_def)
  have "unat (l - 4) = unat l - 4" using l(2) by (subst unat_sub) (simp_all add: word_le_nat_alt)
  with l show ?thesis by (simp add: nla_len_def NLA_HDRLEN_def)
qed

definition tb_in :: "bytes \<Rightarrow> nat \<Rightarrow> (nat \<Rightarrow> nat option) \<Rightarrow> nat \<Rightarrow> nat \<Rightarrow> bool" where
  "tb_in buf maxtype tb lo hi \<longleftrightarrow>
     (\<forall>ty p. tb ty = Some p \<longrightarrow> 0 < ty \<and> ty \<le> maxtype \<and> attr_in buf p lo hi)"

lemma parse_loop_in:
  "list_all (\<lambda>p. attr_in buf p lo hi) ps \<Longrightarrow> hi \<le> length buf \<Longrightarrow> tb_in buf maxtype tb0 lo hi \<Longrightarrow>
     \<exists>tb. nla_parse_loop buf maxtype ps tb0 = Some tb \<and> tb_in buf maxtype tb lo hi"
proof (induction ps arbitrary: tb0)
  case (Cons p ps)
  then obtain t where t: "nla_type buf p = Some t" using nla_type_in by fastforce
  have "tb_in buf maxtype (if 0 < unat t \<and> unat t \<le> maxtype then tb0(unat t \<mapsto> p) else tb0) lo hi"
    using Cons.prems by (auto simp: tb_in_def)
  with Cons show ?case by (simp add: t)
qed simp

lemma parse_in:
  assumes "int head + len \<le> int hi" "hi \<le> length buf"
  shows "\<exists>tb. rkx_nla_parse buf maxtype head len = Some tb \<and> tb_in buf maxtype tb head hi"
proof -
  obtain ps where ps: "nla_for_each_attr buf head len = Some ps"
    "list_all (\<lambda>p. attr_in buf p head hi) ps"
    using for_each_in [OF assms] by blast
  have "tb_in buf maxtype (\<lambda>_. None) head hi" by (simp add: tb_in_def)
  from parse_loop_in [OF ps(2) assms(2) this] show ?thesis by (simp add: rkx_nla_parse_def ps(1))
qed

lemma parse_nested_in:
  assumes "attr_in buf p lo hi" "hi \<le> length buf"
  shows "\<exists>tb. rkx_nla_parse_nested buf maxtype p = Some tb \<and> tb_in buf maxtype tb (p + 4) hi"
proof -
  obtain l where l: "nla_len buf p = Some l" "p + 4 + unat l \<le> hi"
    using nla_len_in [OF assms(1)] by blast
  have "int (p + 4) + uint l \<le> int hi" using l(2) unfolding uint_nat by linarith
  from parse_in [OF this assms(2), of maxtype] show ?thesis
    by (simp add: rkx_nla_parse_nested_def l(1) nla_data_def NLA_HDRLEN_def)
qed

lemma get_in:
  assumes "attr_in buf p lo hi" "hi \<le> length buf"
  shows "\<exists>r. rkx_nla_get buf (Some p) n = Some r"
proof -
  obtain l where l: "nla_len buf p = Some l" "p + 4 + unat l \<le> length buf"
    using nla_len_in [OF assms(1)] assms(2) by fastforce
  show ?thesis
    by (cases "unat l < n") (use l in \<open>simp_all add: rkx_nla_get_def nla_data_def NLA_HDRLEN_def load_def\<close>)
qed

section \<open>Properties\<close>

definition sample_attrs :: "(u16 \<times> bytes) list" where
  "sample_attrs = [(7, [1, 2, 3, 4]), (9, [5]), (7, [6, 7])]"

text \<open>
  C16: the reader inverts the wire format. On a buffer that holds the attributes \<open>as\<close>, whatever stands
  before and behind them, \<^verbatim>\<open>rkx_nla_parse\<close> fills the slot of every type up to \<open>maxtype\<close> with
  the last attribute of that type, whose payload \<^verbatim>\<open>rkx_nla_get\<close> then returns, and leaves every
  other slot null.
\<close>

theorem nla_parse_roundtrip:
  assumes "small as"
  shows "\<exists>tb. rkx_nla_parse (pre @ tlvs as @ post) maxtype (length pre) (int (length (tlvs as))) = Some tb \<and>
    (\<forall>ty. case (if 0 < ty \<and> ty \<le> maxtype then attr_lookup as ty else None) of
       None \<Rightarrow> tb ty = None
     | Some (t, d) \<Rightarrow> tb ty \<noteq> None \<and>
         rkx_nla_get (pre @ tlvs as @ post) (tb ty) (length d) = Some (Some d))"
proof -
  let ?buf = "pre @ tlvs as @ post"
  obtain tb where tb: "rkx_nla_parse ?buf maxtype (length pre) (int (length (tlvs as))) = Some tb"
    "tb_for ?buf maxtype as tb"
    using parse_tlvs [OF assms refl refl refl] by blast
  have "case (if 0 < ty \<and> ty \<le> maxtype then attr_lookup as ty else None) of
       None \<Rightarrow> tb ty = None
     | Some (t, d) \<Rightarrow> tb ty \<noteq> None \<and> rkx_nla_get ?buf (tb ty) (length d) = Some (Some d)" for ty
    using spec [OF tb(2) [unfolded tb_for_def], of ty]
    by (auto simp: tb_slot_def nla_get_attr split: option.splits)
  with tb(1) show ?thesis by blast
qed

theorem nla_parse_roundtrip_witness:
  "\<exists>tb. rkx_nla_parse ([0, 0] @ tlvs sample_attrs @ []) 8 2 24 = Some tb \<and> tb 9 = None \<and>
     rkx_nla_get ([0, 0] @ tlvs sample_attrs @ []) (tb 7) 2 = Some (Some [6, 7])"
proof -
  have sm: "small sample_attrs" by (simp add: small_def sample_attrs_def)
  have l: "int (length (tlvs sample_attrs)) = 24" by code_simp
  have at: "attr_lookup sample_attrs 7 = Some (7, [6, 7])" by code_simp
  obtain tb where tb: "rkx_nla_parse ([0, 0] @ tlvs sample_attrs @ []) 8 (length [0, 0 :: u8])
      (int (length (tlvs sample_attrs))) = Some tb"
    and s: "\<And>ty. case (if 0 < ty \<and> ty \<le> 8 then attr_lookup sample_attrs ty else None) of
       None \<Rightarrow> tb ty = None
     | Some (t, d) \<Rightarrow> tb ty \<noteq> None \<and>
         rkx_nla_get ([0, 0] @ tlvs sample_attrs @ []) (tb ty) (length d) = Some (Some d)"
    using nla_parse_roundtrip [OF sm, of "[0, 0]" "[]" 8] by blast
  show ?thesis using tb s [of 7] s [of 9] by (simp add: at l numeral_2_eq_2)
qed

text \<open>
  C23: the reader is memory safe on every input. Whatever bytes stand between \<open>head\<close> and
  \<open>head + len\<close>, as long as these are in the buffer, parsing terminates without a read outside the
  buffer, and so do reading any slot as a value of any size and parsing any slot as a nested attribute;
  only slots 1 to \<open>maxtype\<close> of the table are written.
\<close>

theorem nla_parse_safe:
  assumes "int head + len \<le> int (length buf)"
  shows "\<exists>tb. rkx_nla_parse buf maxtype head len = Some tb \<and>
    (\<forall>ty p. tb ty = Some p \<longrightarrow> 0 < ty \<and> ty \<le> maxtype \<and>
       (\<forall>n. rkx_nla_get buf (Some p) n \<noteq> None) \<and> (\<forall>m. rkx_nla_parse_nested buf m p \<noteq> None))"
proof -
  obtain tb where tb: "rkx_nla_parse buf maxtype head len = Some tb" "tb_in buf maxtype tb head (length buf)"
    using parse_in [OF assms order_refl] by blast
  have "rkx_nla_get buf (Some p) n \<noteq> None" "rkx_nla_parse_nested buf m p \<noteq> None"
    if "tb ty = Some p" for ty p n m
  proof -
    have at: "attr_in buf p head (length buf)" using tb(2) that by (simp add: tb_in_def)
    show "rkx_nla_get buf (Some p) n \<noteq> None" using get_in [OF at order_refl, of n] by auto
    show "rkx_nla_parse_nested buf m p \<noteq> None" using parse_nested_in [OF at order_refl, of m] by auto
  qed
  with tb show ?thesis by (auto simp: tb_in_def)
qed

text \<open>A truncated attribute: its length field claims 200 bytes where eight are left.\<close>

theorem nla_parse_safe_witness:
  "\<exists>tb. rkx_nla_parse [200, 0, 1, 0, 9, 9, 9, 9] 49 0 8 = Some tb \<and>
     (\<forall>p. tb 1 = Some p \<longrightarrow> rkx_nla_parse_nested [200, 0, 1, 0, 9, 9, 9, 9] 49 p \<noteq> None)"
  using nla_parse_safe [of 0 8 "[200, 0, 1, 0, 9, 9, 9, 9]" 49] by force

text \<open>The seven lengths for which the aligned attribute length wraps around.\<close>

lemma align16_wraps:
  assumes "65529 \<le> n" "n < 65536"
  shows "unat (nla_align16 (4 + of_nat n)) \<le> 4" "unat (of_nat n :: u16) = n" "of_nat n \<noteq> (0 :: u16)"
proof -
  have "n \<in> {65529, 65530, 65531, 65532, 65533, 65534, 65535}" using assms by auto
  then show "unat (nla_align16 (4 + of_nat n)) \<le> 4" by (auto simp: nla_align16_def)
  show u: "unat (of_nat n :: u16) = n" using assms by (simp add: unat_of_nat)
  show "of_nat n \<noteq> (0 :: u16)" using u assms(1) by auto
qed

lemma nb_put_overflow:
  assumes ok: "nb_ok b h as" and room: "nb_len b + 4 \<le> nb_cap b" "nb_cap b < 65529"
    and n: "65529 \<le> n" "n < 65536" "n \<le> length data"
  shows "nb_put b ty data (of_nat n) = None"
proof -
  note w = align16_wraps [OF n(1,2)]
  have b: "length (nb_buf b) = nb_cap b" using ok by (simp add: nb_ok_def)
  have fits: "\<not> nb_cap b < nb_len b + unat (nla_align16 (4 + of_nat n))" using w(1) room(1) by linarith
  have "load data 0 n = Some (take n data)" using n(3) by (simp add: load_def)
  moreover have "store buf (nb_len b + 4) (take n data) = None" if "length buf = nb_cap b" for buf
    using that room n by (simp add: store_def)
  moreover obtain b1 where 1: "store (nb_buf b) (nb_len b) (le16 (4 + of_nat n)) = Some b1"
    using store_ex [of "nb_len b" "le16 (4 + of_nat n)" "nb_buf b"] b room(1) by auto
  moreover obtain b2 where 2: "store b1 (nb_len b + 2) (le16 ty) = Some b2"
    using store_ex [of "nb_len b + 2" "le16 ty" b1] store_length [OF 1] b room(1) by auto
  moreover have "length b2 = nb_cap b" using store_length [OF 1] store_length [OF 2] b by simp
  ultimately show ?thesis
    using fits w(2,3) by (simp add: nb_put_def Let_def NLA_HDRLEN_def)
qed

text \<open>
  C38: what \<^verbatim>\<open>NlaBuilder::putString\<close> does, on every branch. With \<open>n\<close> the length of the string with
  its NUL, reduced to 16 bits: an attribute that fits is appended and everything before it is kept; one
  that does not fit is refused and nothing changes; and for the seven values of \<open>n\<close> from 65529, for which
  the aligned 16-bit length wraps around to at most 4, the room check passes and the copy runs over the
  end of the buffer.
\<close>

theorem putString_branches:
  assumes "nb_ok b h as" "nb_len b + 4 \<le> nb_cap b" "nb_cap b < 65529" "0 \<in> set s"
    "n = (strlen s + 1) mod 2 ^ 16"
  shows "if 65529 \<le> n then putString b ty s = None
    else if nb_len b + nla_total_size n \<le> nb_cap b
    then \<exists>b'. putString b ty s = Some (True, b') \<and> nb_ok b' h (as @ [(ty, take n s)]) \<and> nb_cap b' = nb_cap b
    else putString b ty s = Some (False, b)"
proof -
  have n: "of_nat (strlen s + 1) = (of_nat n :: u16)" "n < 65536" "n \<le> length s"
  proof -
    show "of_nat (strlen s + 1) = (of_nat n :: u16)"
      unfolding assms(5) by (rule word_unat_eq_iff [THEN iffD2]) (simp only: unat_of_nat, simp)
    show "n < 65536" using assms(5) by simp
    have "n \<le> strlen s + 1" unfolding assms(5) by (rule mod_less_eq_dividend)
    then show "n \<le> length s" using strlen_lt [OF assms(4)] by linarith
  qed
  show ?thesis
  proof (cases "65529 \<le> n")
    case True
    then show ?thesis
      using nb_put_overflow [OF assms(1-3) True n(2,3)] by (simp only: putString_def n(1) if_True)
  next
    case False
    then have "n + 7 < 2 ^ 16" by simp
    from nb_put_correct [OF assms(1) this n(3), of ty] False show ?thesis
      by (simp only: putString_def n(1) if_False)
  qed
qed

definition sample_builder :: nla_builder where
  "sample_builder = \<lparr>nb_buf = replicate 256 0, nb_cap = 256, nb_len = 20\<rparr>"

lemma sample_builder_ok: "nb_ok sample_builder (replicate 20 0) []"
  by (simp add: nb_ok_def sample_builder_def)

lemma cstr_replicate: "c \<noteq> 0 \<Longrightarrow> cstr (replicate k c @ [0]) = replicate k c"
  by (rule cstr_append_nul) simp

text \<open>A name of 139 bytes is appended; one of 65530 bytes writes outside the buffer.\<close>

theorem putString_branches_witness:
  "(\<exists>b'. putString sample_builder 42 (replicate 139 97 @ [0]) = Some (True, b')) \<and>
   putString sample_builder 42 (replicate 65530 97 @ [0]) = None"
proof
  have "strlen (replicate 139 97 @ [0 :: u8]) = 139" by (simp add: strlen_def cstr_replicate)
  then show "\<exists>b'. putString sample_builder 42 (replicate 139 97 @ [0]) = Some (True, b')"
    using putString_branches [OF sample_builder_ok, of "replicate 139 97 @ [0]" 140 42]
    by (auto simp: sample_builder_def nla_total_size_def NLA_ALIGN_def NLA_HDRLEN_def)
  have "strlen (replicate 65530 97 @ [0 :: u8]) = 65530" by (simp only: strlen_def) (subst cstr_replicate, simp, simp only: length_replicate)
  then show "putString sample_builder 42 (replicate 65530 97 @ [0]) = None"
    using putString_branches [OF sample_builder_ok, of "replicate 65530 97 @ [0]" 65531 42]
    by (simp add: sample_builder_def)
qed

end
