(* ===== verification/Rkx_Client_Uapi.thy ===== *)
theory Rkx_Client_Uapi
  imports Rkx_Uapi
begin

text \<open>
  The client's copy of the ABI, \<^verbatim>\<open>Develop/rekernel_x/src/main/cpp/rkx_uapi.h\<close>. It is maintained
  by hand beside \<^verbatim>\<open>LKM-Source/rkx.h\<close>, so its values are translated on their own, and the agreement
  of the two headers is a theorem.
\<close>

definition uapi_family_name :: string where "uapi_family_name = ''rekernel_x2''"
definition uapi_version :: u8 where "uapi_version = 1"
definition uapi_mcgrp_name :: string where "uapi_mcgrp_name = ''events''"

definition RKX_RPC_NAME_LEN :: nat where [rkx_const]: "RKX_RPC_NAME_LEN = 140"

text \<open>The commands are numbered from 0 in the order of the enumeration.\<close>

definition uapi_cmds :: "rkx_genl_cmd list" where
  "uapi_cmds =
     [RKX_C_UNSPEC, RKX_C_EVENT, RKX_C_ADD_MONITOR_NET, RKX_C_DEL_MONITOR_NET,
      RKX_C_ADD_FREE_ASYNC, RKX_C_DEL_FREE_ASYNC]"

fun index_of :: "'a list \<Rightarrow> 'a \<Rightarrow> nat" where
  "index_of [] x = 0"
| "index_of (y # ys) x = (if x = y then 0 else Suc (index_of ys x))"

definition uapi_cmd :: "rkx_genl_cmd \<Rightarrow> u8" where
  "uapi_cmd c = of_nat (index_of uapi_cmds c)"

text \<open>The attributes have explicit values.\<close>

fun uapi_attr :: "rkx_genl_attr \<Rightarrow> u16" where
  "uapi_attr RKX_A_UNSPEC = 0"
| "uapi_attr RKX_A_EVENT = 1"
| "uapi_attr RKX_A_BINDER = 10"
| "uapi_attr RKX_A_BINDER_TYPE = 11"
| "uapi_attr RKX_A_BINDER_ONEWAY = 12"
| "uapi_attr RKX_A_BINDER_FROM_PID = 13"
| "uapi_attr RKX_A_BINDER_FROM_UID = 14"
| "uapi_attr RKX_A_BINDER_TARGET_PID = 15"
| "uapi_attr RKX_A_BINDER_TARGET_UID = 16"
| "uapi_attr RKX_A_BINDER_CODE = 17"
| "uapi_attr RKX_A_BINDER_RPC_NAME = 18"
| "uapi_attr RKX_A_SIGNAL = 20"
| "uapi_attr RKX_A_SIGNAL_SIGNAL = 21"
| "uapi_attr RKX_A_SIGNAL_KILLER_PID = 22"
| "uapi_attr RKX_A_SIGNAL_KILLER_UID = 23"
| "uapi_attr RKX_A_SIGNAL_DST_PID = 24"
| "uapi_attr RKX_A_SIGNAL_DST_UID = 25"
| "uapi_attr RKX_A_NETWORK = 30"
| "uapi_attr RKX_A_NETWORK_PROTO = 31"
| "uapi_attr RKX_A_NETWORK_TARGET_UID = 32"
| "uapi_attr RKX_A_NETWORK_DATA_LEN = 33"
| "uapi_attr RKX_A_UID = 40"
| "uapi_attr RKX_A_FREE_ASYNC_STRATEGY = 41"
| "uapi_attr RKX_A_FREE_ASYNC_RPC_NAME = 42"
| "uapi_attr RKX_A_FREE_ASYNC_CODE = 43"

definition uapi_attr_max :: nat where [rkx_const]: "uapi_attr_max = 49"

text \<open>The enumerations of values: strategies, event kinds, binder kinds, protocols.\<close>

definition uapi_strategies :: "u8 list" where "uapi_strategies = [1, 2, 3]"
definition uapi_event_types :: "u8 list" where "uapi_event_types = [1, 2, 3]"
definition uapi_binder_types :: "u8 list" where "uapi_binder_types = [1, 2, 3]"
definition uapi_protos :: "u8 list" where "uapi_protos = [4, 6]"

text \<open>
  The Java side: \<^verbatim>\<open>ReKernelX.java\<close> and \<^verbatim>\<open>ReKernelXCallback.java\<close> repeat the constants
  and declare the methods of the callback. \<open>jni_methods\<close> are the names and type descriptors under which
  \<^verbatim>\<open>JNI_OnLoad\<close> looks the methods up; \<open>descriptor\<close> is the encoding of the Java virtual machine
  of a method that returns nothing.
\<close>

datatype jtype = JInt | JString | JBoolean | JVoid | JCallback

fun jtype_code :: "jtype \<Rightarrow> string" where
  "jtype_code JInt = ''I''"
| "jtype_code JString = ''Ljava/lang/String;''"
| "jtype_code JBoolean = ''Z''"
| "jtype_code JVoid = ''V''"
| "jtype_code JCallback = ''Lcn/myflv/kernel/ReKernelXCallback;''"

definition descriptor :: "jtype list \<Rightarrow> string" where
  "descriptor args = ''('' @ concat (map jtype_code args) @ '')V''"

definition java_strategies :: "u8 list" where "java_strategies = [1, 2, 3]"
definition java_binder_types :: "u8 list" where "java_binder_types = [1, 2, 3]"
definition java_protos :: "u8 list" where "java_protos = [4, 6]"

definition java_callback :: "(string \<times> jtype list) list" where
  "java_callback =
     [(''binder'', [JInt, JInt, JInt, JInt, JInt, JInt, JString, JInt]),
      (''signal'', [JInt, JInt, JInt, JInt, JInt]),
      (''network'', [JInt, JInt, JInt])]"

definition jni_methods :: "(string \<times> string) list" where
  "jni_methods =
     [(''binder'', ''(IIIIIILjava/lang/String;I)V''), (''signal'', ''(IIIII)V''), (''network'', ''(III)V'')]"

text \<open>
  The native methods, and the functions the library exports for them with the types of their parameters after
  \<^verbatim>\<open>JNIEnv\<close> and \<^verbatim>\<open>jclass\<close>. The Java virtual machine looks a native method up under \<^verbatim>\<open>Java_\<close>, the
  name of its class and its own name, with underscores for the dots.
\<close>

definition java_natives :: "(string \<times> jtype list \<times> jtype) list" where
  "java_natives =
     [(''setCallback'', [JCallback], JVoid), (''connect'', [], JBoolean), (''disconnect'', [], JVoid),
      (''pollEvent'', [], JVoid), (''addMonitorNet'', [JInt], JBoolean), (''delMonitorNet'', [JInt], JBoolean),
      (''addFreeAsync'', [JString, JInt, JInt], JBoolean), (''delFreeAsync'', [JString, JInt], JBoolean)]"

definition jni_exports :: "(string \<times> jtype list \<times> jtype) list" where
  "jni_exports =
     [(''Java_cn_myflv_kernel_ReKernelX_setCallback'', [JCallback], JVoid),
      (''Java_cn_myflv_kernel_ReKernelX_connect'', [], JBoolean),
      (''Java_cn_myflv_kernel_ReKernelX_pollEvent'', [], JVoid),
      (''Java_cn_myflv_kernel_ReKernelX_disconnect'', [], JVoid),
      (''Java_cn_myflv_kernel_ReKernelX_addMonitorNet'', [JInt], JBoolean),
      (''Java_cn_myflv_kernel_ReKernelX_delMonitorNet'', [JInt], JBoolean),
      (''Java_cn_myflv_kernel_ReKernelX_addFreeAsync'', [JString, JInt, JInt], JBoolean),
      (''Java_cn_myflv_kernel_ReKernelX_delFreeAsync'', [JString, JInt], JBoolean)]"

definition java_class :: string where "java_class = ''cn.myflv.kernel.ReKernelX''"

definition jni_symbol :: "string \<Rightarrow> string \<Rightarrow> string" where
  "jni_symbol cls name = ''Java_'' @ map (\<lambda>c. if c = CHR ''.'' then CHR ''_'' else c) cls @ ''_'' @ name"

lemma jni_exports_eq: "set jni_exports = set (map (map_prod (jni_symbol java_class) id) java_natives)"
  by (simp add: jni_exports_def java_natives_def jni_symbol_def java_class_def insert_commute)

lemma uapi_cmd_simps [simp]:
  "uapi_cmd RKX_C_UNSPEC = 0" "uapi_cmd RKX_C_EVENT = 1" "uapi_cmd RKX_C_ADD_MONITOR_NET = 2"
  "uapi_cmd RKX_C_DEL_MONITOR_NET = 3" "uapi_cmd RKX_C_ADD_FREE_ASYNC = 4"
  "uapi_cmd RKX_C_DEL_FREE_ASYNC = 5"
  by (simp_all add: uapi_cmd_def uapi_cmds_def)

lemma uapi_cmd_eq: "uapi_cmd c = cmd_code c"
  by (cases c) simp_all

lemma uapi_attr_eq: "uapi_attr a = attr_code a"
  by (cases a) simp_all


end
