(* ===== verification/Rkx_Client_Recv.thy ===== *)
theory Rkx_Client_Recv
  imports Rkx_Nla Rkx_Client_Uapi Rkx_Genl
begin

text \<open>
  The event dispatch of \<^verbatim>\<open>Develop/rekernel_x/src/main/cpp/rkx_jni.cpp\<close>: from the bytes of a
  datagram to the calls of the Java callback. A pointer into the receive buffer is an offset; a read
  outside the buffer is \<open>None\<close>. The part of the Java environment the code uses is the record \<open>jni\<close>;
  a JNI function that must not be called with a pending exception is \<open>None\<close> when one is pending.
\<close>

section \<open>The Java environment\<close>

datatype callback =
    CB_binder s32 s32 s32 s32 s32 s32 "bytes option" s32
  | CB_signal s32 s32 s32 s32 s32
  | CB_network s32 s32 s32

record jni =
  jn_exception :: bool
  jn_locals :: nat
  jn_calls :: "callback list"

text \<open>
  \<open>je_new_string\<close> is the string \<^verbatim>\<open>NewStringUTF\<close> makes of a C string, or \<open>None\<close> when it fails;
  \<open>je_throws\<close> says whether the callback leaves an exception.
\<close>

record jni_env =
  je_new_string :: "bytes \<Rightarrow> bytes option"
  je_throws :: "callback \<Rightarrow> bool"

definition NewStringUTF :: "jni_env \<Rightarrow> bytes \<Rightarrow> jni \<Rightarrow> (bytes option \<times> jni) option" where
  "NewStringUTF env s j =
     (if jn_exception j then None
      else case je_new_string env (cstr s) of
        None \<Rightarrow> Some (None, j\<lparr>jn_exception := True\<rparr>)
      | Some str \<Rightarrow> Some (Some str, j\<lparr>jn_locals := jn_locals j + 1\<rparr>))"

definition CallVoidMethod :: "jni_env \<Rightarrow> callback \<Rightarrow> jni \<Rightarrow> jni option" where
  "CallVoidMethod env c j =
     (if jn_exception j then None
      else Some (j\<lparr>jn_calls := jn_calls j @ [c], jn_exception := je_throws env c\<rparr>))"

definition DeleteLocalRef :: "jni \<Rightarrow> jni option" where
  "DeleteLocalRef j = (if jn_locals j = 0 then None else Some (j\<lparr>jn_locals := jn_locals j - 1\<rparr>))"

section \<open>Event dispatch\<close>

text \<open>\<^verbatim>\<open>if (tb[a]) rkx_nla_get(tb[a], x);\<close> for an \<open>x\<close> initialised with -1.\<close>

definition s32_field :: "bytes \<Rightarrow> (nat \<Rightarrow> nat option) \<Rightarrow> rkx_genl_attr \<Rightarrow> s32 option" where
  "s32_field buf tb a =
     (case tb (unat (uapi_attr a)) of
        None \<Rightarrow> Some (-1)
      | Some nla \<Rightarrow> map_option (\<lambda>r. case r of None \<Rightarrow> -1 | Some d \<Rightarrow> of_le32 d)
          (rkx_nla_get buf (Some nla) 4))"

definition rpc_name_field :: "bytes \<Rightarrow> (nat \<Rightarrow> nat option) \<Rightarrow> bytes option" where
  "rpc_name_field buf tb =
     (let rpc_name = replicate (RKX_RPC_NAME_LEN + 1) 0
      in case tb (unat (uapi_attr RKX_A_BINDER_RPC_NAME)) of
        None \<Rightarrow> Some rpc_name
      | Some nla \<Rightarrow> do {
          l \<leftarrow> nla_len buf nla;
          d \<leftarrow> load buf (nla_data nla) (min (unat l) RKX_RPC_NAME_LEN);
          store rpc_name 0 d
        })"

definition handle_binder_event :: "jni_env \<Rightarrow> bytes \<Rightarrow> nat \<Rightarrow> jni \<Rightarrow> jni option" where
  "handle_binder_event env buf payload j = do {
     tb \<leftarrow> rkx_nla_parse_nested buf uapi_attr_max payload;
     binder_type \<leftarrow> s32_field buf tb RKX_A_BINDER_TYPE;
     oneway \<leftarrow> s32_field buf tb RKX_A_BINDER_ONEWAY;
     from_pid \<leftarrow> s32_field buf tb RKX_A_BINDER_FROM_PID;
     from_uid \<leftarrow> s32_field buf tb RKX_A_BINDER_FROM_UID;
     target_pid \<leftarrow> s32_field buf tb RKX_A_BINDER_TARGET_PID;
     target_uid \<leftarrow> s32_field buf tb RKX_A_BINDER_TARGET_UID;
     code \<leftarrow> s32_field buf tb RKX_A_BINDER_CODE;
     rpc_name \<leftarrow> rpc_name_field buf tb;
     (jRpcName, j) \<leftarrow> NewStringUTF env rpc_name j;
     j \<leftarrow> CallVoidMethod env
       (CB_binder binder_type oneway from_uid from_pid target_uid target_pid jRpcName code) j;
     if jRpcName \<noteq> None then DeleteLocalRef j else Some j
   }"

definition handle_signal_event :: "jni_env \<Rightarrow> bytes \<Rightarrow> nat \<Rightarrow> jni \<Rightarrow> jni option" where
  "handle_signal_event env buf payload j = do {
     tb \<leftarrow> rkx_nla_parse_nested buf uapi_attr_max payload;
     sig \<leftarrow> s32_field buf tb RKX_A_SIGNAL_SIGNAL;
     killer_uid \<leftarrow> s32_field buf tb RKX_A_SIGNAL_KILLER_UID;
     killer_pid \<leftarrow> s32_field buf tb RKX_A_SIGNAL_KILLER_PID;
     dst_uid \<leftarrow> s32_field buf tb RKX_A_SIGNAL_DST_UID;
     dst_pid \<leftarrow> s32_field buf tb RKX_A_SIGNAL_DST_PID;
     CallVoidMethod env (CB_signal sig killer_uid killer_pid dst_uid dst_pid) j
   }"

definition handle_network_event :: "jni_env \<Rightarrow> bytes \<Rightarrow> nat \<Rightarrow> jni \<Rightarrow> jni option" where
  "handle_network_event env buf payload j = do {
     tb \<leftarrow> rkx_nla_parse_nested buf uapi_attr_max payload;
     proto \<leftarrow> s32_field buf tb RKX_A_NETWORK_PROTO;
     target_uid \<leftarrow> s32_field buf tb RKX_A_NETWORK_TARGET_UID;
     data_len \<leftarrow> s32_field buf tb RKX_A_NETWORK_DATA_LEN;
     CallVoidMethod env (CB_network proto target_uid data_len) j
   }"

text \<open>\<^verbatim>\<open>if (evt_tb[a]) handle_\<dots>_event(env, cb, evt_tb[a]);\<close>\<close>

definition on_payload ::
  "(nat \<Rightarrow> nat option) \<Rightarrow> rkx_genl_attr \<Rightarrow> (nat \<Rightarrow> jni \<Rightarrow> jni option) \<Rightarrow> jni \<Rightarrow> jni option" where
  "on_payload evt_tb a h j = (case evt_tb (unat (uapi_attr a)) of None \<Rightarrow> Some j | Some nla \<Rightarrow> h nla j)"

definition NLMSG_ERROR :: u16 where "NLMSG_ERROR = 2"
definition NLMSG_DONE :: u16 where "NLMSG_DONE = 3"

definition nlmsg_len :: "bytes \<Rightarrow> nat \<Rightarrow> u32 option" where
  "nlmsg_len buf nlh = map_option of_le32 (load buf nlh 4)"

definition nlmsg_type :: "bytes \<Rightarrow> nat \<Rightarrow> u16 option" where
  "nlmsg_type buf nlh = map_option of_le16 (load buf (nlh + 4) 2)"

text \<open>The body of \<^verbatim>\<open>handle_event\<close> from the first \<^verbatim>\<open>rkx_nla_parse\<close>.\<close>

definition dispatch_event :: "jni_env \<Rightarrow> bytes \<Rightarrow> nat \<Rightarrow> int \<Rightarrow> jni \<Rightarrow> jni option" where
  "dispatch_event env buf attr_head attr_len j = do {
     tb \<leftarrow> rkx_nla_parse buf uapi_attr_max attr_head attr_len;
     case tb (unat (uapi_attr RKX_A_EVENT)) of
       None \<Rightarrow> Some j
     | Some evt \<Rightarrow> do {
         evt_tb \<leftarrow> rkx_nla_parse_nested buf uapi_attr_max evt;
         j \<leftarrow> on_payload evt_tb RKX_A_BINDER (handle_binder_event env buf) j;
         j \<leftarrow> on_payload evt_tb RKX_A_SIGNAL (handle_signal_event env buf) j;
         j \<leftarrow> on_payload evt_tb RKX_A_NETWORK (handle_network_event env buf) j;
         Some (j\<lparr>jn_exception := False\<rparr>)
       }
   }"

definition handle_event :: "jni_env \<Rightarrow> u16 \<Rightarrow> bytes \<Rightarrow> nat \<Rightarrow> jni \<Rightarrow> jni option" where
  "handle_event env family_id buf nlh j = do {
     ty \<leftarrow> nlmsg_type buf nlh;
     if ty = NLMSG_ERROR \<or> ty = NLMSG_DONE then Some j
     else if ty \<noteq> family_id then Some j
     else do {
       len \<leftarrow> nlmsg_len buf nlh;
       if unat len < NLMSG_HDRLEN + GENL_HDRLEN then Some j
       else do {
         cmd \<leftarrow> load8 buf (nlh + NLMSG_HDRLEN);
         if cmd \<noteq> uapi_cmd RKX_C_EVENT then Some j
         else dispatch_event env buf (nlh + (NLMSG_HDRLEN + GENL_HDRLEN)) (sint (len - 20)) j
       }
     }
   }"

section \<open>The messages of one datagram\<close>

text \<open>
  \<^verbatim>\<open>NLMSG_OK\<close> and \<^verbatim>\<open>NLMSG_NEXT\<close> of \<^verbatim>\<open>linux/netlink.h\<close>. The code passes the
  remaining length to the first as \<^verbatim>\<open>size_t\<close> and keeps it in an \<^verbatim>\<open>int\<close> for the second.
\<close>

definition NLMSG_OK :: "bytes \<Rightarrow> nat \<Rightarrow> u64 \<Rightarrow> bool option" where
  "NLMSG_OK buf nlh len =
     (if len \<ge> 16 then map_option (\<lambda>l. l \<ge> 16 \<and> ucast l \<le> len) (nlmsg_len buf nlh) else Some False)"

definition NLMSG_ALIGN :: "u32 \<Rightarrow> u32" where
  "NLMSG_ALIGN l = (l + 3) AND NOT 3"

definition NLMSG_NEXT :: "bytes \<Rightarrow> nat \<Rightarrow> s32 \<Rightarrow> (nat \<times> s32) option" where
  "NLMSG_NEXT buf nlh len =
     map_option (\<lambda>l. (nlh + unat (NLMSG_ALIGN l), len - NLMSG_ALIGN l)) (nlmsg_len buf nlh)"

text \<open>
  The loop over the messages. \<open>None\<close> is a read outside the buffer, a JNI call with a pending exception,
  or a loop that does not end.
\<close>

partial_function (option) nlmsg_loop ::
  "jni_env \<Rightarrow> u16 \<Rightarrow> bytes \<Rightarrow> nat \<Rightarrow> s32 \<Rightarrow> jni \<Rightarrow> jni option" where
  "nlmsg_loop env family_id buf nlh rlen j = do {
     ok \<leftarrow> NLMSG_OK buf nlh (scast rlen);
     if ok then do {
       j \<leftarrow> handle_event env family_id buf nlh j;
       nxt \<leftarrow> NLMSG_NEXT buf nlh rlen;
       nlmsg_loop env family_id buf (fst nxt) (snd nxt) j
     } else Some j
   }"

section \<open>An event message is dispatched to the callback it stands for\<close>

text \<open>The call an event of the kernel should produce.\<close>

fun callback_of :: "rkx_event \<Rightarrow> callback" where
  "callback_of (EV_BINDER b) =
     CB_binder (ucast (be_binder_type b)) (ucast (be_oneway b)) (be_from_uid b) (be_from_pid b)
       (be_target_uid b) (be_target_pid b) (Some (cstr (be_rpc_name b))) (be_code b)"
| "callback_of (EV_SIGNAL s) =
     CB_signal (se_signal s) (se_killer_uid s) (se_killer_pid s) (se_dst_uid s) (se_dst_pid s)"
| "callback_of (EV_NETWORK n) = CB_network (ucast (ne_proto n)) (ne_target_uid n) (ne_data_len n)"
| "callback_of (EV_OTHER t) = CB_network 0 0 0"

text \<open>\<^verbatim>\<open>NewStringUTF\<close> succeeds and makes the string of the bytes it is given.\<close>

definition strings_ok :: "jni_env \<Rightarrow> bool" where
  "strings_ok env \<longleftrightarrow> (\<forall>s. je_new_string env s = Some s)"

definition called :: "jni_env \<Rightarrow> callback \<Rightarrow> jni \<Rightarrow> jni" where
  "called env c j = j\<lparr>jn_calls := jn_calls j @ [c], jn_exception := je_throws env c\<rparr>"

lemma uapi_attr_pos: "a \<noteq> RKX_A_UNSPEC \<Longrightarrow> 0 < unat (uapi_attr a)"
  by (cases a) simp_all

lemma uapi_attr_le: "unat (uapi_attr a) \<le> uapi_attr_max"
  using attr_code_le_max [of a] by (simp add: uapi_attr_eq uapi_attr_max_def RKX_A_MAX_def)

lemma tb_attr:
  assumes "tb_for buf uapi_attr_max as tb" "attr_lookup as (unat (uapi_attr a)) = Some (t, d)" "a \<noteq> RKX_A_UNSPEC"
  shows "\<exists>pos. tb (unat (uapi_attr a)) = Some pos \<and> attr_at buf pos t d"
  using tb_for_Some [OF assms(1,2) uapi_attr_pos [OF assms(3)] uapi_attr_le] .

lemma s32_field_lookup:
  assumes "tb_for buf uapi_attr_max as tb" "attr_lookup as (unat (uapi_attr a)) = Some (t, le32 v)"
    "a \<noteq> RKX_A_UNSPEC"
  shows "s32_field buf tb a = Some v"
proof -
  obtain pos where "tb (unat (uapi_attr a)) = Some pos" "attr_at buf pos t (le32 v)"
    using tb_attr [OF assms] by blast
  with nla_get_attr [of buf pos t "le32 v"] show ?thesis by (simp add: s32_field_def)
qed

lemma rpc_name_field_lookup:
  assumes "tb_for buf uapi_attr_max as tb"
    "attr_lookup as (unat (uapi_attr RKX_A_BINDER_RPC_NAME)) = Some (t, s @ [0])"
    "length s < RKX_RPC_NAME_LEN" "0 \<notin> set s"
  shows "\<exists>r. rpc_name_field buf tb = Some r \<and> cstr r = s"
proof -
  obtain pos where pos: "tb (unat (uapi_attr RKX_A_BINDER_RPC_NAME)) = Some pos"
    and at: "attr_at buf pos t (s @ [0])"
    using tb_attr [OF assms(1,2)] by auto
  let ?r = "(s @ [0]) @ drop (length (s @ [0])) (replicate 141 0)"
  have "min (unat (of_nat (length (s @ [0])) :: u16)) 140 = length (s @ [0])"
    using attr_at_fields(4) [OF at] assms(3) by (simp add: rkx_const)
  moreover have "load buf (pos + 4) (length (s @ [0])) = Some (s @ [0])"
    using at by (simp only: attr_at_def)
  moreover have "length (s @ [0]) \<le> 141" using assms(3) by (simp add: rkx_const)
  ultimately have "rpc_name_field buf tb = Some ?r"
    using pos
    by (simp add: rpc_name_field_def attr_at_fields(3) [OF at] nla_data_def rkx_const store_def Let_def
        del: length_append drop_replicate)
  moreover have "cstr ?r = s" using cstr_append_nul [OF assms(4)] by simp
  ultimately show ?thesis by blast
qed

lemma handle_signal:
  assumes "attr_at buf pos t (tlvs (event_attrs (EV_SIGNAL s)))" "\<not> jn_exception j"
  shows "handle_signal_event env buf pos j = Some (called env (callback_of (EV_SIGNAL s)) j)"
proof -
  have "small (event_attrs (EV_SIGNAL s))" by (simp add: small_def s32_attrs_def)
  from parse_nested_tlvs [OF assms(1) this] obtain tb where
    tb: "rkx_nla_parse_nested buf uapi_attr_max pos = Some tb"
    "tb_for buf uapi_attr_max (event_attrs (EV_SIGNAL s)) tb" by blast
  note f = s32_field_lookup [OF tb(2)]
  have "s32_field buf tb RKX_A_SIGNAL_SIGNAL = Some (se_signal s)"
    "s32_field buf tb RKX_A_SIGNAL_KILLER_UID = Some (se_killer_uid s)"
    "s32_field buf tb RKX_A_SIGNAL_KILLER_PID = Some (se_killer_pid s)"
    "s32_field buf tb RKX_A_SIGNAL_DST_UID = Some (se_dst_uid s)"
    "s32_field buf tb RKX_A_SIGNAL_DST_PID = Some (se_dst_pid s)"
    by (rule f; simp add: attr_lookup_def s32_attrs_def NLA_TYPE_MASK_def)+
  then show ?thesis
    using assms(2) by (simp add: handle_signal_event_def tb(1) CallVoidMethod_def called_def)
qed

lemma handle_network:
  assumes "attr_at buf pos t (tlvs (event_attrs (EV_NETWORK n)))" "\<not> jn_exception j"
  shows "handle_network_event env buf pos j = Some (called env (callback_of (EV_NETWORK n)) j)"
proof -
  have "small (event_attrs (EV_NETWORK n))" by (simp add: small_def s32_attrs_def)
  from parse_nested_tlvs [OF assms(1) this] obtain tb where
    tb: "rkx_nla_parse_nested buf uapi_attr_max pos = Some tb"
    "tb_for buf uapi_attr_max (event_attrs (EV_NETWORK n)) tb" by blast
  note f = s32_field_lookup [OF tb(2)]
  have "s32_field buf tb RKX_A_NETWORK_PROTO = Some (ucast (ne_proto n))"
    "s32_field buf tb RKX_A_NETWORK_TARGET_UID = Some (ne_target_uid n)"
    "s32_field buf tb RKX_A_NETWORK_DATA_LEN = Some (ne_data_len n)"
    by (rule f; simp add: attr_lookup_def s32_attrs_def NLA_TYPE_MASK_def)+
  then show ?thesis
    using assms(2) by (simp add: handle_network_event_def tb(1) CallVoidMethod_def called_def)
qed

lemma event_name:
  assumes "event_wf (EV_BINDER b)"
  shows "length (cstr (be_rpc_name b)) < RKX_RPC_NAME_LEN"
  using assms strlen_lt [of "be_rpc_name b"] by (simp add: strlen_def rkx_const)

lemma handle_binder:
  assumes "attr_at buf pos t (tlvs (event_attrs (EV_BINDER b)))" "\<not> jn_exception j"
    "event_wf (EV_BINDER b)" "strings_ok env"
  shows "handle_binder_event env buf pos j = Some (called env (callback_of (EV_BINDER b)) j)"
proof -
  note len = event_name [OF assms(3)]
  have "small (event_attrs (EV_BINDER b))" using len by (simp add: small_def s32_attrs_def rkx_const)
  from parse_nested_tlvs [OF assms(1) this] obtain tb where
    tb: "rkx_nla_parse_nested buf uapi_attr_max pos = Some tb"
    "tb_for buf uapi_attr_max (event_attrs (EV_BINDER b)) tb" by blast
  note f = s32_field_lookup [OF tb(2)]
  have fields: "s32_field buf tb RKX_A_BINDER_TYPE = Some (ucast (be_binder_type b))"
    "s32_field buf tb RKX_A_BINDER_ONEWAY = Some (ucast (be_oneway b))"
    "s32_field buf tb RKX_A_BINDER_FROM_PID = Some (be_from_pid b)"
    "s32_field buf tb RKX_A_BINDER_FROM_UID = Some (be_from_uid b)"
    "s32_field buf tb RKX_A_BINDER_TARGET_PID = Some (be_target_pid b)"
    "s32_field buf tb RKX_A_BINDER_TARGET_UID = Some (be_target_uid b)"
    "s32_field buf tb RKX_A_BINDER_CODE = Some (be_code b)"
    by (rule f; simp add: attr_lookup_def s32_attrs_def NLA_TYPE_MASK_def)+
  have "attr_lookup (event_attrs (EV_BINDER b)) (unat (uapi_attr RKX_A_BINDER_RPC_NAME)) =
      Some (attr_code RKX_A_BINDER_RPC_NAME, cstr (be_rpc_name b) @ [0])"
    by (simp add: attr_lookup_def NLA_TYPE_MASK_def)
  from rpc_name_field_lookup [OF tb(2) this len cstr_nonzero] obtain r where
    r: "rpc_name_field buf tb = Some r" "cstr r = cstr (be_rpc_name b)" by blast
  have "je_new_string env (cstr (be_rpc_name b)) = Some (cstr (be_rpc_name b))"
    using assms(4) by (simp add: strings_ok_def)
  then show ?thesis
    using assms(2)
    by (simp add: handle_binder_event_def tb(1) fields r NewStringUTF_def CallVoidMethod_def
        DeleteLocalRef_def called_def)
qed

lemma nested_type: "(attr_code a OR NLA_F_NESTED) AND NLA_TYPE_MASK = attr_code a"
  by (cases a) (simp_all add: NLA_F_NESTED_def NLA_TYPE_MASK_def)

lemma nested_tlvs: "nested a body = tlvs [(attr_code a OR NLA_F_NESTED, body)]"
  by (simp add: nested_def)

lemma lookup_nested:
  "attr_lookup [(attr_code a OR NLA_F_NESTED, body)] (unat (uapi_attr a')) =
     (if a = a' then Some (attr_code a OR NLA_F_NESTED, body) else None)"
  using attr_code_inj [of a a']
  by (auto simp: attr_lookup_def nested_type uapi_attr_eq simp flip: word_unat_eq_iff)

lemma length_event_attrs:
  "event_wf ev \<Longrightarrow> length (tlvs (event_attrs ev)) \<le> 204"
proof (cases ev)
  case (EV_BINDER b)
  assume "event_wf ev"
  then have "length (cstr (be_rpc_name b)) < 140" using event_name [of b] EV_BINDER by (simp add: rkx_const)
  then show ?thesis
    using NLA_ALIGN_ge(2) [of "4 + Suc (length (cstr (be_rpc_name b)))"]
    by (simp add: EV_BINDER s32_attrs_def nla_total_size_def NLA_HDRLEN_def, simp add: NLA_ALIGN_def)
qed (simp_all add: s32_attrs_def nla_total_size_def NLA_HDRLEN_def NLA_ALIGN_def)

lemma nested_size:
  "length (nested a body) = nla_total_size (length body)" "nla_total_size n \<le> n + 7"
  using NLA_ALIGN_ge(2) [of "4 + n"] by (simp_all add: nested_def nla_total_size_def NLA_HDRLEN_def)

text \<open>A table for a nested list of one attribute has that attribute and nothing else.\<close>

lemma tb_nested:
  assumes "tb_for buf uapi_attr_max [(attr_code a OR NLA_F_NESTED, body)] tb" "a \<noteq> RKX_A_UNSPEC"
  shows "\<exists>pos. tb (unat (uapi_attr a)) = Some pos \<and> attr_at buf pos (attr_code a OR NLA_F_NESTED) body"
    and "a' \<noteq> a \<Longrightarrow> tb (unat (uapi_attr a')) = None"
  using tb_attr [OF assms(1) _ assms(2)] tb_for_None [OF assms(1), of "unat (uapi_attr a')"]
  by (auto simp: lookup_nested)

lemma event_tables:
  assumes "buf = pre @ event_body ev @ post" "event_wf ev" "head = length pre" "len = int (length (event_body ev))"
  shows "\<exists>tb evt etb pos. rkx_nla_parse buf uapi_attr_max head len = Some tb \<and>
    tb (unat (uapi_attr RKX_A_EVENT)) = Some evt \<and> rkx_nla_parse_nested buf uapi_attr_max evt = Some etb \<and>
    etb (unat (uapi_attr (event_payload ev))) = Some pos \<and>
    attr_at buf pos (attr_code (event_payload ev) OR NLA_F_NESTED) (tlvs (event_attrs ev)) \<and>
    (\<forall>a. a \<noteq> event_payload ev \<longrightarrow> etb (unat (uapi_attr a)) = None)"
proof -
  let ?p = "event_payload ev" and ?attrs = "tlvs (event_attrs ev)"
  note l = length_event_attrs [OF assms(2)]
  have np: "length (nested ?p ?attrs) \<le> 211"
    unfolding nested_size(1) using nested_size(2) [of "length ?attrs"] l by linarith
  have "small [(attr_code RKX_A_EVENT OR NLA_F_NESTED, nested ?p ?attrs)]" using np by (simp add: small_def)
  from parse_tlvs [OF this, of buf pre post head len uapi_attr_max] obtain tb where
    tb: "rkx_nla_parse buf uapi_attr_max head len = Some tb"
    "tb_for buf uapi_attr_max [(attr_code RKX_A_EVENT OR NLA_F_NESTED, nested ?p ?attrs)] tb"
    using assms(1,3,4) by (auto simp: event_body_def nested_def)
  obtain evt where evt: "tb (unat (uapi_attr RKX_A_EVENT)) = Some evt"
    "attr_at buf evt (attr_code RKX_A_EVENT OR NLA_F_NESTED) (nested ?p ?attrs)"
    using tb_nested(1) [OF tb(2)] by auto
  have "small [(attr_code ?p OR NLA_F_NESTED, ?attrs)]" using l by (simp add: small_def)
  from parse_nested_tlvs [OF evt(2) [unfolded nested_tlvs] this] obtain etb where
    etb: "rkx_nla_parse_nested buf uapi_attr_max evt = Some etb"
    "tb_for buf uapi_attr_max [(attr_code ?p OR NLA_F_NESTED, ?attrs)] etb" by blast
  have "?p \<noteq> RKX_A_UNSPEC" using assms(2) by (cases ev) auto
  from tb_nested [OF etb(2) this] tb(1) evt(1) etb(1) show ?thesis by blast
qed

lemma dispatch_event_body:
  assumes "buf = pre @ event_body ev @ post" "event_wf ev" "strings_ok env" "\<not> jn_exception j"
    "head = length pre" "len = int (length (event_body ev))"
  shows "dispatch_event env buf head len j =
    Some (j\<lparr>jn_calls := jn_calls j @ [callback_of ev], jn_exception := False\<rparr>)"
proof -
  obtain tb evt etb pos where t: "rkx_nla_parse buf uapi_attr_max head len = Some tb"
    "tb (unat (uapi_attr RKX_A_EVENT)) = Some evt" "rkx_nla_parse_nested buf uapi_attr_max evt = Some etb"
    and pos: "etb (unat (uapi_attr (event_payload ev))) = Some pos"
    and at: "attr_at buf pos (attr_code (event_payload ev) OR NLA_F_NESTED) (tlvs (event_attrs ev))"
    and slots: "\<And>a. a \<noteq> event_payload ev \<Longrightarrow> etb (unat (uapi_attr a)) = None"
    using event_tables [OF assms(1,2,5,6)] by blast
  have "dispatch_event env buf head len j = do {
      j \<leftarrow> on_payload etb RKX_A_BINDER (handle_binder_event env buf) j;
      j \<leftarrow> on_payload etb RKX_A_SIGNAL (handle_signal_event env buf) j;
      j \<leftarrow> on_payload etb RKX_A_NETWORK (handle_network_event env buf) j;
      Some (j\<lparr>jn_exception := False\<rparr>) }"
    by (simp only: dispatch_event_def t Option.bind_lunit option.case)
  note d = this on_payload_def called_def
  show ?thesis
  proof (cases ev)
    case (EV_BINDER b)
    with pos slots [of RKX_A_SIGNAL] slots [of RKX_A_NETWORK] assms(2-4)
      handle_binder [of buf pos _ b j env] at show ?thesis by (simp add: d)
  next
    case (EV_SIGNAL s)
    with pos slots [of RKX_A_BINDER] slots [of RKX_A_NETWORK] assms(4)
      handle_signal [of buf pos _ s j env] at show ?thesis by (simp add: d)
  next
    case (EV_NETWORK n)
    with pos slots [of RKX_A_BINDER] slots [of RKX_A_SIGNAL] assms(4)
      handle_network [of buf pos _ n j env] at show ?thesis by (simp add: d)
  next
    case (EV_OTHER t)
    with assms(2) show ?thesis by simp
  qed
qed

section \<open>The messages of a datagram are dispatched in order\<close>

lemma header_fields:
  assumes "buf = pre @ genl_header n fam flags seq cmd @ post"
  shows "nlmsg_len buf (length pre) = Some (of_nat n)" "nlmsg_type buf (length pre) = Some fam"
    "load8 buf (length pre + 16) = Some cmd"
proof -
  let ?h1 = "le32 (of_nat n :: u32)" and ?h2 = "le16 fam"
  let ?rest = "le16 flags @ le32 seq @ le32 0 @ [cmd, RKX_GENL_VERSION, 0, 0] @ post"
  have buf: "buf = pre @ ?h1 @ (?h2 @ ?rest)" by (simp add: assms genl_header_def)
  show "nlmsg_len buf (length pre) = Some (of_nat n)"
    unfolding nlmsg_len_def buf by (subst load_at) simp_all
  have "buf = (pre @ ?h1) @ ?h2 @ ?rest" by (simp add: buf)
  then show "nlmsg_type buf (length pre) = Some fam"
    unfolding nlmsg_type_def by (simp only:) (subst load_at, simp_all)
  have "buf = (pre @ ?h1 @ ?h2 @ le16 flags @ le32 seq @ le32 0) @ cmd # [RKX_GENL_VERSION, 0, 0] @ post"
    by (simp add: buf)
  then show "load8 buf (length pre + 16) = Some cmd"
    by (simp add: load8_def nth_append)
qed

lemma sint_of_nat_small: "n < 2 ^ 31 \<Longrightarrow> sint (of_nat n :: 32 word) = int n"
  by (simp add: signed_of_nat signed_take_bit_int_eq_self)

lemma scast_of_nat_small: "n < 2 ^ 31 \<Longrightarrow> scast (of_nat n :: 32 word) = (of_nat n :: u64)"
  unfolding scast_eq by (simp add: sint_of_nat_small)

lemma NLMSG_ALIGN_id: "4 dvd n \<Longrightarrow> n < 2 ^ 31 \<Longrightarrow> NLMSG_ALIGN (of_nat n) = of_nat n"
proof -
  assume n: "4 dvd n" "n < 2 ^ 31"
  have "unat (of_nat n + 3 :: u32) = n + 3"
    using n(2) unat_of_nat [of "n + 3", where 'a = 32] by simp
  moreover have "(n + 3) div 4 * 4 = n" using n(1) by (auto elim!: dvdE)
  ultimately have "unat (NLMSG_ALIGN (of_nat n)) = n"
    by (simp only: NLMSG_ALIGN_def unat_and_not_3)
  moreover have "unat (of_nat n :: u32) = n" using n(2) by (simp only: unat_of_nat) simp
  ultimately show ?thesis by (simp only: word_unat_eq_iff)
qed

lemma length_event_body: "event_wf ev \<Longrightarrow> length (event_body ev) \<le> 218" "4 dvd length (event_body ev)"
proof -
  let ?p = "event_payload ev" and ?attrs = "tlvs (event_attrs ev)"
  show "4 dvd length (event_body ev)"
    by (simp add: event_body_def nested_size nla_total_size_def NLA_ALIGN_dvd)
  assume "event_wf ev"
  then show "length (event_body ev) \<le> 218"
    using length_event_attrs [of ev] nested_size(2) [of "length ?attrs"]
      nested_size(2) [of "length (nested ?p ?attrs)"]
    unfolding event_body_def nested_size(1) by linarith
qed

lemma length_event_msg [simp]: "length (event_msg fam ev) = 20 + length (event_body ev)"
  by (simp add: event_msg_def genl_msg_def)

definition delivered :: "rkx_event list \<Rightarrow> jni \<Rightarrow> jni" where
  "delivered evs j = j\<lparr>jn_calls := jn_calls j @ map callback_of evs, jn_exception := False\<rparr>"

lemma handle_event_msg:
  assumes buf: "buf = pre @ event_msg fam ev @ post" and fam: "16 \<le> fam"
    and ev: "event_wf ev" "strings_ok env" "\<not> jn_exception j"
  shows "handle_event env fam buf (length pre) j = Some (delivered [ev] j)"
proof -
  let ?n = "length (event_body ev)"
  have n: "?n \<le> 218" using length_event_body(1) [OF ev(1)] .
  have hdr: "buf = pre @ genl_header (20 + ?n) fam 0 0 (cmd_code RKX_C_EVENT) @ (event_body ev @ post)"
    by (simp add: buf event_msg_def genl_msg_def rkx_const)
  note f = header_fields [OF hdr]
  have u: "unat (of_nat (20 + ?n) :: u32) = 20 + ?n" using n by (simp only: unat_of_nat) simp
  have "of_nat (20 + ?n) - 20 = (of_nat ?n :: u32)" by simp
  then have s: "sint (of_nat (20 + ?n) - 20 :: u32) = int ?n" using n sint_of_nat_small [of ?n] by simp
  have fam': "fam \<noteq> NLMSG_ERROR" "fam \<noteq> NLMSG_DONE" using fam by (auto simp: NLMSG_ERROR_def NLMSG_DONE_def)
  have "buf = (pre @ genl_header (20 + ?n) fam 0 0 1) @ event_body ev @ post" by (simp add: hdr)
  from dispatch_event_body [OF this ev, of "length pre + 20" "int ?n"]
  have "dispatch_event env buf (length pre + 20) (int ?n) j = Some (delivered [ev] j)"
    by (simp add: delivered_def)
  then show ?thesis
    by (simp add: handle_event_def f u s fam' NLMSG_HDRLEN_def GENL_HDRLEN_def del: of_nat_add)
qed

definition wire :: "u16 \<Rightarrow> rkx_event list \<Rightarrow> bytes" where
  "wire fam evs = concat (map (event_msg fam) evs)"

lemma nlmsg_step:
  assumes "nlmsg_len buf nlh = Some (of_nat n)" "16 \<le> n" "4 dvd n" "n \<le> r" "r < 2 ^ 31"
  shows "NLMSG_OK buf nlh (scast (of_nat r :: s32)) = Some True"
    "NLMSG_NEXT buf nlh (of_nat r) = Some (nlh + n, of_nat (r - n))"
proof -
  have u: "unat (of_nat n :: u32) = n" "unat (of_nat r :: u64) = r"
    using assms(4,5) by (simp_all only: unat_of_nat) simp_all
  then show "NLMSG_OK buf nlh (scast (of_nat r :: s32)) = Some True"
    using assms by (simp add: NLMSG_OK_def scast_of_nat_small word_le_nat_alt unat_ucast_up)
  show "NLMSG_NEXT buf nlh (of_nat r) = Some (nlh + n, of_nat (r - n))"
    using assms u(1) by (simp add: NLMSG_NEXT_def NLMSG_ALIGN_id of_nat_diff)
qed

lemma nlmsg_loop_end: "nlmsg_loop env fam buf nlh 0 j = Some j"
  by (subst nlmsg_loop.simps) (simp add: NLMSG_OK_def)

lemma nlmsg_loop_events:
  assumes env: "16 \<le> fam" "strings_ok env"
  shows "buf = pre @ wire fam evs @ post \<Longrightarrow> list_all event_wf evs \<Longrightarrow> length (wire fam evs) < 2 ^ 31 \<Longrightarrow>
    \<not> jn_exception j \<Longrightarrow>
    nlmsg_loop env fam buf (length pre) (of_nat (length (wire fam evs))) j = Some (delivered evs j)"
proof (induction evs arbitrary: pre j)
  case Nil
  then show ?case by (simp add: wire_def delivered_def nlmsg_loop_end)
next
  case (Cons ev evs)
  let ?m = "event_msg fam ev" and ?w = "wire fam evs" and ?r = "length (wire fam (ev # evs))"
  have w: "wire fam (ev # evs) = ?m @ ?w" by (simp add: wire_def)
  have buf: "buf = pre @ ?m @ (?w @ post)" using Cons.prems(1) by (simp add: w)
  have ev: "event_wf ev" "list_all event_wf evs" using Cons.prems(2) by auto
  have h: "handle_event env fam buf (length pre) j = Some (delivered [ev] j)"
    by (rule handle_event_msg [OF buf env(1) ev(1) env(2) Cons.prems(4)])
  have "nlmsg_len buf (length pre) = Some (of_nat (length ?m))"
    using header_fields(1) [of buf pre "20 + length (event_body ev)" fam 0 0 "cmd_code RKX_C_EVENT"
        "event_body ev @ ?w @ post"] buf
    by (simp add: event_msg_def genl_msg_def rkx_const)
  moreover have "4 dvd length ?m" using length_event_body(2) [of ev] by simp
  ultimately have ok: "NLMSG_OK buf (length pre) (scast (of_nat ?r :: s32)) = Some True"
    and nxt: "NLMSG_NEXT buf (length pre) (of_nat ?r) = Some (length pre + length ?m, of_nat (?r - length ?m))"
    using nlmsg_step [of buf "length pre" "length ?m" ?r] Cons.prems(3) by (simp_all add: w)
  have "nlmsg_loop env fam buf (length (pre @ ?m)) (of_nat (length ?w)) (delivered [ev] j) =
      Some (delivered evs (delivered [ev] j))"
    by (rule Cons.IH) (use Cons.prems(3) buf ev in \<open>simp_all add: w delivered_def\<close>)
  moreover have "delivered evs (delivered [ev] j) = delivered (ev # evs) j" by (simp add: delivered_def)
  ultimately show ?case
    by (subst nlmsg_loop.simps) (simp only: ok h nxt Option.bind_lunit if_True fst_conv snd_conv, simp add: w)
qed

section \<open>Dispatch of arbitrary bytes stays inside the buffer\<close>

text \<open>
  \<open>kept\<close>: no local reference is left and calls were only added; \<open>settled\<close>: moreover no exception is pending.
\<close>

definition kept :: "jni \<Rightarrow> jni \<Rightarrow> bool" where
  "kept j j' \<longleftrightarrow> jn_locals j' = jn_locals j \<and> (\<exists>cs. jn_calls j' = jn_calls j @ cs)"

definition settled :: "jni \<Rightarrow> jni \<Rightarrow> bool" where
  "settled j j' \<longleftrightarrow> \<not> jn_exception j' \<and> kept j j'"

lemma kept_refl [simp]: "kept j j"
  by (simp add: kept_def)

lemma kept_trans: "kept j j' \<Longrightarrow> kept j' j'' \<Longrightarrow> kept j j''"
  by (auto simp: kept_def)

lemma settled_refl: "\<not> jn_exception j \<Longrightarrow> settled j j"
  by (simp add: settled_def)

lemma settled_trans: "settled j j' \<Longrightarrow> settled j' j'' \<Longrightarrow> settled j j''"
  by (auto simp: settled_def intro: kept_trans)

text \<open>
  A message with several payloads makes several calls, and the exception of the first is still pending at the
  second. So the callback must not throw, or each message carry one payload, as the messages of the module do.
\<close>

definition silent :: "jni_env \<Rightarrow> bool" where
  "silent env \<longleftrightarrow> (\<forall>c. \<not> je_throws env c)"

definition payloads :: "(nat \<Rightarrow> nat option) \<Rightarrow> rkx_genl_attr list" where
  "payloads evt_tb = filter (\<lambda>a. evt_tb (unat (uapi_attr a)) \<noteq> None) [RKX_A_BINDER, RKX_A_SIGNAL, RKX_A_NETWORK]"

definition lone_payload :: "bytes \<Rightarrow> nat \<Rightarrow> int \<Rightarrow> bool" where
  "lone_payload buf attr_head attr_len \<longleftrightarrow>
     (case do {
        tb \<leftarrow> rkx_nla_parse buf uapi_attr_max attr_head attr_len;
        evt \<leftarrow> tb (unat (uapi_attr RKX_A_EVENT));
        rkx_nla_parse_nested buf uapi_attr_max evt
      } of None \<Rightarrow> True | Some evt_tb \<Rightarrow> length (payloads evt_tb) \<le> 1)"

lemma s32_field_in:
  assumes "tb_in buf m tb lo hi" "hi \<le> length buf"
  shows "\<exists>v. s32_field buf tb a = Some v"
proof (cases "tb (unat (uapi_attr a))")
  case (Some p)
  then have "attr_in buf p lo hi" using assms(1) by (simp add: tb_in_def)
  from get_in [OF this assms(2), of 4] Some show ?thesis by (auto simp: s32_field_def)
qed (simp add: s32_field_def)

lemma rpc_name_field_in:
  assumes "tb_in buf m tb lo hi" "hi \<le> length buf"
  shows "\<exists>v. rpc_name_field buf tb = Some v"
proof (cases "tb (unat (uapi_attr RKX_A_BINDER_RPC_NAME))")
  case (Some p)
  then have "attr_in buf p lo hi" using assms(1) by (simp add: tb_in_def)
  from nla_len_in [OF this] obtain l where l: "nla_len buf p = Some l" "p + 4 + unat l \<le> hi" by blast
  then have "p + 4 + min (unat l) 140 \<le> length buf" using assms(2) by linarith
  with Some l(1) show ?thesis
    by (simp add: rpc_name_field_def Let_def nla_data_def rkx_const load_def store_def min_def)
qed (simp add: rpc_name_field_def)

lemma handle_binder_in:
  assumes "attr_in buf p lo hi" "hi \<le> length buf" "strings_ok env" "\<not> jn_exception j"
  shows "\<exists>j'. handle_binder_event env buf p j = Some j' \<and> kept j j' \<and> (silent env \<longrightarrow> \<not> jn_exception j')"
proof -
  obtain tb where tb: "rkx_nla_parse_nested buf uapi_attr_max p = Some tb" "tb_in buf uapi_attr_max tb (p + 4) hi"
    using parse_nested_in [OF assms(1,2)] by blast
  note f = s32_field_in [OF tb(2) assms(2)] and r = rpc_name_field_in [OF tb(2) assms(2)]
  show ?thesis
    using f [of RKX_A_BINDER_TYPE] f [of RKX_A_BINDER_ONEWAY] f [of RKX_A_BINDER_FROM_PID]
      f [of RKX_A_BINDER_FROM_UID] f [of RKX_A_BINDER_TARGET_PID] f [of RKX_A_BINDER_TARGET_UID]
      f [of RKX_A_BINDER_CODE] r assms(3,4)
    by (auto simp: handle_binder_event_def tb(1) NewStringUTF_def CallVoidMethod_def DeleteLocalRef_def
        kept_def silent_def strings_ok_def)
qed

lemma handle_signal_in:
  assumes "attr_in buf p lo hi" "hi \<le> length buf" "strings_ok env" "\<not> jn_exception j"
  shows "\<exists>j'. handle_signal_event env buf p j = Some j' \<and> kept j j' \<and> (silent env \<longrightarrow> \<not> jn_exception j')"
proof -
  obtain tb where tb: "rkx_nla_parse_nested buf uapi_attr_max p = Some tb" "tb_in buf uapi_attr_max tb (p + 4) hi"
    using parse_nested_in [OF assms(1,2)] by blast
  note f = s32_field_in [OF tb(2) assms(2)]
  show ?thesis
    using f [of RKX_A_SIGNAL_SIGNAL] f [of RKX_A_SIGNAL_KILLER_UID] f [of RKX_A_SIGNAL_KILLER_PID]
      f [of RKX_A_SIGNAL_DST_UID] f [of RKX_A_SIGNAL_DST_PID] assms(3,4)
    by (auto simp: handle_signal_event_def tb(1) CallVoidMethod_def kept_def silent_def)
qed

lemma handle_network_in:
  assumes "attr_in buf p lo hi" "hi \<le> length buf" "strings_ok env" "\<not> jn_exception j"
  shows "\<exists>j'. handle_network_event env buf p j = Some j' \<and> kept j j' \<and> (silent env \<longrightarrow> \<not> jn_exception j')"
proof -
  obtain tb where tb: "rkx_nla_parse_nested buf uapi_attr_max p = Some tb" "tb_in buf uapi_attr_max tb (p + 4) hi"
    using parse_nested_in [OF assms(1,2)] by blast
  note f = s32_field_in [OF tb(2) assms(2)]
  show ?thesis
    using f [of RKX_A_NETWORK_PROTO] f [of RKX_A_NETWORK_TARGET_UID] f [of RKX_A_NETWORK_DATA_LEN] assms(3,4)
    by (auto simp: handle_network_event_def tb(1) CallVoidMethod_def kept_def silent_def)
qed

lemma on_payload_in:
  assumes "tb_in buf m tb lo hi" "tb (unat (uapi_attr a)) \<noteq> None \<longrightarrow> \<not> jn_exception j"
    "\<And>p. attr_in buf p lo hi \<Longrightarrow> \<not> jn_exception j \<Longrightarrow> \<exists>j'. h p j = Some j' \<and> kept j j' \<and> (silent env \<longrightarrow> \<not> jn_exception j')"
  shows "\<exists>j'. on_payload tb a h j = Some j' \<and> kept j j' \<and> (tb (unat (uapi_attr a)) = None \<longrightarrow> j' = j) \<and>
    (silent env \<longrightarrow> \<not> jn_exception j \<longrightarrow> \<not> jn_exception j')"
  using assms by (auto simp: on_payload_def tb_in_def split: option.splits)

lemma dispatch_payloads_in:
  assumes tb: "tb_in buf m etb lo hi" "hi \<le> length buf" and env: "strings_ok env" "\<not> jn_exception j"
    and lone: "silent env \<or> length (payloads etb) \<le> 1"
  shows "\<exists>j'. do {
      j \<leftarrow> on_payload etb RKX_A_BINDER (handle_binder_event env buf) j;
      j \<leftarrow> on_payload etb RKX_A_SIGNAL (handle_signal_event env buf) j;
      j \<leftarrow> on_payload etb RKX_A_NETWORK (handle_network_event env buf) j;
      Some (j\<lparr>jn_exception := False\<rparr>) } = Some j' \<and> settled j j'"
proof -
  let ?none = "\<lambda>a. etb (unat (uapi_attr a)) = None"
  note in_tb = on_payload_in [where env = env, OF tb(1)]
  obtain j1 where j1: "on_payload etb RKX_A_BINDER (handle_binder_event env buf) j = Some j1" "kept j j1"
    "?none RKX_A_BINDER \<longrightarrow> j1 = j" "silent env \<longrightarrow> \<not> jn_exception j1"
    using in_tb [where h = "handle_binder_event env buf" and j = j and a = RKX_A_BINDER, OF _ handle_binder_in [where lo = lo, OF _ tb(2) env(1)]] env(2) by auto
  then have n1: "\<not> ?none RKX_A_SIGNAL \<longrightarrow> \<not> jn_exception j1" "\<not> ?none RKX_A_NETWORK \<longrightarrow> \<not> jn_exception j1"
    using lone env(2) by (auto simp: payloads_def split: if_splits)
  obtain j2 where j2: "on_payload etb RKX_A_SIGNAL (handle_signal_event env buf) j1 = Some j2" "kept j1 j2"
    "?none RKX_A_SIGNAL \<longrightarrow> j2 = j1" "silent env \<longrightarrow> \<not> jn_exception j1 \<longrightarrow> \<not> jn_exception j2"
    using in_tb [where h = "handle_signal_event env buf" and j = j1 and a = RKX_A_SIGNAL, OF n1(1) handle_signal_in [where lo = lo, OF _ tb(2) env(1)]]
    by auto
  then have n2: "\<not> ?none RKX_A_NETWORK \<longrightarrow> \<not> jn_exception j2"
    using lone n1 j1(4) by (auto simp: payloads_def split: if_splits)
  obtain j3 where j3: "on_payload etb RKX_A_NETWORK (handle_network_event env buf) j2 = Some j3" "kept j2 j3"
    using in_tb [where h = "handle_network_event env buf" and j = j2 and a = RKX_A_NETWORK, OF n2 handle_network_in [where lo = lo, OF _ tb(2) env(1)]]
    by auto
  have "kept j j3" using j1(2) j2(2) j3(2) by (blast intro: kept_trans)
  then show ?thesis by (simp only: j1(1) j2(1) j3(1) Option.bind_lunit) (simp add: settled_def kept_def)
qed

lemma dispatch_event_in:
  assumes "int head + len \<le> int hi" "hi \<le> length buf" "strings_ok env" "\<not> jn_exception j"
    and lone: "silent env \<or> lone_payload buf head len"
  shows "\<exists>j'. dispatch_event env buf head len j = Some j' \<and> settled j j'"
proof -
  obtain tb where tb: "rkx_nla_parse buf uapi_attr_max head len = Some tb" "tb_in buf uapi_attr_max tb head hi"
    using parse_in [OF assms(1,2)] by blast
  show ?thesis
  proof (cases "tb (unat (uapi_attr RKX_A_EVENT))")
    case None
    then show ?thesis
      using settled_refl [OF assms(4)] by (simp only: dispatch_event_def tb(1) Option.bind_lunit option.case) blast
  next
    case (Some evt)
    then have "attr_in buf evt head hi" using tb(2) by (simp add: tb_in_def)
    from parse_nested_in [OF this assms(2)] obtain etb where
      etb: "rkx_nla_parse_nested buf uapi_attr_max evt = Some etb" "tb_in buf uapi_attr_max etb (evt + 4) hi" by blast
    have "silent env \<or> length (payloads etb) \<le> 1"
      using lone by (simp only: lone_payload_def tb(1) Some etb(1) Option.bind_lunit option.case)
    from dispatch_payloads_in [OF etb(2) assms(2-4) this] show ?thesis
      by (simp only: dispatch_event_def tb(1) Some etb(1) Option.bind_lunit option.case)
  qed
qed

lemma handle_event_in:
  assumes len: "nlmsg_len buf nlh = Some (of_nat n)" "16 \<le> n" "nlh + n \<le> length buf" "n < 2 ^ 31"
    and env: "strings_ok env" "\<not> jn_exception j" and lone: "silent env \<or> lone_payload buf (nlh + 20) (int n - 20)"
  shows "\<exists>j'. handle_event env fam buf nlh j = Some j' \<and> settled j j'"
proof -
  note r = settled_refl [OF env(2)]
  obtain ty where ty: "nlmsg_type buf nlh = Some ty" using len(2,3) by (auto simp: nlmsg_type_def load_def)
  have u: "unat (of_nat n :: u32) = n" using len(4) by (simp only: unat_of_nat) simp
  show ?thesis
  proof (cases "n < 20")
    case True
    then show ?thesis using r by (auto simp: handle_event_def ty len(1) u rkx_const)
  next
    case False
    have c: "load8 buf (nlh + 16) = Some (buf ! (nlh + 16))" using False len(3) by (simp add: load8_def)
    have "of_nat n - 20 = (of_nat (n - 20) :: u32)" using False by (simp add: of_nat_diff)
    then have s: "sint (of_nat n - 20 :: u32) = int (n - 20)" using sint_of_nat_small [of "n - 20"] len(4) by simp
    have "int (nlh + 20) + int (n - 20) \<le> int (length buf)" using False len(3) by simp
    moreover have "silent env \<or> lone_payload buf (nlh + 20) (int (n - 20))" using lone False by (simp add: of_nat_diff)
    ultimately obtain j' where "dispatch_event env buf (nlh + 20) (int (n - 20)) j = Some j'" "settled j j'"
      using dispatch_event_in [OF _ order_refl env] by blast
    with r show ?thesis
      using False by (auto simp: handle_event_def ty len(1) u c s NLMSG_HDRLEN_def GENL_HDRLEN_def)
  qed
qed

text \<open>
  \<open>framed buf nlh ns\<close>: from \<open>nlh\<close> on the buffer holds messages of the lengths \<open>ns\<close>, by their own length
  fields, each a multiple of four; nothing is said of what the messages contain.
\<close>

fun framed :: "bytes \<Rightarrow> nat \<Rightarrow> nat list \<Rightarrow> bool" where
  "framed buf nlh [] \<longleftrightarrow> True"
| "framed buf nlh (n # ns) \<longleftrightarrow> nlmsg_len buf nlh = Some (of_nat n) \<and> 16 \<le> n \<and> 4 dvd n \<and> framed buf (nlh + n) ns"

fun lone_payloads :: "bytes \<Rightarrow> nat \<Rightarrow> nat list \<Rightarrow> bool" where
  "lone_payloads buf nlh [] \<longleftrightarrow> True"
| "lone_payloads buf nlh (n # ns) \<longleftrightarrow> lone_payload buf (nlh + 20) (int n - 20) \<and> lone_payloads buf (nlh + n) ns"

lemma nlmsg_loop_in:
  assumes "strings_ok env"
  shows "framed buf nlh ns \<Longrightarrow> silent env \<or> lone_payloads buf nlh ns \<Longrightarrow> nlh + sum_list ns \<le> length buf \<Longrightarrow>
    sum_list ns < 2 ^ 31 \<Longrightarrow> \<not> jn_exception j \<Longrightarrow>
    \<exists>j'. nlmsg_loop env fam buf nlh (of_nat (sum_list ns)) j = Some j' \<and> settled j j'"
proof (induction ns arbitrary: nlh j)
  case Nil
  then show ?case by (simp add: nlmsg_loop_end settled_refl)
next
  case (Cons n ns)
  let ?r = "sum_list (n # ns)"
  have len: "nlmsg_len buf nlh = Some (of_nat n)" "16 \<le> n" "4 dvd n" "n \<le> ?r" "nlh + n \<le> length buf" "n < 2 ^ 31"
    using Cons.prems by auto
  obtain j1 where j1: "handle_event env fam buf nlh j = Some j1" "settled j j1"
    using handle_event_in [OF len(1,2,5,6) assms Cons.prems(5)] Cons.prems(2) by auto
  note st = nlmsg_step [OF len(1-4) Cons.prems(4)]
  have "\<exists>j'. nlmsg_loop env fam buf (nlh + n) (of_nat (sum_list ns)) j1 = Some j' \<and> settled j1 j'"
    by (rule Cons.IH) (use Cons.prems j1(2) in \<open>auto simp: settled_def\<close>)
  then obtain j' where "nlmsg_loop env fam buf (nlh + n) (of_nat (?r - n)) j1 = Some j'" "settled j1 j'"
    by auto
  moreover from this(2) j1(2) have "settled j j'" by (blast intro: settled_trans)
  ultimately show ?case
    by (subst nlmsg_loop.simps) (simp only: st j1(1) Option.bind_lunit if_True fst_conv snd_conv, blast)
qed

text \<open>
  Both conditions are about the received bytes only, whatever follows them in the buffer, and the messages of
  the module meet them.
\<close>

lemma framed_append: "framed d k ns \<Longrightarrow> framed (d @ x) k ns"
proof (induction ns arbitrary: k)
  case (Cons n ns)
  then have "framed (d @ x) (k + n) ns" by simp
  moreover obtain v where "load d k 4 = Some v" "of_le32 v = of_nat n"
    using Cons.prems by (auto simp: nlmsg_len_def)
  ultimately show ?case using Cons.prems load_prefix [of d k 4 v x] by (simp add: nlmsg_len_def)
qed simp

lemma lone_payload_append:
  assumes "int head + len \<le> int (length d)" "lone_payload d head len"
  shows "lone_payload (d @ x) head len"
proof -
  obtain tb where tb: "rkx_nla_parse d uapi_attr_max head len = Some tb" "tb_in d uapi_attr_max tb head (length d)"
    using parse_in [OF assms(1) order_refl] by blast
  note tb' = parse_append [OF tb(1), of x]
  show ?thesis
  proof (cases "tb (unat (uapi_attr RKX_A_EVENT))")
    case None
    then show ?thesis by (simp only: lone_payload_def tb' Option.bind_lunit Option.bind_lzero option.case)
  next
    case (Some evt)
    then have "attr_in d evt head (length d)" using tb(2) by (simp add: tb_in_def)
    from parse_nested_in [OF this order_refl] obtain etb where
      etb: "rkx_nla_parse_nested d uapi_attr_max evt = Some etb" by blast
    show ?thesis
      using assms(2)
      by (simp only: lone_payload_def tb(1) tb' Some etb parse_nested_append [OF etb] Option.bind_lunit option.case)
  qed
qed

lemma lone_payloads_append:
  "k + sum_list ns \<le> length d \<Longrightarrow> lone_payloads d k ns \<Longrightarrow> lone_payloads (d @ x) k ns"
  by (induction ns arbitrary: k) (auto intro!: lone_payload_append)

lemma payloads_one:
  assumes "\<And>a. a \<noteq> p \<Longrightarrow> etb (unat (uapi_attr a)) = None"
  shows "length (payloads etb) \<le> 1"
  using assms [of RKX_A_BINDER] assms [of RKX_A_SIGNAL] assms [of RKX_A_NETWORK]
  by (cases "p = RKX_A_BINDER"; cases "p = RKX_A_SIGNAL") (simp_all add: payloads_def)

lemma event_lone_payload:
  assumes "buf = pre @ event_body ev @ post" "event_wf ev"
  shows "lone_payload buf (length pre) (int (length (event_body ev)))"
proof -
  obtain tb evt etb where t: "rkx_nla_parse buf uapi_attr_max (length pre) (int (length (event_body ev))) = Some tb"
    "tb (unat (uapi_attr RKX_A_EVENT)) = Some evt" "rkx_nla_parse_nested buf uapi_attr_max evt = Some etb"
    and slots: "\<And>a. a \<noteq> event_payload ev \<Longrightarrow> etb (unat (uapi_attr a)) = None"
    using event_tables [OF assms refl refl] by blast
  show ?thesis
    by (simp only: lone_payload_def t Option.bind_lunit option.case) (rule payloads_one [of "event_payload ev"], rule slots)
qed

lemma wire_framed:
  "list_all event_wf evs \<Longrightarrow> buf = pre @ wire fam evs @ post \<Longrightarrow>
     framed buf (length pre) (map (\<lambda>ev. length (event_msg fam ev)) evs) \<and>
     lone_payloads buf (length pre) (map (\<lambda>ev. length (event_msg fam ev)) evs)"
proof (induction evs arbitrary: pre)
  case (Cons ev evs)
  let ?n = "length (event_body ev)"
  have w: "wire fam (ev # evs) = event_msg fam ev @ wire fam evs" by (simp add: wire_def)
  have hdr: "buf = pre @ genl_header (20 + ?n) fam 0 0 (cmd_code RKX_C_EVENT) @ (event_body ev @ wire fam evs @ post)"
    using Cons.prems(2) by (simp add: w event_msg_def genl_msg_def rkx_const)
  have "buf = (pre @ genl_header (20 + ?n) fam 0 0 (cmd_code RKX_C_EVENT)) @ event_body ev @ (wire fam evs @ post)"
    by (simp add: hdr)
  from event_lone_payload [OF this] Cons.prems(1)
  have "lone_payload buf (length pre + 20) (int ?n)" by simp
  moreover have "4 dvd length (event_msg fam ev)" using length_event_body(2) [of ev] by simp
  moreover from Cons.IH [of "pre @ event_msg fam ev"] Cons.prems
  have "framed buf (length (pre @ event_msg fam ev)) (map (\<lambda>ev. length (event_msg fam ev)) evs) \<and>
      lone_payloads buf (length (pre @ event_msg fam ev)) (map (\<lambda>ev. length (event_msg fam ev)) evs)"
    by (simp add: w)
  ultimately show ?case using header_fields(1) [OF hdr] by simp
qed simp

section \<open>Properties\<close>

definition sample_jni_env :: jni_env where
  "sample_jni_env = \<lparr>je_new_string = Some, je_throws = (\<lambda>_. True)\<rparr>"

definition calm_jni_env :: jni_env where
  "calm_jni_env = \<lparr>je_new_string = Some, je_throws = (\<lambda>_. False)\<rparr>"

definition sample_jni :: jni where
  "sample_jni = \<lparr>jn_exception = False, jn_locals = 0, jn_calls = []\<rparr>"

definition sample_event :: rkx_event where
  "sample_event = EV_BINDER \<lparr>be_binder_type = 1, be_oneway = 1, be_from_pid = 321, be_from_uid = 10010,
     be_target_pid = 654, be_target_uid = 10086, be_code = 7,
     be_rpc_name = char_array 140 ''android.app.IApplicationThread''\<rparr>"

lemma sample_event_wf: "event_wf sample_event"
  by (simp add: sample_event_def char_array_def rkx_const)

text \<open>
  C3: an event reaches the Java callback unchanged. Whenever the kernel could allocate the message,
  what it hands to the multicast is, for the client that receives these bytes at the start of its buffer,
  exactly one call of the callback method of that kind of event, with the fields of the event as its
  arguments in the order the Java interface has them, whatever the rest of the buffer holds and even if
  the callback throws; no exception is left pending and no local reference is leaked.
\<close>

theorem event_roundtrip:
  assumes "genl_api_ok api view fam" "genlmsg_new api (nla_total_size 256) = Some s" "event_wf ev"
    and "16 \<le> fam" "strings_ok env" "\<not> jn_exception j"
  shows "\<exists>rc skb. rkx_send_message api ev = (rc, [Multicast skb]) \<and>
    (\<forall>post. nlmsg_loop env fam (ref_bytes (view skb) @ post) 0 (of_nat (length (ref_bytes (view skb)))) j =
       Some (j\<lparr>jn_calls := jn_calls j @ [callback_of ev], jn_exception := False\<rparr>))"
proof -
  obtain skb rc where skb: "ref_bytes (view skb) = event_msg fam ev" "rkx_send_message api ev = (rc, [Multicast skb])"
    using send_message_bytes [OF assms(1,3,2)] by blast
  have w: "wire fam [ev] = event_msg fam ev" by (simp add: wire_def)
  have "length (wire fam [ev]) < 2 ^ 31" using length_event_body(1) [OF assms(3)] by (simp add: w)
  then have "nlmsg_loop env fam (event_msg fam ev @ post) 0 (of_nat (length (event_msg fam ev))) j =
      Some (j\<lparr>jn_calls := jn_calls j @ [callback_of ev], jn_exception := False\<rparr>)" for post
    using nlmsg_loop_events [OF assms(4,5), of "event_msg fam ev @ post" "[]" "[ev]" post j] assms(3,6)
    by (simp add: w delivered_def)
  with skb show ?thesis by auto
qed

theorem event_roundtrip_witness:
  "\<exists>rc skb. rkx_send_message (ref_api 28 (\<lambda>_. 0)) sample_event = (rc, [Multicast skb]) \<and>
     (\<forall>post. nlmsg_loop sample_jni_env 28 (ref_bytes skb @ post) 0 (of_nat (length (ref_bytes skb))) sample_jni =
       Some \<lparr>jn_exception = False, jn_locals = 0,
         jn_calls = [CB_binder 1 1 10010 321 10086 654 (Some (ascii ''android.app.IApplicationThread'')) 7]\<rparr>)"
proof -
  have "cstr (char_array 140 ''android.app.IApplicationThread'') = ascii ''android.app.IApplicationThread''"
    by code_simp
  then have c: "callback_of sample_event =
      CB_binder 1 1 10010 321 10086 654 (Some (ascii ''android.app.IApplicationThread'')) 7"
    by (simp add: sample_event_def)
  have ok: "strings_ok sample_jni_env" "\<not> jn_exception sample_jni"
    by (simp_all add: strings_ok_def sample_jni_env_def sample_jni_def)
  show ?thesis
    using event_roundtrip [OF ref_api_ok _ sample_event_wf _ ok, of 28 "\<lambda>_. 0"]
    by (simp add: c sample_jni_def ref_api_def)
qed

text \<open>
  A datagram with several messages is dispatched completely and in order: one call per event, in the
  order of the messages, and the loop ends.
\<close>

theorem datagram_in_order:
  assumes "16 \<le> fam" "strings_ok env" "list_all event_wf evs" "length (wire fam evs) \<le> 8192" "\<not> jn_exception j"
  shows "nlmsg_loop env fam (wire fam evs @ post) 0 (of_nat (length (wire fam evs))) j =
    Some (j\<lparr>jn_calls := jn_calls j @ map callback_of evs, jn_exception := False\<rparr>)"
  using nlmsg_loop_events [OF assms(1,2), of "wire fam evs @ post" "[]" evs post j] assms(3-5)
  by (simp add: delivered_def)

theorem datagram_in_order_witness:
  "nlmsg_loop sample_jni_env 28 (wire 28 [EV_NETWORK \<lparr>ne_proto = 6, ne_target_uid = 10086, ne_data_len = 9\<rparr>,
       EV_SIGNAL \<lparr>se_signal = 9, se_killer_pid = 1, se_killer_uid = 0, se_dst_pid = 654, se_dst_uid = 10086\<rparr>] @ [1, 2, 3])
     0 120 sample_jni =
   Some (sample_jni\<lparr>jn_calls := [CB_network 6 10086 9, CB_signal 9 0 1 10086 654]\<rparr>)"
proof -
  let ?evs = "[EV_NETWORK \<lparr>ne_proto = 6, ne_target_uid = 10086, ne_data_len = 9\<rparr>,
    EV_SIGNAL \<lparr>se_signal = 9, se_killer_pid = 1, se_killer_uid = 0, se_dst_pid = 654, se_dst_uid = 10086\<rparr>]"
  have l: "length (wire 28 ?evs) = 120" by code_simp
  show ?thesis
    using datagram_in_order [of 28 sample_jni_env ?evs sample_jni "[1, 2, 3]"] unfolding l
    by (simp add: strings_ok_def sample_jni_env_def sample_jni_def)
qed


text \<open>A message of the family whose only attribute claims more bytes than there are.\<close>

definition bad_buf :: bytes where
  "bad_buf = le32 24 @ le16 28 @ le16 0 @ le32 0 @ le32 0 @ [1, 1, 0, 0] @ le16 500 @ le16 1 @ replicate 8168 255"

lemma length_bad_buf: "length bad_buf = 8192"
  by (simp add: bad_buf_def)




end
