(* ===== verification/Rkx_Client.thy ===== *)
theory Rkx_Client
  imports Rkx_Client_Recv
begin

text \<open>
  \<^verbatim>\<open>Develop/rekernel_x/src/main/cpp/rkx_jni.cpp\<close> apart from the event dispatch: loading, the
  callback, the connection, the poll loop and the four requests. The global variables are the fields
  \<open>g_\<dots>\<close> of the record \<open>client\<close>, beside what the system and the Java machine hold for the library: open
  descriptors, sent messages, multicast memberships, the counter of the eventfd, global references, string
  buffers. The results of system and JNI calls are fields of environment records. A system call on a
  descriptor that is not open, the deletion of a reference that does not exist, and an access outside a
  buffer are \<open>None\<close>.
\<close>

section \<open>State and system calls\<close>

record client =
  g_cbClass :: "nat option"
  g_mid_binder :: bool
  g_mid_signal :: bool
  g_mid_network :: bool
  g_callback :: "nat option"
  g_fd :: int
  g_disconnect_fd :: int
  g_family_id :: u16
  g_seq :: u32
  os_fds :: "int set"
  os_sent :: "(int \<times> bytes) list"
  os_groups :: "(int \<times> u32) list"
  os_rcvtimeo :: nat
  os_event :: nat
  jv_globals :: "nat set"
  jv_strings :: nat
  jv_env :: jni

definition client_init :: client where
  "client_init =
     \<lparr>g_cbClass = None, g_mid_binder = False, g_mid_signal = False, g_mid_network = False,
      g_callback = None, g_fd = -1, g_disconnect_fd = -1, g_family_id = 0, g_seq = 1,
      os_fds = {}, os_sent = [], os_groups = [], os_rcvtimeo = 0, os_event = 0,
      jv_globals = {}, jv_strings = 0, jv_env = \<lparr>jn_exception = False, jn_locals = 0, jn_calls = []\<rparr>\<rparr>"

definition open_fd :: "int \<Rightarrow> client \<Rightarrow> client" where
  "open_fd fd s = s\<lparr>os_fds := insert fd (os_fds s)\<rparr>"

definition close_fd :: "int \<Rightarrow> client \<Rightarrow> client option" where
  "close_fd fd s =
     (if fd \<in> os_fds s
      then Some (s\<lparr>os_fds := os_fds s - {fd}, os_groups := filter (\<lambda>(f, g). f \<noteq> fd) (os_groups s)\<rparr>)
      else None)"

text \<open>\<^verbatim>\<open>sendto\<close>: \<open>ret\<close> gives its result for a message of a length; a failed call sends nothing.\<close>

definition sendto :: "(nat \<Rightarrow> int) \<Rightarrow> int \<Rightarrow> bytes \<Rightarrow> nat \<Rightarrow> client \<Rightarrow> (int \<times> client) option" where
  "sendto ret fd buf len s =
     (if fd \<in> os_fds s then do {
        d \<leftarrow> load buf 0 len;
        Some (ret len, if ret len < 0 then s else s\<lparr>os_sent := os_sent s @ [(fd, d)]\<rparr>)
      } else None)"

text \<open>\<^verbatim>\<open>recvfrom\<close> into a buffer: the result and the bytes received.\<close>

definition recv_into :: "bytes \<Rightarrow> int \<times> bytes \<Rightarrow> bytes" where
  "recv_into buf r = (if 0 < fst r then snd r @ drop (length (snd r)) buf else buf)"

definition recv_ok :: "nat \<Rightarrow> int \<times> bytes \<Rightarrow> bool" where
  "recv_ok cap r \<longleftrightarrow> (0 < fst r \<longrightarrow> fst r = int (length (snd r)) \<and> length (snd r) \<le> cap)"

definition nl_sendto :: "(nat \<Rightarrow> int) \<Rightarrow> int \<Rightarrow> bytes \<Rightarrow> nat \<Rightarrow> client \<Rightarrow> (int \<times> client) option" where
  "nl_sendto ret fd buf len s = do {
     (n, s) \<leftarrow> sendto ret fd buf len s;
     Some (if n = int len then 0 else -1, s)
   }"

section \<open>Loading and the callback\<close>

record load_env =
  le_GetEnv :: bool
  le_FindClass :: bool
  le_NewGlobalRef :: "nat option"
  le_binder :: bool
  le_signal :: bool
  le_network :: bool

definition JNI_ERR :: int where "JNI_ERR = -1"
definition JNI_VERSION_1_6 :: int where "JNI_VERSION_1_6 = 0x00010006"

definition new_global :: "nat option \<Rightarrow> client \<Rightarrow> client" where
  "new_global ref s = (case ref of None \<Rightarrow> s | Some r \<Rightarrow> s\<lparr>jv_globals := insert r (jv_globals s)\<rparr>)"

definition DeleteGlobalRef :: "nat \<Rightarrow> client \<Rightarrow> client option" where
  "DeleteGlobalRef r s =
     (if r \<in> jv_globals s then Some (s\<lparr>jv_globals := jv_globals s - {r}\<rparr>) else None)"

text \<open>\<^verbatim>\<open>GetMethodID\<close> of a null class is \<open>None\<close>.\<close>

definition JNI_OnLoad :: "load_env \<Rightarrow> client \<Rightarrow> (int \<times> client) option" where
  "JNI_OnLoad le s =
     (if \<not> le_GetEnv le then Some (JNI_ERR, s)
      else if \<not> le_FindClass le then Some (JNI_ERR, s)
      else let s = (new_global (le_NewGlobalRef le) s)\<lparr>g_cbClass := le_NewGlobalRef le\<rparr>
           in if g_cbClass s = None then None
              else let s = s\<lparr>g_mid_binder := le_binder le, g_mid_signal := le_signal le,
                             g_mid_network := le_network le\<rparr>
                   in if \<not> g_mid_binder s \<or> \<not> g_mid_signal s \<or> \<not> g_mid_network s then Some (JNI_ERR, s)
                      else Some (JNI_VERSION_1_6, s))"

definition JNI_OnUnload :: "bool \<Rightarrow> client \<Rightarrow> client option" where
  "JNI_OnUnload get_env s =
     (if get_env then
        (case g_cbClass s of
           None \<Rightarrow> Some s
         | Some r \<Rightarrow> map_option (\<lambda>s. s\<lparr>g_cbClass := None\<rparr>) (DeleteGlobalRef r s))
      else Some s)"

text \<open>\<open>is_instance\<close> and \<open>ref\<close>: the results of \<^verbatim>\<open>IsInstanceOf\<close> and \<^verbatim>\<open>NewGlobalRef\<close>.\<close>

definition setCallback :: "bool \<Rightarrow> nat option \<Rightarrow> bool \<Rightarrow> client \<Rightarrow> client option" where
  "setCallback is_instance ref callback s =
     (if callback \<and> g_cbClass s = None then None
      else if callback \<and> \<not> is_instance then Some s
      else let new_cb = (if callback then ref else None);
               s = new_global new_cb s;
               old_cb = g_callback s;
               s = s\<lparr>g_callback := new_cb\<rparr>
           in case old_cb of None \<Rightarrow> Some s | Some r \<Rightarrow> DeleteGlobalRef r s)"

section \<open>Resolving the family\<close>

definition GENL_ID_CTRL :: u16 where "GENL_ID_CTRL = 0x10"
definition CTRL_CMD_GETFAMILY :: u8 where "CTRL_CMD_GETFAMILY = 3"
definition CTRL_ATTR_FAMILY_ID :: nat where "CTRL_ATTR_FAMILY_ID = 1"
definition CTRL_ATTR_FAMILY_NAME :: u16 where "CTRL_ATTR_FAMILY_NAME = 2"
definition CTRL_ATTR_MCAST_GROUPS :: nat where "CTRL_ATTR_MCAST_GROUPS = 7"
definition CTRL_ATTR_MAX :: nat where "CTRL_ATTR_MAX = 10"
definition CTRL_ATTR_MCAST_GRP_NAME :: nat where "CTRL_ATTR_MCAST_GRP_NAME = 1"
definition CTRL_ATTR_MCAST_GRP_ID :: nat where "CTRL_ATTR_MCAST_GRP_ID = 2"
definition CTRL_ATTR_MCAST_GRP_MAX :: nat where "CTRL_ATTR_MCAST_GRP_MAX = 2"

lemmas ctrl_defs = CTRL_ATTR_FAMILY_ID_def CTRL_ATTR_MCAST_GROUPS_def CTRL_ATTR_MAX_def
  CTRL_ATTR_MCAST_GRP_NAME_def CTRL_ATTR_MCAST_GRP_ID_def CTRL_ATTR_MCAST_GRP_MAX_def

text \<open>The request, in a zeroed array of 256 bytes; the first component is \<^verbatim>\<open>total\<close>.\<close>

definition getfamily_request :: "u32 \<Rightarrow> (nat \<times> bytes) option" where
  "getfamily_request seq =
     (let name = ascii uapi_family_name @ [0];
          name_len = (of_nat (strlen name + 1) :: u16);
          attr_len = of_nat NLA_HDRLEN + name_len;
          tot = of_nat (NLMSG_HDRLEN + GENL_HDRLEN) + nla_align16 attr_len
      in do {
        buf \<leftarrow> store (replicate 256 0) 0 (le32 (ucast tot));
        buf \<leftarrow> store buf 4 (le16 GENL_ID_CTRL);
        buf \<leftarrow> store buf 6 (le16 NLM_F_REQUEST);
        buf \<leftarrow> store buf 8 (le32 seq);
        buf \<leftarrow> store buf NLMSG_HDRLEN [CTRL_CMD_GETFAMILY, 1];
        buf \<leftarrow> store buf (NLMSG_HDRLEN + GENL_HDRLEN) (le16 attr_len);
        buf \<leftarrow> store buf (NLMSG_HDRLEN + GENL_HDRLEN + 2) (le16 CTRL_ATTR_FAMILY_NAME);
        d \<leftarrow> load name 0 (unat name_len);
        buf \<leftarrow> store buf (nla_data (NLMSG_HDRLEN + GENL_HDRLEN)) d;
        Some (unat tot, buf)
      })"

text \<open>\<^verbatim>\<open>strcmp(grp_name, literal) == 0\<close>: bytes are read until they differ or both are NUL.\<close>

fun strcmp_at :: "bytes \<Rightarrow> nat \<Rightarrow> bytes \<Rightarrow> bool option" where
  "strcmp_at buf pos [] = Some True"
| "strcmp_at buf pos (c # cs) = do {
     b \<leftarrow> load8 buf pos;
     if b \<noteq> c then Some False else if c = 0 then Some True else strcmp_at buf (pos + 1) cs
   }"

text \<open>
  The loop over the multicast groups, from the offsets \<^verbatim>\<open>nla_for_each_nested\<close> runs through; the
  iteration itself stays inside the buffer (\<open>for_each_in\<close>), so listing the offsets first is the same.
\<close>

fun find_group :: "bytes \<Rightarrow> nat list \<Rightarrow> u32 option" where
  "find_group buf [] = Some 0"
| "find_group buf (mcgrp # rest) = do {
     l \<leftarrow> nla_len buf mcgrp;
     tb \<leftarrow> rkx_nla_parse buf CTRL_ATTR_MCAST_GRP_MAX (nla_data mcgrp) (uint l);
     case (tb CTRL_ATTR_MCAST_GRP_NAME, tb CTRL_ATTR_MCAST_GRP_ID) of
       (Some grp_name, Some grp_id) \<Rightarrow> do {
         same \<leftarrow> strcmp_at buf (nla_data grp_name) (ascii uapi_mcgrp_name @ [0]);
         if same then map_option (\<lambda>r. case r of None \<Rightarrow> 0 | Some d \<Rightarrow> of_le32 d) (rkx_nla_get buf (Some grp_id) 4)
         else find_group buf rest
       }
     | _ \<Rightarrow> find_group buf rest
   }"

definition parse_family_reply :: "bytes \<Rightarrow> int \<Rightarrow> ((u16 \<times> u32) option) option" where
  "parse_family_reply reply rlen =
     (if rlen < int NLMSG_HDRLEN then Some None
      else do {
        ty \<leftarrow> nlmsg_type reply 0;
        if ty = NLMSG_ERROR then Some None
        else do {
          len \<leftarrow> nlmsg_len reply 0;
          tb \<leftarrow> rkx_nla_parse reply CTRL_ATTR_MAX (NLMSG_HDRLEN + GENL_HDRLEN)
                 (min (sint len) rlen - int (NLMSG_HDRLEN + GENL_HDRLEN));
          fid \<leftarrow> (case tb CTRL_ATTR_FAMILY_ID of
                   None \<Rightarrow> Some 0
                 | Some nla \<Rightarrow> map_option (\<lambda>r. case r of None \<Rightarrow> 0 | Some d \<Rightarrow> of_le16 d)
                     (rkx_nla_get reply (Some nla) 2));
          gid \<leftarrow> (case tb CTRL_ATTR_MCAST_GROUPS of
                   None \<Rightarrow> Some 0
                 | Some nla \<Rightarrow> do {
                     l \<leftarrow> nla_len reply nla;
                     ps \<leftarrow> nla_for_each_attr reply (nla_data nla) (uint l);
                     find_group reply ps
                   });
          Some (if fid = 0 \<or> gid = 0 then None else Some (fid, gid))
        }
      })"

record conn_env =
  ce_socket :: int
  ce_eventfd :: int
  ce_bind :: int
  ce_sendto :: "nat \<Rightarrow> int"
  ce_recv :: "int \<times> bytes"
  ce_reply :: bytes
  ce_timeo :: bool
  ce_member :: int

definition set_rcvtimeo :: "conn_env \<Rightarrow> nat \<Rightarrow> client \<Rightarrow> client" where
  "set_rcvtimeo ce v s = (if ce_timeo ce then s\<lparr>os_rcvtimeo := v\<rparr> else s)"

definition resolve_family_group :: "conn_env \<Rightarrow> int \<Rightarrow> client \<Rightarrow> ((u16 \<times> u32) option \<times> client) option" where
  "resolve_family_group ce fd s = do {
     (len, buf) \<leftarrow> getfamily_request (g_seq s);
     let s = set_rcvtimeo ce 3 (s\<lparr>g_seq := g_seq s + 1\<rparr>);
     (n, s) \<leftarrow> nl_sendto (ce_sendto ce) fd buf len s;
     if n < 0 then Some (None, s)
     else do {
       r \<leftarrow> parse_family_reply (recv_into (ce_reply ce) (ce_recv ce)) (fst (ce_recv ce));
       Some (r, s)
     }
   }"

section \<open>The connection\<close>

definition close_both :: "int \<Rightarrow> int \<Rightarrow> client \<Rightarrow> (bool \<times> client) option" where
  "close_both fd disconnect_fd s = do {
     s \<leftarrow> close_fd fd s;
     s \<leftarrow> close_fd disconnect_fd s;
     Some (False, s)
   }"

text \<open>\<^verbatim>\<open>SO_RCVBUF\<close> only sizes a queue of the kernel and is left out.\<close>

definition connect :: "conn_env \<Rightarrow> client \<Rightarrow> (bool \<times> client) option" where
  "connect ce s =
     (if g_fd s \<ge> 0 then Some (True, s)
      else let fd = ce_socket ce in
      if fd < 0 then Some (False, s)
      else let s = open_fd fd s; disconnect_fd = ce_eventfd ce in
      if disconnect_fd < 0 then map_option (Pair False) (close_fd fd s)
      else let s = (open_fd disconnect_fd s)\<lparr>os_event := 0\<rparr> in
      if ce_bind ce < 0 then close_both fd disconnect_fd s
      else do {
        (r, s) \<leftarrow> resolve_family_group ce fd s;
        case r of
          None \<Rightarrow> close_both fd disconnect_fd s
        | Some (resolved_fid, resolved_gid) \<Rightarrow>
            let s = set_rcvtimeo ce 0 s in
            if resolved_gid > 0 \<and> ce_member ce < 0 then close_both fd disconnect_fd s
            else let s = (if resolved_gid > 0 then s\<lparr>os_groups := (fd, resolved_gid) # os_groups s\<rparr> else s) in
            Some (True, s\<lparr>g_family_id := resolved_fid, g_disconnect_fd := disconnect_fd, g_fd := fd\<rparr>)
      })"

definition disconnect :: "client \<Rightarrow> client option" where
  "disconnect s =
     (if g_disconnect_fd s \<ge> 0 then
        (if g_disconnect_fd s \<in> os_fds s then Some (s\<lparr>os_event := os_event s + 1\<rparr>) else None)
      else Some s)"

section \<open>The poll loop\<close>

text \<open>
  What one round of the loop meets: the result of \<^verbatim>\<open>poll\<close>, whether the eventfd is readable,
  whether the socket is readable or has an error, what is received, and whether
  \<^verbatim>\<open>NewLocalRef\<close> succeeds; of a deleted global reference it is \<open>None\<close>.
\<close>

record poll_input =
  pi_poll :: int
  pi_disconnect :: bool
  pi_readable :: bool
  pi_recv :: "int \<times> bytes"
  pi_NewLocalRef :: bool

datatype poll_next = Again bytes client | Leave client

definition poll_round :: "jni_env \<Rightarrow> poll_input \<Rightarrow> bytes \<Rightarrow> client \<Rightarrow> poll_next option" where
  "poll_round env i rbuf s =
     (if g_fd s < 0 \<or> g_disconnect_fd s < 0 then Some (Leave s)
      else if g_fd s \<notin> os_fds s \<or> g_disconnect_fd s \<notin> os_fds s then None
      else if pi_poll i < 0 then Some (Again rbuf s)
      else if pi_disconnect i then Some (Leave (s\<lparr>os_event := 0\<rparr>))
      else if \<not> pi_readable i then Some (Again rbuf s)
      else let rlen = fst (pi_recv i); rbuf = recv_into rbuf (pi_recv i) in
      if rlen \<le> 0 then Some (Again rbuf s)
      else if \<not> set_option (g_callback s) \<subseteq> jv_globals s then None
      else if g_callback s \<noteq> None \<and> pi_NewLocalRef i then do {
        j \<leftarrow> nlmsg_loop env (g_family_id s) rbuf 0 (word_of_int rlen)
               ((jv_env s)\<lparr>jn_locals := jn_locals (jv_env s) + 1\<rparr>);
        j \<leftarrow> DeleteLocalRef j;
        Some (Again rbuf (s\<lparr>jv_env := j\<rparr>))
      } else Some (Again rbuf s))"

definition poll_cleanup :: "client \<Rightarrow> client option" where
  "poll_cleanup s = do {
     let fd = g_fd s;
     let disconnect_fd = g_disconnect_fd s;
     let s = s\<lparr>g_fd := -1, g_disconnect_fd := -1, g_family_id := 0\<rparr>;
     s \<leftarrow> (if fd \<ge> 0 then close_fd fd s else Some s);
     if disconnect_fd \<ge> 0 then close_fd disconnect_fd s else Some s
   }"

text \<open>
  \<^verbatim>\<open>pollEvent\<close> over the rounds the system provides; the first component says whether it has
  returned, or still waits in \<^verbatim>\<open>poll\<close> after these rounds.
\<close>

fun pollEvent :: "jni_env \<Rightarrow> poll_input list \<Rightarrow> bytes \<Rightarrow> client \<Rightarrow> (bool \<times> client) option" where
  "pollEvent env [] rbuf s =
     (if g_fd s < 0 \<or> g_disconnect_fd s < 0 then map_option (Pair True) (poll_cleanup s) else Some (False, s))"
| "pollEvent env (i # is) rbuf s = do {
     r \<leftarrow> poll_round env i rbuf s;
     case r of
       Again rbuf s \<Rightarrow> pollEvent env is rbuf s
     | Leave s \<Rightarrow> map_option (Pair True) (poll_cleanup s)
   }"

section \<open>Requests\<close>

record req_env =
  re_socket :: int
  re_buf :: bytes
  re_sendto :: "nat \<Rightarrow> int"
  re_GetStringUTFChars :: "bytes option"

definition not_connected :: "client \<Rightarrow> bool" where
  "not_connected s \<longleftrightarrow> g_family_id s = 0 \<or> g_fd s < 0"

definition next_seq :: "client \<Rightarrow> client" where
  "next_seq s = s\<lparr>g_seq := g_seq s + 1\<rparr>"

text \<open>The end of every request: \<^verbatim>\<open>sendto\<close>, \<^verbatim>\<open>close\<close>, and whether all was sent.\<close>

definition send_close :: "req_env \<Rightarrow> int \<Rightarrow> nat \<times> bytes \<Rightarrow> client \<Rightarrow> (bool \<times> client) option" where
  "send_close re fd m s = do {
     (n, s) \<leftarrow> sendto (re_sendto re) fd (snd m) (fst m) s;
     s \<leftarrow> close_fd fd s;
     Some (n = int (fst m), s)
   }"

definition addMonitorNet :: "s32 \<Rightarrow> req_env \<Rightarrow> client \<Rightarrow> (bool \<times> client) option" where
  "addMonitorNet uid re s =
     (let family = g_family_id s; fd = re_socket re in
      if not_connected s then Some (False, s)
      else if fd < 0 then Some (False, s)
      else do {
        b \<leftarrow> nb_new (re_buf re) 128;
        b \<leftarrow> putGenlHeader b family (g_seq s) (uapi_cmd RKX_C_ADD_MONITOR_NET) uapi_version;
        (_, b) \<leftarrow> putU32 b (uapi_attr RKX_A_UID) uid;
        m \<leftarrow> nb_finish b;
        send_close re fd m (next_seq (open_fd fd s))
      })"

definition delMonitorNet :: "s32 \<Rightarrow> req_env \<Rightarrow> client \<Rightarrow> (bool \<times> client) option" where
  "delMonitorNet uid re s =
     (let family = g_family_id s; fd = re_socket re in
      if not_connected s then Some (False, s)
      else if fd < 0 then Some (False, s)
      else do {
        b \<leftarrow> nb_new (re_buf re) 128;
        b \<leftarrow> putGenlHeader b family (g_seq s) (uapi_cmd RKX_C_DEL_MONITOR_NET) uapi_version;
        (_, b) \<leftarrow> putU32 b (uapi_attr RKX_A_UID) uid;
        m \<leftarrow> nb_finish b;
        send_close re fd m (next_seq (open_fd fd s))
      })"

text \<open>\<^verbatim>\<open>b.put\<dots>(\<dots>) && b.put\<dots>(\<dots>)\<close>: a later put runs only if the earlier succeeded.\<close>

definition and_put ::
  "(bool \<times> nla_builder) option \<Rightarrow> (nla_builder \<Rightarrow> (bool \<times> nla_builder) option) \<Rightarrow> (bool \<times> nla_builder) option" where
  "and_put r f = do { (ok, b) \<leftarrow> r; if ok then f b else Some (False, b) }"

definition GetStringUTFChars :: "client \<Rightarrow> client" where
  "GetStringUTFChars s = s\<lparr>jv_strings := jv_strings s + 1\<rparr>"

definition ReleaseStringUTFChars :: "client \<Rightarrow> client option" where
  "ReleaseStringUTFChars s =
     (if jv_strings s = 0 then None else Some (s\<lparr>jv_strings := jv_strings s - 1\<rparr>))"

definition addFreeAsync ::
  "bool \<Rightarrow> s32 \<Rightarrow> s32 \<Rightarrow> req_env \<Rightarrow> client \<Rightarrow> (bool \<times> client) option" where
  "addFreeAsync rpcName code strategy re s =
     (let family = g_family_id s; fd = re_socket re in
      if not_connected s \<or> \<not> rpcName \<or> sint code < -1 then Some (False, s)
      else case re_GetStringUTFChars re of
        None \<Rightarrow> Some (False, s)
      | Some rpc_name \<Rightarrow> do {
          let s = GetStringUTFChars s;
          c \<leftarrow> load8 rpc_name 0;
          if c = 0 then map_option (Pair False) (ReleaseStringUTFChars s)
          else if fd < 0 then map_option (Pair False) (ReleaseStringUTFChars s)
          else do {
            b \<leftarrow> nb_new (re_buf re) 256;
            b \<leftarrow> putGenlHeader b family (g_seq s) (uapi_cmd RKX_C_ADD_FREE_ASYNC) uapi_version;
            (ok, b) \<leftarrow> and_put (and_put (putString b (uapi_attr RKX_A_FREE_ASYNC_RPC_NAME) rpc_name)
              (\<lambda>b. putS32 b (uapi_attr RKX_A_FREE_ASYNC_CODE) code))
              (\<lambda>b. putU8 b (uapi_attr RKX_A_FREE_ASYNC_STRATEGY) (ucast strategy));
            m \<leftarrow> nb_finish b;
            s \<leftarrow> ReleaseStringUTFChars (next_seq (open_fd fd s));
            if \<not> ok then map_option (Pair False) (close_fd fd s)
            else send_close re fd m s
          }
        })"

definition delFreeAsync :: "bool \<Rightarrow> s32 \<Rightarrow> req_env \<Rightarrow> client \<Rightarrow> (bool \<times> client) option" where
  "delFreeAsync rpcName code re s =
     (let family = g_family_id s; fd = re_socket re in
      if not_connected s \<or> \<not> rpcName \<or> sint code < -1 then Some (False, s)
      else case re_GetStringUTFChars re of
        None \<Rightarrow> Some (False, s)
      | Some rpc_name \<Rightarrow> do {
          let s = GetStringUTFChars s;
          c \<leftarrow> load8 rpc_name 0;
          if c = 0 then map_option (Pair False) (ReleaseStringUTFChars s)
          else if fd < 0 then map_option (Pair False) (ReleaseStringUTFChars s)
          else do {
            b \<leftarrow> nb_new (re_buf re) 256;
            b \<leftarrow> putGenlHeader b family (g_seq s) (uapi_cmd RKX_C_DEL_FREE_ASYNC) uapi_version;
            (ok, b) \<leftarrow> and_put (putString b (uapi_attr RKX_A_FREE_ASYNC_RPC_NAME) rpc_name)
              (\<lambda>b. putS32 b (uapi_attr RKX_A_FREE_ASYNC_CODE) code);
            m \<leftarrow> nb_finish b;
            s \<leftarrow> ReleaseStringUTFChars (next_seq (open_fd fd s));
            if \<not> ok then map_option (Pair False) (close_fd fd s)
            else send_close re fd m s
          }
        })"

end
