(* ===== verification/Rkx_Client_Conn.thy ===== *)
theory Rkx_Client_Conn
  imports Rkx_Client
begin

text \<open>
  The invariant of the client and the connection: parsing the reply of the controller stays inside its
  array, the request for the family is the right message, and connecting leaks no descriptor on any path.
\<close>

section \<open>Resolving the family stays inside the reply\<close>

lemma strcmp_at_in: "pos + length lit \<le> length buf \<Longrightarrow> \<exists>r. strcmp_at buf pos lit = Some r"
  by (induction lit arbitrary: pos) (auto simp: load8_def)

lemma find_group_in:
  assumes "hi + 7 \<le> length buf"
  shows "list_all (\<lambda>p. attr_in buf p lo hi) ps \<Longrightarrow> \<exists>g. find_group buf ps = Some g"
proof (induction ps)
  case (Cons p ps)
  have at: "attr_in buf p lo hi" and le: "hi \<le> length buf" using Cons.prems assms by auto
  obtain l where l: "nla_len buf p = Some l" "p + 4 + unat l \<le> hi" using nla_len_in [OF at] by blast
  have "int (p + 4) + uint l \<le> int hi" using l(2) unfolding uint_nat by linarith
  from parse_in [OF this le, of CTRL_ATTR_MCAST_GRP_MAX] obtain tb where
    tb: "rkx_nla_parse buf CTRL_ATTR_MCAST_GRP_MAX (p + 4) (uint l) = Some tb"
    "tb_in buf CTRL_ATTR_MCAST_GRP_MAX tb (p + 4) hi" by blast
  have "\<exists>r. strcmp_at buf (nm + 4) (ascii uapi_mcgrp_name @ [0]) = Some r" if "tb CTRL_ATTR_MCAST_GRP_NAME = Some nm" for nm
  proof -
    have "attr_in buf nm (p + 4) hi" using tb(2) that by (simp add: tb_in_def)
    then have "nm + 4 \<le> hi" by (auto simp: attr_in_def)
    then show ?thesis using assms by (intro strcmp_at_in) (simp add: uapi_mcgrp_name_def)
  qed
  moreover have "\<exists>r. rkx_nla_get buf (Some g) 4 = Some r" if "tb CTRL_ATTR_MCAST_GRP_ID = Some g" for g
    using get_in [OF _ le, of g "p + 4" 4] tb(2) that by (simp add: tb_in_def)
  moreover have "\<exists>g. find_group buf ps = Some g" using Cons by simp
  ultimately show ?case
    by (fastforce simp: l(1) tb(1) nla_data_def NLA_HDRLEN_def split: option.split)
qed simp

lemma parse_family_reply_in:
  assumes "rlen \<le> int hi" "hi + 7 \<le> length reply"
  shows "\<exists>r. parse_family_reply reply rlen = Some r"
proof (cases "rlen < 16")
  case False
  then have "16 \<le> hi" using assms(1) by linarith
  then obtain ty len where f: "nlmsg_type reply 0 = Some ty" "nlmsg_len reply 0 = Some len"
    using assms(2) by (auto simp: nlmsg_type_def nlmsg_len_def load_def)
  have le: "hi \<le> length reply" using assms(2) by simp
  have "int 20 + (min (sint len) rlen - 20) \<le> int hi" using assms(1) by linarith
  from parse_in [OF this le, of CTRL_ATTR_MAX] obtain tb where
    tb: "rkx_nla_parse reply CTRL_ATTR_MAX 20 (min (sint len) rlen - 20) = Some tb"
    "tb_in reply CTRL_ATTR_MAX tb 20 hi" by blast
  have fid: "\<exists>v. rkx_nla_get reply (Some p) 2 = Some v" if "tb CTRL_ATTR_FAMILY_ID = Some p" for p
    using get_in [OF _ le, of p 20 2] tb(2) that by (simp add: tb_in_def)
  have gid: "\<exists>l ps g. nla_len reply p = Some l \<and> nla_for_each_attr reply (nla_data p) (uint l) = Some ps \<and>
      find_group reply ps = Some g" if "tb CTRL_ATTR_MCAST_GROUPS = Some p" for p
  proof -
    have "attr_in reply p 20 hi" using tb(2) that by (simp add: tb_in_def)
    from nla_len_in [OF this] obtain l where l: "nla_len reply p = Some l" "p + 4 + unat l \<le> hi" by blast
    have "int (p + 4) + uint l \<le> int hi" using l(2) unfolding uint_nat by linarith
    from for_each_in [OF this le] obtain ps where
      "nla_for_each_attr reply (p + 4) (uint l) = Some ps" "list_all (\<lambda>q. attr_in reply q (p + 4) hi) ps" by blast
    with find_group_in [OF assms(2), of "p + 4" ps] l(1) show ?thesis by (simp add: nla_data_def NLA_HDRLEN_def)
  qed
  show ?thesis
    using False fid gid
    by (cases "tb CTRL_ATTR_FAMILY_ID"; cases "tb CTRL_ATTR_MCAST_GROUPS")
       (fastforce simp: parse_family_reply_def f NLMSG_HDRLEN_def GENL_HDRLEN_def tb(1))+
qed (simp add: parse_family_reply_def NLMSG_HDRLEN_def)

section \<open>The request for the family\<close>

definition getfamily_msg :: "u32 \<Rightarrow> bytes" where
  "getfamily_msg seq = genl_msg GENL_ID_CTRL NLM_F_REQUEST seq CTRL_CMD_GETFAMILY
     (tlvs [(CTRL_ATTR_FAMILY_NAME, ascii RKX_GENL_FAMILY_NAME @ [0])])"

lemma length_getfamily_msg: "length (getfamily_msg seq) = 36"
  by (simp add: getfamily_msg_def genl_msg_def RKX_GENL_FAMILY_NAME_def nla_total_size_def NLA_ALIGN_def NLA_HDRLEN_def)

lemma getfamily_request_eq: "getfamily_request seq = Some (36, getfamily_msg seq @ replicate 220 0)"
proof -
  have n: "strlen (ascii uapi_family_name @ [0]) + 1 = 12" by code_simp
  have w: "of_nat (NLMSG_HDRLEN + GENL_HDRLEN) + nla_align16 (of_nat NLA_HDRLEN + of_nat 12) = (36 :: u16)"
    "of_nat NLA_HDRLEN + of_nat 12 = (16 :: u16)"
    by (simp_all add: NLMSG_HDRLEN_def GENL_HDRLEN_def NLA_HDRLEN_def nla_align16_def)
  have l: "load (ascii uapi_family_name @ [0]) 0 (unat (of_nat 12 :: u16)) = Some (ascii RKX_GENL_FAMILY_NAME @ [0])"
    by (simp add: load_def uapi_family_name_def RKX_GENL_FAMILY_NAME_def)
  have z: "replicate 4 0 = le32 0" "replicate 2 (0 :: u8) = [0, 0]"
    by (simp_all add: le32_def numeral_eq_Suc)
  show ?thesis
    unfolding getfamily_request_def n Let_def w l
    by (simp add: store_def getfamily_msg_def genl_msg_def genl_header_def tlv_def nla_total_size_def NLA_ALIGN_def
        rkx_const nla_data_def RKX_GENL_FAMILY_NAME_def z nla_align16_def)
qed

lemma sendto_fits:
  assumes "fd \<in> os_fds s" "len \<le> length buf"
  shows "sendto ret fd buf len s =
    Some (ret len, s\<lparr>os_sent := os_sent s @ (if ret len < 0 then [] else [(fd, take len buf)])\<rparr>)"
  using assms by (simp add: sendto_def load_def)

lemma family_reply_nonzero:
  "parse_family_reply reply rlen = Some (Some (fid, gid)) \<Longrightarrow> fid \<noteq> 0 \<and> gid \<noteq> 0"
  by (auto simp: parse_family_reply_def split: if_splits bind_splits)

text \<open>
  What connecting relies on: new descriptors are not in use, the reply array has 4096 bytes, and the reply
  leaves the last seven of them free, so that the comparison of an unterminated group name ends in the array.
\<close>

definition conn_env_ok :: "conn_env \<Rightarrow> client \<Rightarrow> bool" where
  "conn_env_ok ce s \<longleftrightarrow>
     ce_socket ce \<notin> os_fds s \<and> ce_eventfd ce \<notin> os_fds s \<and>
     (0 \<le> ce_socket ce \<longrightarrow> ce_eventfd ce \<noteq> ce_socket ce) \<and>
     length (ce_reply ce) = 4096 \<and> recv_ok 4089 (ce_recv ce)"

definition resolve_sent :: "conn_env \<Rightarrow> int \<Rightarrow> client \<Rightarrow> (int \<times> bytes) list" where
  "resolve_sent ce fd s = (if ce_sendto ce 36 < 0 then [] else [(fd, getfamily_msg (g_seq s))])"

lemma resolve_eq:
  assumes "fd \<in> os_fds s"
  shows "resolve_family_group ce fd s =
    (let s' = s\<lparr>g_seq := g_seq s + 1, os_rcvtimeo := (if ce_timeo ce then 3 else os_rcvtimeo s),
                os_sent := os_sent s @ resolve_sent ce fd s\<rparr>
     in if ce_sendto ce 36 \<noteq> 36 then Some (None, s')
        else map_option (\<lambda>r. (r, s')) (parse_family_reply (recv_into (ce_reply ce) (ce_recv ce)) (fst (ce_recv ce))))"
  using assms
  by (simp add: resolve_family_group_def getfamily_request_eq nl_sendto_def set_rcvtimeo_def sendto_fits
      length_getfamily_msg resolve_sent_def Let_def map_conv_bind_option comp_def)

lemma resolve_in:
  assumes "fd \<in> os_fds s" "length (ce_reply ce) = 4096" "recv_ok 4089 (ce_recv ce)"
  shows "\<exists>r. resolve_family_group ce fd s = Some (r,
      s\<lparr>g_seq := g_seq s + 1, os_rcvtimeo := (if ce_timeo ce then 3 else os_rcvtimeo s),
        os_sent := os_sent s @ resolve_sent ce fd s\<rparr>) \<and>
    (\<forall>fid gid. r = Some (fid, gid) \<longrightarrow> fid \<noteq> 0 \<and> gid \<noteq> 0)"
proof -
  have "length (recv_into (ce_reply ce) (ce_recv ce)) = 4096" "fst (ce_recv ce) \<le> int 4089"
    using assms(2,3) by (auto simp: recv_into_def recv_ok_def)
  then obtain r where "parse_family_reply (recv_into (ce_reply ce) (ce_recv ce)) (fst (ce_recv ce)) = Some r"
    using parse_family_reply_in [of "fst (ce_recv ce)" 4089 "recv_into (ce_reply ce) (ce_recv ce)"] by auto
  then show ?thesis using assms(1) family_reply_nonzero by (auto simp: resolve_eq Let_def)
qed

section \<open>The invariant of the client\<close>

definition connection_inv :: "client \<Rightarrow> bool" where
  "connection_inv s \<longleftrightarrow>
     (if g_fd s < 0
      then g_fd s = -1 \<and> g_disconnect_fd s = -1 \<and> g_family_id s = 0 \<and> os_fds s = {} \<and> os_groups s = []
      else 0 \<le> g_disconnect_fd s \<and> g_disconnect_fd s \<noteq> g_fd s \<and> g_family_id s \<noteq> 0 \<and>
        os_fds s = {g_fd s, g_disconnect_fd s} \<and> map fst (os_groups s) = [g_fd s])"

definition java_inv :: "client \<Rightarrow> bool" where
  "java_inv s \<longleftrightarrow> g_cbClass s \<noteq> None \<and> g_callback s \<noteq> g_cbClass s \<and>
     jv_globals s = set_option (g_cbClass s) \<union> set_option (g_callback s) \<and>
     jv_strings s = 0 \<and> \<not> jn_exception (jv_env s) \<and> jn_locals (jv_env s) = 0"

definition client_inv :: "client \<Rightarrow> bool" where
  "client_inv s \<longleftrightarrow> connection_inv s \<and> java_inv s"

text \<open>The two invariants read disjoint parts of the state.\<close>

lemma java_inv_system [simp]:
  "java_inv (s\<lparr>g_fd := a\<rparr>) = java_inv s" "java_inv (s\<lparr>g_disconnect_fd := a\<rparr>) = java_inv s"
  "java_inv (s\<lparr>g_family_id := b\<rparr>) = java_inv s" "java_inv (s\<lparr>g_seq := c\<rparr>) = java_inv s"
  "java_inv (s\<lparr>os_fds := d\<rparr>) = java_inv s" "java_inv (s\<lparr>os_sent := e\<rparr>) = java_inv s"
  "java_inv (s\<lparr>os_groups := f\<rparr>) = java_inv s" "java_inv (s\<lparr>os_rcvtimeo := g\<rparr>) = java_inv s"
  "java_inv (s\<lparr>os_event := g\<rparr>) = java_inv s"
  by (simp_all add: java_inv_def)

lemma connection_inv_java [simp]:
  "connection_inv (s\<lparr>g_seq := c\<rparr>) = connection_inv s" "connection_inv (s\<lparr>os_sent := e\<rparr>) = connection_inv s"
  "connection_inv (s\<lparr>os_rcvtimeo := g\<rparr>) = connection_inv s" "connection_inv (s\<lparr>os_event := g\<rparr>) = connection_inv s"
  "connection_inv (s\<lparr>g_callback := r\<rparr>) = connection_inv s" "connection_inv (s\<lparr>jv_globals := h\<rparr>) = connection_inv s"
  "connection_inv (s\<lparr>jv_strings := g\<rparr>) = connection_inv s" "connection_inv (s\<lparr>jv_env := j\<rparr>) = connection_inv s"
  by (simp_all add: connection_inv_def)

lemma close_both_eq:
  assumes "os_fds s = {dfd, fd}" "os_groups s = []" "fd \<noteq> dfd"
  shows "close_both fd dfd s = Some (False, s\<lparr>os_fds := {}, os_groups := []\<rparr>)"
proof -
  have "{dfd, fd} - {fd} - {dfd} = {}" by auto
  with assms show ?thesis by (simp add: close_both_def close_fd_def)
qed

text \<open>
  Connecting, from a disconnected state: on failure every descriptor that was opened is closed again, and
  of the library's own state only the sequence number has changed.
\<close>

definition same_java :: "client \<Rightarrow> client \<Rightarrow> bool" where
  "same_java s s' \<longleftrightarrow> g_cbClass s' = g_cbClass s \<and> g_mid_binder s' = g_mid_binder s \<and>
     g_mid_signal s' = g_mid_signal s \<and> g_mid_network s' = g_mid_network s \<and> g_callback s' = g_callback s \<and>
     jv_globals s' = jv_globals s \<and> jv_strings s' = jv_strings s \<and> jv_env s' = jv_env s"

definition aborted :: "client \<Rightarrow> client \<Rightarrow> bool" where
  "aborted s s' \<longleftrightarrow> os_fds s' = {} \<and> os_groups s' = [] \<and> g_fd s' = g_fd s \<and>
     g_disconnect_fd s' = g_disconnect_fd s \<and> g_family_id s' = g_family_id s \<and> same_java s s'"

definition attached :: "conn_env \<Rightarrow> u16 \<Rightarrow> u32 \<Rightarrow> client \<Rightarrow> client \<Rightarrow> bool" where
  "attached ce fid gid s s' \<longleftrightarrow>
     g_fd s' = ce_socket ce \<and> g_disconnect_fd s' = ce_eventfd ce \<and> g_family_id s' = fid \<and>
     os_fds s' = {ce_eventfd ce, ce_socket ce} \<and> os_groups s' = [(ce_socket ce, gid)] \<and> os_event s' = 0 \<and>
     g_seq s' = g_seq s + 1 \<and> os_sent s' = os_sent s @ resolve_sent ce (ce_socket ce) s \<and>
     (ce_timeo ce \<longrightarrow> os_rcvtimeo s' = 0) \<and> same_java s s'"

lemma java_inv_same: "same_java s s' \<Longrightarrow> java_inv s' = java_inv s"
  by (simp add: same_java_def java_inv_def)

definition conn_outcome :: "conn_env \<Rightarrow> client \<Rightarrow> (bool \<times> client) option \<Rightarrow> bool" where
  "conn_outcome ce s res \<longleftrightarrow> (\<exists>s'. res = Some (False, s') \<and> aborted s s') \<or>
     (\<exists>s' fid gid. res = Some (True, s') \<and> attached ce fid gid s s' \<and> fid \<noteq> 0 \<and> gid \<noteq> 0 \<and>
        0 \<le> ce_socket ce \<and> 0 \<le> ce_eventfd ce \<and> ce_socket ce \<noteq> ce_eventfd ce)"

lemma outcome_fail: "res = Some (False, s') \<Longrightarrow> aborted s s' \<Longrightarrow> conn_outcome ce s res"
  unfolding conn_outcome_def by blast

lemma outcome_ok:
  "res = Some (True, s') \<Longrightarrow> attached ce fid gid s s' \<Longrightarrow> fid \<noteq> 0 \<Longrightarrow> gid \<noteq> 0 \<Longrightarrow> 0 \<le> ce_socket ce \<Longrightarrow>
     0 \<le> ce_eventfd ce \<Longrightarrow> ce_socket ce \<noteq> ce_eventfd ce \<Longrightarrow> conn_outcome ce s res"
  unfolding conn_outcome_def by blast

lemma connect_attached:
  fixes ce s
  defines "fd \<equiv> ce_socket ce" and "dfd \<equiv> ce_eventfd ce"
  assumes s: "g_fd s < 0" "os_fds s = {}" "os_groups s = []" and env: "conn_env_ok ce s"
    and bound: "0 \<le> fd" "0 \<le> dfd" "0 \<le> ce_bind ce" "0 \<le> ce_member ce"
    and r: "resolve_family_group ce fd (s\<lparr>os_fds := {dfd, fd}, os_event := 0\<rparr>) = Some (Some (fid, gid),
      s\<lparr>os_fds := {dfd, fd}, os_event := 0, g_seq := g_seq s + 1,
        os_rcvtimeo := (if ce_timeo ce then 3 else os_rcvtimeo s), os_sent := os_sent s @ resolve_sent ce fd s\<rparr>)"
    and gid: "gid \<noteq> 0"
  shows "\<exists>s'. connect ce s = Some (True, s') \<and> attached ce fid gid s s'"
proof -
  have d: "fd \<noteq> dfd" using env bound(1) by (auto simp: conn_env_ok_def fd_def dfd_def)
  let ?t = "set_rcvtimeo ce 0 (s\<lparr>os_fds := {dfd, fd}, os_event := 0, g_seq := g_seq s + 1,
    os_rcvtimeo := (if ce_timeo ce then 3 else os_rcvtimeo s), os_sent := os_sent s @ resolve_sent ce fd s\<rparr>)"
  let ?u = "?t\<lparr>os_groups := [(fd, gid)], g_family_id := fid, g_disconnect_fd := dfd, g_fd := fd\<rparr>"
  have "0 < gid" using gid by (simp add: word_gt_0)
  then have "connect ce s = Some (True, ?u)"
    using s d bound r by (simp add: connect_def Let_def open_fd_def set_rcvtimeo_def fd_def dfd_def)
  moreover have "attached ce fid gid s ?u"
    by (simp add: attached_def same_java_def set_rcvtimeo_def fd_def dfd_def)
  ultimately show ?thesis by blast
qed

lemma connect_new:
  assumes s: "g_fd s < 0" "os_fds s = {}" "os_groups s = []" and env: "conn_env_ok ce s"
  shows "conn_outcome ce s (connect ce s)"
proof -
  let ?fd = "ce_socket ce" and ?dfd = "ce_eventfd ce"
  let ?s = "s\<lparr>os_fds := {?dfd, ?fd}, os_event := 0\<rparr>"
  have d: "0 \<le> ?fd \<Longrightarrow> ?fd \<noteq> ?dfd" using env by (auto simp: conn_env_ok_def)
  note defs = aborted_def attached_def same_java_def set_rcvtimeo_def
  note eqs = connect_def Let_def open_fd_def
  consider (socket) "?fd < 0" | (event) "0 \<le> ?fd" "?dfd < 0" | (bind) "0 \<le> ?fd" "0 \<le> ?dfd" "ce_bind ce < 0"
    | (bound) "0 \<le> ?fd" "0 \<le> ?dfd" "0 \<le> ce_bind ce" by linarith
  then show ?thesis
  proof cases
    case socket
    then have "connect ce s = Some (False, s)" using s by (simp add: eqs)
    moreover have "aborted s s" using s by (simp add: defs)
    ultimately show ?thesis by (rule outcome_fail)
  next
    case event
    then have "connect ce s = Some (False, s)" using s by (simp add: eqs close_fd_def)
    moreover have "aborted s s" using s by (simp add: defs)
    ultimately show ?thesis by (rule outcome_fail)
  next
    case bind
    then have "connect ce s = Some (False, ?s\<lparr>os_fds := {}, os_groups := []\<rparr>)"
      using s d by (simp add: eqs close_both_eq)
    moreover have "aborted s (?s\<lparr>os_fds := {}, os_groups := []\<rparr>)" using s by (simp add: defs)
    ultimately show ?thesis by (rule outcome_fail)
  next
    case bound
    let ?s' = "?s\<lparr>g_seq := g_seq s + 1, os_rcvtimeo := (if ce_timeo ce then 3 else os_rcvtimeo s),
      os_sent := os_sent s @ resolve_sent ce ?fd s\<rparr>"
    have rs: "resolve_sent ce ?fd ?s = resolve_sent ce ?fd s" by (simp add: resolve_sent_def)
    obtain r where r: "resolve_family_group ce ?fd ?s = Some (r, ?s')"
      and nz: "\<forall>fid gid. r = Some (fid, gid) \<longrightarrow> fid \<noteq> 0 \<and> gid \<noteq> 0"
      using resolve_in [of ?fd ?s ce] env by (auto simp: conn_env_ok_def rs)
    show ?thesis
    proof (cases r)
      case None
      have "connect ce s = Some (False, ?s'\<lparr>os_fds := {}, os_groups := []\<rparr>)"
        using s d bound None r by (simp add: eqs close_both_eq)
      moreover have "aborted s (?s'\<lparr>os_fds := {}, os_groups := []\<rparr>)" using s by (simp add: defs)
      ultimately show ?thesis by (rule outcome_fail)
    next
      case (Some p)
      obtain fid gid where p: "p = (fid, gid)" by (cases p)
      have nz': "fid \<noteq> 0" "gid \<noteq> 0" "0 < gid" using nz Some p by (auto simp: word_gt_0)
      let ?t = "set_rcvtimeo ce 0 ?s'"
      show ?thesis
      proof (cases "ce_member ce < 0")
        case True
        have "connect ce s = Some (False, ?t\<lparr>os_fds := {}, os_groups := []\<rparr>)"
          using s d bound Some p r nz' True by (simp add: eqs close_both_eq set_rcvtimeo_def)
        moreover have "aborted s (?t\<lparr>os_fds := {}, os_groups := []\<rparr>)" using s by (simp add: defs)
        ultimately show ?thesis by (rule outcome_fail)
      next
        case False
        obtain s' where "connect ce s = Some (True, s')" "attached ce fid gid s s'"
          using connect_attached [OF s env, of fid gid] bound False r nz'(2) Some p by auto
        then show ?thesis using nz'(1,2) bound(1,2) d [OF bound(1)] by (rule outcome_ok)
      qed
    qed
  qed
qed

lemma disconnected:
  "client_inv s \<Longrightarrow> g_fd s < 0 \<Longrightarrow>
     g_fd s = -1 \<and> g_disconnect_fd s = -1 \<and> g_family_id s = 0 \<and> os_fds s = {} \<and> os_groups s = []"
  by (simp add: client_inv_def connection_inv_def)

lemma connect_inv:
  assumes inv: "client_inv s" and env: "conn_env_ok ce s"
  shows "\<exists>r s'. connect ce s = Some (r, s') \<and> client_inv s' \<and>
    (if r then 0 \<le> g_fd s' else g_fd s' = -1 \<and> os_fds s' = {} \<and> aborted s s')"
proof (cases "0 \<le> g_fd s")
  case True
  then show ?thesis using inv by (auto simp: connect_def)
next
  case False
  then have d: "g_fd s = -1" "g_disconnect_fd s = -1" "g_family_id s = 0" "os_fds s = {}" "os_groups s = []"
    using disconnected [OF inv] by auto
  have j: "java_inv s" using inv by (simp add: client_inv_def)
  have "conn_outcome ce s (connect ce s)" by (rule connect_new) (simp_all add: d env)
  then consider (fail) s' where "connect ce s = Some (False, s')" "aborted s s'"
    | (ok) s' fid gid where "connect ce s = Some (True, s')" "attached ce fid gid s s'" "fid \<noteq> 0" "gid \<noteq> 0"
        "0 \<le> ce_socket ce" "0 \<le> ce_eventfd ce" "ce_socket ce \<noteq> ce_eventfd ce"
    unfolding conn_outcome_def by blast
  then show ?thesis
  proof cases
    case fail
    then have "client_inv s'"
      using j java_inv_same [of s s'] by (simp add: client_inv_def connection_inv_def aborted_def d)
    with fail d show ?thesis by (auto simp: aborted_def)
  next
    case ok
    then have "client_inv s'"
      using j java_inv_same [of s s'] by (auto simp: client_inv_def connection_inv_def attached_def)
    with ok show ?thesis by (auto simp: attached_def)
  qed
qed

section \<open>The reply of the controller is read correctly\<close>

text \<open>A multicast group in the reply: its index, its name and its number.\<close>

type_synonym mcast_group = "u16 \<times> bytes \<times> u32"

definition group_attrs :: "mcast_group \<Rightarrow> (u16 \<times> bytes) list" where
  "group_attrs g = [(2, le32 (snd (snd g))), (1, fst (snd g) @ [0])]"

definition group_attr :: "mcast_group \<Rightarrow> u16 \<times> bytes" where
  "group_attr g = (fst g, tlvs (group_attrs g))"

text \<open>The number of the first group called \<^verbatim>\<open>events\<close>, or 0.\<close>

fun events_group :: "mcast_group list \<Rightarrow> u32" where
  "events_group [] = 0"
| "events_group (g # gs) = (if fst (snd g) = ascii RKX_GENL_MCGRP_NAME then snd (snd g) else events_group gs)"

definition group_ok :: "mcast_group \<Rightarrow> bool" where
  "group_ok g \<longleftrightarrow> 0 \<notin> set (fst (snd g)) \<and> length (fst (snd g)) < 16"

lemma load_split: "load buf p n = Some d \<Longrightarrow> \<exists>pre post. buf = pre @ d @ post \<and> length pre = p \<and> n = length d"
proof -
  assume l: "load buf p n = Some d"
  have "buf = take p buf @ take n (drop p buf) @ drop n (drop p buf)" by (simp only: append_take_drop_id)
  with l have "buf = take p buf @ d @ drop n (drop p buf)" "length (take p buf) = p" "n = length d"
    by (auto simp: load_def simp del: drop_drop split: if_splits)
  then show ?thesis by blast
qed

lemma load_Cons:
  "load buf p (Suc n) = Some (b # d) \<Longrightarrow> load8 buf p = Some b \<and> load buf (p + 1) n = Some d"
proof -
  assume "load buf p (Suc n) = Some (b # d)"
  then obtain pre post where s: "buf = pre @ (b # d) @ post" "length pre = p" "n = length d"
    using load_split by fastforce
  then have "buf = (pre @ [b]) @ d @ post" by simp
  then have "load buf (p + 1) n = Some d" unfolding s(2) [symmetric] s(3) by (simp only:) (rule load_at; simp)
  moreover have "load8 buf p = Some b" using s by (simp add: load8_def nth_append)
  ultimately show ?thesis by simp
qed

lemma strcmp_at_iff:
  "0 \<notin> set lit \<Longrightarrow> 0 \<notin> set name \<Longrightarrow> load buf p (length (name @ [0])) = Some (name @ [0]) \<Longrightarrow>
     strcmp_at buf p (lit @ [0]) = Some (name = lit)"
proof (induction lit arbitrary: name p)
  case Nil
  then show ?case by (cases name) (auto dest!: load_Cons)
next
  case (Cons c cs)
  show ?case
  proof (cases name)
    case Nil
    with Cons.prems show ?thesis by (auto dest!: load_Cons)
  next
    case n: (Cons b bs)
    with Cons.prems have "load8 buf p = Some b" "load buf (p + 1) (length (bs @ [0])) = Some (bs @ [0])"
      by (auto dest!: load_Cons)
    with Cons.prems Cons.IH [of bs "p + 1"] n show ?thesis by auto
  qed
qed

lemma mcgrp_name_no_nul: "0 \<notin> set (ascii uapi_mcgrp_name)"
  by code_simp

lemma group_small: "group_ok g \<Longrightarrow> small (group_attrs g)" "group_ok g \<Longrightarrow> length (tlvs (group_attrs g)) \<le> 32"
proof -
  assume g: "group_ok g"
  then show "small (group_attrs g)" by (simp add: small_def group_attrs_def group_ok_def)
  have "NLA_ALIGN (4 + Suc (length (fst (snd g)))) \<le> 23"
    using NLA_ALIGN_ge(2) [of "4 + Suc (length (fst (snd g)))"] g unfolding group_ok_def by linarith
  then show "length (tlvs (group_attrs g)) \<le> 32"
    by (simp add: group_attrs_def nla_total_size_def NLA_HDRLEN_def, simp add: NLA_ALIGN_def)
qed

lemma find_group_step:
  assumes "attr_at buf pos k (tlvs (group_attrs g))" "group_ok g"
  shows "find_group buf (pos # rest) =
    (if fst (snd g) = ascii RKX_GENL_MCGRP_NAME then Some (snd (snd g)) else find_group buf rest)"
proof -
  obtain tb where p: "rkx_nla_parse_nested buf 2 pos = Some tb" and tb: "tb_for buf 2 (group_attrs g) tb"
    using parse_nested_tlvs [OF assms(1) group_small(1) [OF assms(2)]] by blast
  have lk: "attr_lookup (group_attrs g) 1 = Some (1, fst (snd g) @ [0])"
    "attr_lookup (group_attrs g) 2 = Some (2, le32 (snd (snd g)))"
    by (simp_all add: attr_lookup_def group_attrs_def NLA_TYPE_MASK_def)
  obtain nm where nm: "tb 1 = Some nm" "attr_at buf nm 1 (fst (snd g) @ [0])"
    using tb_for_Some [OF tb lk(1)] by auto
  obtain gid where gid: "tb 2 = Some gid" "attr_at buf gid 2 (le32 (snd (snd g)))"
    using tb_for_Some [OF tb lk(2)] by auto
  have "load buf (nm + 4) (length (fst (snd g) @ [0])) = Some (fst (snd g) @ [0])"
    using nm(2) by (simp only: attr_at_def)
  then have cmp: "strcmp_at buf (nla_data nm) (ascii uapi_mcgrp_name @ [0]) =
      Some (fst (snd g) = ascii RKX_GENL_MCGRP_NAME)"
    using strcmp_at_iff [OF mcgrp_name_no_nul, of "fst (snd g)" buf "nm + 4"] assms(2)
    by (simp add: nla_data_def NLA_HDRLEN_def group_ok_def uapi_mcgrp_name_def RKX_GENL_MCGRP_NAME_def)
  obtain l where l: "nla_len buf pos = Some l" "rkx_nla_parse buf 2 (nla_data pos) (uint l) = Some tb"
    using p by (auto simp: rkx_nla_parse_nested_def split: bind_splits)
  show ?thesis
    using nla_get_attr [OF gid(2)] nm(1) gid(1)
    by (simp add: l ctrl_defs cmp del: One_nat_def)
qed

lemma find_group_tlvs:
  "list_all group_ok gs \<Longrightarrow> buf = pre @ tlvs (map group_attr gs) @ post \<Longrightarrow>
     find_group buf (attr_offsets (length pre) (map group_attr gs)) = Some (events_group gs)"
proof (induction gs arbitrary: pre)
  case (Cons g gs)
  have g: "group_ok g" "list_all group_ok gs" using Cons.prems(1) by auto
  have buf: "buf = pre @ tlv (fst g) (tlvs (group_attrs g)) @ (tlvs (map group_attr gs) @ post)"
    using Cons.prems(2) by (simp add: group_attr_def [of g])
  have at: "attr_at buf (length pre) (fst g) (tlvs (group_attrs g))"
    unfolding buf by (rule attr_at_tlv) (use group_small(2) [OF g(1)] in simp)
  have "find_group buf (attr_offsets (length (pre @ tlv (fst g) (tlvs (group_attrs g)))) (map group_attr gs)) =
      Some (events_group gs)"
    by (rule Cons.IH [OF g(2)]) (simp add: buf)
  then show ?case using find_group_step [OF at g(1)] by (simp add: group_attr_def [of g])
qed simp

text \<open>
  What a reply of the controller holds: a header, and attributes among which are the number of the family
  and its groups.
\<close>

definition family_reply :: "u16 \<Rightarrow> mcast_group list \<Rightarrow> bytes \<Rightarrow> bool" where
  "family_reply fid gs d \<longleftrightarrow> (\<exists>h as ty t t'. d = h @ tlvs as \<and> length h = 20 \<and> small as \<and>
     nlmsg_type h 0 = Some ty \<and> ty \<noteq> NLMSG_ERROR \<and> nlmsg_len h 0 = Some (of_nat (length d)) \<and>
     attr_lookup as 1 = Some (t, le16 fid) \<and> attr_lookup as 7 = Some (t', tlvs (map group_attr gs)) \<and>
     list_all group_ok gs)"

lemma groups_small: "list_all group_ok gs \<Longrightarrow> small (map group_attr gs)"
  using group_small(2) by (auto simp: small_def list_all_iff group_attr_def) fastforce

lemma parse_family_reply_eq:
  assumes "family_reply fid gs d" "length d < 2 ^ 31" "fid \<noteq> 0" "events_group gs \<noteq> 0"
  shows "parse_family_reply (d @ post) (int (length d)) = Some (Some (fid, events_group gs))"
proof -
  obtain h as ty t t' where d: "d = h @ tlvs as" "length h = 20" and sm: "small as"
    and hd: "nlmsg_type h 0 = Some ty" "ty \<noteq> NLMSG_ERROR" "nlmsg_len h 0 = Some (of_nat (length d))"
    and lk: "attr_lookup as 1 = Some (t, le16 fid)" "attr_lookup as 7 = Some (t', tlvs (map group_attr gs))"
    and gs: "list_all group_ok gs"
    using assms(1) unfolding family_reply_def by blast
  let ?buf = "d @ post"
  have f: "nlmsg_type ?buf 0 = Some ty" "nlmsg_len ?buf 0 = Some (of_nat (length d))"
    using hd(1,3) load_prefix unfolding nlmsg_type_def nlmsg_len_def d(1) by fastforce+
  have buf: "?buf = h @ tlvs as @ post" by (simp add: d(1))
  obtain tb where tb: "rkx_nla_parse ?buf 10 20 (int (length (tlvs as))) = Some tb" "tb_for ?buf 10 as tb"
    using parse_tlvs [OF sm buf d(2) [symmetric] refl] by blast
  obtain p1 where p1: "tb 1 = Some p1" "attr_at ?buf p1 t (le16 fid)" using tb_for_Some [OF tb(2) lk(1)] by auto
  obtain p7 where p7: "tb 7 = Some p7" "attr_at ?buf p7 t' (tlvs (map group_attr gs))"
    using tb_for_Some [OF tb(2) lk(2)] by auto
  obtain pre post' where b7: "?buf = pre @ tlvs (map group_attr gs) @ post'" "length pre = p7 + 4"
    using load_split [of ?buf "p7 + 4"] p7(2) unfolding attr_at_def by blast
  note l7 = attr_at_fields(3,7) [OF p7(2)]
  have each: "nla_for_each_attr ?buf (nla_data p7) (int (length (tlvs (map group_attr gs)))) =
      Some (attr_offsets (length pre) (map group_attr gs))"
    using for_each_tlvs [OF groups_small [OF gs] b7(1)] b7(2) by (simp add: nla_data_def NLA_HDRLEN_def)
  have gid: "find_group ?buf (attr_offsets (length pre) (map group_attr gs)) = Some (events_group gs)"
    by (rule find_group_tlvs [OF gs b7(1)])
  have len: "min (sint (of_nat (length d) :: u32)) (int (length d)) - 20 = int (length (tlvs as))"
    using sint_of_nat_small [OF assms(2)] d by simp
  have g2: "rkx_nla_get ?buf (Some p1) 2 = Some (Some (le16 fid))" using nla_get_attr [OF p1(2)] by simp
  have "\<not> int (length d) < 16" using d by simp
  then show ?thesis
    using hd(2) assms(3,4)
    by (simp add: parse_family_reply_def NLMSG_HDRLEN_def GENL_HDRLEN_def f len tb(1) ctrl_defs p1(1) p7(1) l7 each gid g2
        del: One_nat_def append_assoc of_nat_add)
qed

section \<open>Properties\<close>

definition loaded_client :: client where
  "loaded_client = client_init\<lparr>g_cbClass := Some 1, g_mid_binder := True, g_mid_signal := True, g_mid_network := True,
     jv_globals := {1}\<rparr>"

lemma loaded_client_inv: "client_inv loaded_client"
  by (simp add: loaded_client_def client_init_def client_inv_def connection_inv_def java_inv_def)

definition sample_groups :: "mcast_group list" where
  "sample_groups = [(1, ascii ''other'', 4), (2, ascii ''events'', 5)]"

definition sample_reply_attrs :: "(u16 \<times> bytes) list" where
  "sample_reply_attrs = [(2, ascii ''rekernel_x2'' @ [0]), (1, le16 28), (7, tlvs (map group_attr sample_groups))]"

definition sample_reply :: bytes where
  "sample_reply = (le32 96 @ le16 16 @ le16 0 @ le32 1 @ le32 0 @ [1, 2, 0, 0]) @ tlvs sample_reply_attrs"

definition sample_conn :: "int \<Rightarrow> conn_env" where
  "sample_conn mem = \<lparr>ce_socket = 7, ce_eventfd = 8, ce_bind = 0, ce_sendto = int, ce_recv = (96, sample_reply),
     ce_reply = replicate 4096 0, ce_timeo = True, ce_member = mem\<rparr>"

lemma sample_reply_ok: "family_reply 28 sample_groups sample_reply" "length sample_reply = 96" "events_group sample_groups = 5"
proof -
  show l: "length sample_reply = 96" by code_simp
  have lk: "attr_lookup sample_reply_attrs 1 = Some (1, le16 28)"
    "attr_lookup sample_reply_attrs 7 = Some (7, tlvs (map group_attr sample_groups))"
    by (simp_all add: attr_lookup_def sample_reply_attrs_def NLA_TYPE_MASK_def)
  have s: "list_all group_ok sample_groups" by code_simp
  have sm: "small sample_reply_attrs"
    by (simp add: small_def sample_reply_attrs_def sample_groups_def group_attr_def group_attrs_def
        nla_total_size_def NLA_ALIGN_def NLA_HDRLEN_def)
  let ?h = "le32 96 @ le16 16 @ le16 0 @ le32 1 @ le32 0 @ [1, 2, 0, 0 :: u8]"
  have "nlmsg_type ?h 0 = Some 16" "nlmsg_len ?h 0 = Some 96" by (simp_all add: nlmsg_type_def nlmsg_len_def load_def)
  then show "family_reply 28 sample_groups sample_reply"
    unfolding family_reply_def l using lk s sm
    by (intro exI [of _ ?h] exI [of _ sample_reply_attrs] exI [of _ 16] exI [of _ 1] exI [of _ 7])
       (simp add: sample_reply_def NLMSG_ERROR_def)
  show "events_group sample_groups = 5" by code_simp
qed

lemma sample_conn_ok: "conn_env_ok (sample_conn mem) loaded_client"
  using sample_reply_ok(2)
  by (simp add: conn_env_ok_def sample_conn_def loaded_client_def client_init_def recv_ok_def)

text \<open>
  C13: connecting is all or nothing. Whatever the system calls return and whatever bytes the reply holds, up to
  the last seven of its array, connecting terminates without reading outside the reply and without closing a
  descriptor twice; on success exactly the two published descriptors are open, and on failure every
  descriptor that was opened is closed again and the library is disconnected as before.
\<close>

theorem connect_no_leak:
  assumes "client_inv s" "conn_env_ok ce s"
  shows "\<exists>r s'. connect ce s = Some (r, s') \<and> client_inv s' \<and>
    (if r then 0 \<le> g_fd s' \<and> g_family_id s' \<noteq> 0 \<and> os_fds s' = {g_fd s', g_disconnect_fd s'}
     else g_fd s' = -1 \<and> g_disconnect_fd s' = -1 \<and> g_family_id s' = 0 \<and> os_fds s' = {} \<and> os_groups s' = [])"
proof -
  obtain r s' where c: "connect ce s = Some (r, s')" "client_inv s'" "if r then 0 \<le> g_fd s' else g_fd s' = -1 \<and> os_fds s' = {} \<and> aborted s s'"
    using connect_inv [OF assms] by blast
  have "\<not> r \<Longrightarrow> g_disconnect_fd s' = -1 \<and> g_family_id s' = 0 \<and> os_groups s' = []"
    using disconnected [OF c(2)] c(3) by simp
  moreover have "r \<Longrightarrow> g_family_id s' \<noteq> 0 \<and> os_fds s' = {g_fd s', g_disconnect_fd s'}"
    using c(2,3) by (simp add: client_inv_def connection_inv_def)
  ultimately show ?thesis using c by (intro exI [of _ r] exI [of _ s']) (simp split: if_splits)
qed

text \<open>The membership is refused after everything else went well.\<close>

theorem connect_no_leak_witness:
  "\<exists>r s'. connect (sample_conn (-1)) loaded_client = Some (r, s') \<and> client_inv s' \<and>
     (os_fds s' = {} \<or> os_fds s' = {g_fd s', g_disconnect_fd s'})"
proof -
  obtain r s' where c: "connect (sample_conn (-1)) loaded_client = Some (r, s')" "client_inv s'"
    and p: "if r then 0 \<le> g_fd s' \<and> g_family_id s' \<noteq> 0 \<and> os_fds s' = {g_fd s', g_disconnect_fd s'}
     else g_fd s' = -1 \<and> g_disconnect_fd s' = -1 \<and> g_family_id s' = 0 \<and> os_fds s' = {} \<and> os_groups s' = []"
    using connect_no_leak [OF loaded_client_inv sample_conn_ok, of "-1"] by blast
  have "os_fds s' = {} \<or> os_fds s' = {g_fd s', g_disconnect_fd s'}" using p by (cases r) simp_all
  with c show ?thesis by blast
qed

lemma connect_family:
  assumes "client_inv s" "g_fd s < 0" "conn_env_ok ce s"
    and "0 \<le> ce_socket ce" "0 \<le> ce_eventfd ce" "0 \<le> ce_bind ce" "0 \<le> ce_member ce" "ce_sendto ce 36 = 36"
    and "ce_recv ce = (int (length d), d)" "family_reply fid gs d" "fid \<noteq> 0" "events_group gs \<noteq> 0"
  shows "\<exists>s'. connect ce s = Some (True, s') \<and> attached ce fid (events_group gs) s s'"
proof -
  let ?fd = "ce_socket ce" and ?s = "s\<lparr>os_fds := {ce_eventfd ce, ce_socket ce}, os_event := 0\<rparr>"
  have d: "os_fds s = {}" "os_groups s = []" using disconnected [OF assms(1,2)] by auto
  have l: "0 < length d" "length d \<le> 4089"
    using assms(3,9,10) by (auto simp: conn_env_ok_def recv_ok_def family_reply_def)
  have "parse_family_reply (recv_into (ce_reply ce) (ce_recv ce)) (fst (ce_recv ce)) = Some (Some (fid, events_group gs))"
    using parse_family_reply_eq [OF assms(10) _ assms(11,12)] l by (simp add: assms(9) recv_into_def)
  then have r: "resolve_family_group ce ?fd ?s = Some (Some (fid, events_group gs),
      ?s\<lparr>g_seq := g_seq s + 1, os_rcvtimeo := (if ce_timeo ce then 3 else os_rcvtimeo s),
         os_sent := os_sent s @ resolve_sent ce ?fd s\<rparr>)"
    by (subst resolve_eq) (simp_all add: Let_def assms(8) resolve_sent_def)
  show ?thesis using connect_attached [OF assms(2) d assms(3-7) r assms(12)] by blast
qed

lemma sample_connected:
  "\<exists>s'. connect (sample_conn 0) loaded_client = Some (True, s') \<and> attached (sample_conn 0) 28 5 loaded_client s'"
proof -
  have "g_fd loaded_client < 0" by (simp add: loaded_client_def client_init_def)
  from connect_family [OF loaded_client_inv this sample_conn_ok, of 0 sample_reply 28 sample_groups]
  show ?thesis using sample_reply_ok by (simp add: sample_conn_def)
qed

text \<open>
  Connecting joins the events group of a reply. When the system calls succeed and the reply carries the
  number of the family and its groups, the client asks the controller for the family by the name the module
  registers, and then is a member of exactly the first group called \<^verbatim>\<open>events\<close>, with the number of the
  family for its requests, on a socket that blocks again.
\<close>

theorem connect_joins:
  assumes "client_inv s" "g_fd s < 0" "conn_env_ok ce s"
    and "0 \<le> ce_socket ce" "0 \<le> ce_eventfd ce" "0 \<le> ce_bind ce" "0 \<le> ce_member ce" "ce_sendto ce 36 = 36"
    and "ce_recv ce = (int (length d), d)" "family_reply fid gs d" "fid \<noteq> 0" "events_group gs \<noteq> 0"
  shows "\<exists>s'. connect ce s = Some (True, s') \<and> g_fd s' = ce_socket ce \<and> g_disconnect_fd s' = ce_eventfd ce \<and>
    g_family_id s' = fid \<and> os_groups s' = [(ce_socket ce, events_group gs)] \<and>
    os_sent s' = os_sent s @ [(ce_socket ce, getfamily_msg (g_seq s))] \<and> (ce_timeo ce \<longrightarrow> os_rcvtimeo s' = 0)"
  using connect_family [OF assms] assms(8) by (auto simp: attached_def resolve_sent_def)

theorem connect_joins_witness:
  "\<exists>s'. connect (sample_conn 0) loaded_client = Some (True, s') \<and> g_fd s' = 7 \<and> g_family_id s' = 28 \<and>
     os_groups s' = [(7, 5)] \<and> os_rcvtimeo s' = 0"
proof -
  have "g_fd loaded_client < 0" by (simp add: loaded_client_def client_init_def)
  from connect_joins [OF loaded_client_inv this sample_conn_ok, of 0 sample_reply 28 sample_groups]
  show ?thesis using sample_reply_ok by (auto simp: sample_conn_def)
qed

text \<open>
  The groups of a family as the controller lists them: numbered from 1, and with consecutive identifiers from
  the first one the core assigned when the family was registered (\<^verbatim>\<open>mcgrp_offset\<close>).
\<close>

definition family_groups :: "u32 \<Rightarrow> genl_family \<Rightarrow> mcast_group list" where
  "family_groups offset f =
     map (\<lambda>i. (of_nat (i + 1), ascii (fam_mcgrps f ! i), offset + of_nat i)) [0..<length (fam_mcgrps f)]"

definition module_reply :: bytes where
  "module_reply = (le32 72 @ le16 16 @ le16 0 @ le32 1 @ le32 0 @ [1, 2, 0, 0]) @
     tlvs [(2, ascii ''rekernel_x2'' @ [0]), (1, le16 28), (7, tlvs (map group_attr (family_groups 5 rkx_genl_family)))]"

lemma module_groups: "family_groups offset rkx_genl_family = [(1, ascii RKX_GENL_MCGRP_NAME, offset)]"
  by (simp add: family_groups_def rkx_genl_family_def rkx_genl_mcgrps_def)

lemma module_reply_ok: "family_reply 28 (family_groups 5 rkx_genl_family) module_reply" "length module_reply = 72"
proof -
  let ?gs = "family_groups 5 rkx_genl_family"
  let ?as = "[(2, ascii ''rekernel_x2'' @ [0]), (1, le16 28), (7, tlvs (map group_attr ?gs))]"
  let ?h = "le32 72 @ le16 16 @ le16 0 @ le32 1 @ le32 0 @ [1, 2, 0, 0 :: u8]"
  note defs = module_groups group_attr_def group_attrs_def RKX_GENL_MCGRP_NAME_def nla_total_size_def NLA_ALIGN_def NLA_HDRLEN_def
  show l: "length module_reply = 72" by (simp add: module_reply_def defs)
  have "attr_lookup ?as 1 = Some (1, le16 28)" "attr_lookup ?as 7 = Some (7, tlvs (map group_attr ?gs))"
    by (simp_all add: attr_lookup_def NLA_TYPE_MASK_def)
  moreover have "list_all group_ok ?gs" unfolding module_groups by code_simp
  moreover have "small ?as" by (simp add: small_def defs)
  moreover have "nlmsg_type ?h 0 = Some 16" "nlmsg_len ?h 0 = Some 72" by (simp_all add: nlmsg_type_def nlmsg_len_def load_def)
  ultimately show "family_reply 28 ?gs module_reply"
    unfolding family_reply_def l
    by (intro exI [of _ ?h] exI [of _ ?as] exI [of _ 16] exI [of _ 1] exI [of _ 7]) (simp add: module_reply_def NLMSG_ERROR_def)
qed

text \<open>
  C19: the client finds the module. If the system calls succeed and the controller answers with the family as
  the module registers it, connecting succeeds: the client has asked for the family by its registered name,
  its requests carry the number of the family, and it is a member of exactly the group to which
  \<^verbatim>\<open>rkx_send_message\<close> multicasts, on a socket that blocks again.
\<close>

theorem connect_joins_module:
  assumes "client_inv s" "g_fd s < 0" "conn_env_ok ce s"
    and "0 \<le> ce_socket ce" "0 \<le> ce_eventfd ce" "0 \<le> ce_bind ce" "0 \<le> ce_member ce" "ce_sendto ce 36 = 36"
    and "ce_recv ce = (int (length d), d)" "family_reply fid (family_groups offset rkx_genl_family) d" "fid \<noteq> 0" "offset \<noteq> 0"
  shows "\<exists>s'. connect ce s = Some (True, s') \<and> g_fd s' = ce_socket ce \<and> g_disconnect_fd s' = ce_eventfd ce \<and>
    g_family_id s' = fid \<and> os_groups s' = [(ce_socket ce, offset + of_nat event_mcgrp)] \<and>
    os_sent s' = os_sent s @ [(ce_socket ce, genl_msg GENL_ID_CTRL NLM_F_REQUEST (g_seq s) CTRL_CMD_GETFAMILY
      (tlvs [(CTRL_ATTR_FAMILY_NAME, ascii (fam_name rkx_genl_family) @ [0])]))] \<and>
    (ce_timeo ce \<longrightarrow> os_rcvtimeo s' = 0)"
proof -
  have g: "events_group (family_groups offset rkx_genl_family) = offset" by (simp add: module_groups)
  have n: "fam_name rkx_genl_family = RKX_GENL_FAMILY_NAME" by (simp add: rkx_genl_family_def)
  show ?thesis
    using connect_family [OF assms(1-11)] assms(8,12)
    by (auto simp: g n attached_def resolve_sent_def getfamily_msg_def event_mcgrp_def)
qed

theorem connect_joins_module_witness:
  "\<exists>s'. connect ((sample_conn 0)\<lparr>ce_recv := (72, module_reply)\<rparr>) loaded_client = Some (True, s') \<and> g_fd s' = 7 \<and>
     g_family_id s' = 28 \<and> os_groups s' = [(7, 5)] \<and> os_rcvtimeo s' = 0"
proof -
  let ?ce = "(sample_conn 0)\<lparr>ce_recv := (72, module_reply)\<rparr>"
  have "g_fd loaded_client < 0" by (simp add: loaded_client_def client_init_def)
  moreover have "conn_env_ok ?ce loaded_client"
    using module_reply_ok(2) by (simp add: conn_env_ok_def sample_conn_def loaded_client_def client_init_def recv_ok_def)
  ultimately show ?thesis
    using connect_joins_module [OF loaded_client_inv, of ?ce module_reply 28 5] module_reply_ok
    by (simp add: sample_conn_def event_mcgrp_def) blast
qed

end
