(* ===== verification/Rkx_Client_Req.thy ===== *)
theory Rkx_Client_Req
  imports Rkx_Client_Conn
begin

text \<open>
  The four requests of the client: each sends exactly the message of its arguments through a descriptor of
  its own that it closes again, and reports whether all of it was sent.
\<close>

section \<open>Requests send exactly their message\<close>

text \<open>\<open>built r msg\<close>: the builder has finished with the bytes \<open>msg\<close>.\<close>

definition built :: "(nat \<times> bytes) option \<Rightarrow> bytes \<Rightarrow> bool" where
  "built r msg \<longleftrightarrow> (\<exists>buf. r = Some (length msg, buf) \<and> length msg \<le> length buf \<and> take (length msg) buf = msg)"

definition request_msg :: "client \<Rightarrow> rkx_genl_cmd \<Rightarrow> (u16 \<times> bytes) list \<Rightarrow> bytes" where
  "request_msg s cmd as = genl_msg (g_family_id s) NLM_F_REQUEST (g_seq s) (cmd_code cmd) (tlvs as)"

lemma builder_started:
  assumes "length buf = cap" "20 \<le> cap"
  shows "\<exists>b0 b. nb_new buf cap = Some b0 \<and> putGenlHeader b0 fam seq cmd uapi_version = Some b \<and>
    nb_ok b (genl_header 0 fam NLM_F_REQUEST seq cmd) [] \<and> nb_cap b = cap"
  using nb_start [OF assms] by (simp add: uapi_version_def RKX_GENL_VERSION_def)

lemma builder_finished:
  assumes "nb_ok b (genl_header 0 (g_family_id s) NLM_F_REQUEST (g_seq s) (uapi_cmd cmd)) as"
  shows "built (nb_finish b) (request_msg s cmd as)"
  using nb_finish_correct [OF assms] assms
  by (auto simp: built_def request_msg_def uapi_cmd_eq nb_ok_def genl_msg_def)

lemma put4:
  assumes "nb_ok b h as" "r = nb_put b ty (le32 v) 4"
  shows "if nb_len b + 8 \<le> nb_cap b
    then \<exists>b'. r = Some (True, b') \<and> nb_ok b' h (as @ [(ty, le32 v)]) \<and> nb_cap b' = nb_cap b
    else r = Some (False, b)"
  using nb_put_correct [OF assms(1), of 4 "le32 v" ty] assms(2)
  by (simp add: nla_total_size_def NLA_ALIGN_def NLA_HDRLEN_def split: if_splits)

lemma put1:
  assumes "nb_ok b h as" "r = nb_put b ty [v] 1"
  shows "if nb_len b + 8 \<le> nb_cap b
    then \<exists>b'. r = Some (True, b') \<and> nb_ok b' h (as @ [(ty, [v])]) \<and> nb_cap b' = nb_cap b
    else r = Some (False, b)"
  using nb_put_correct [OF assms(1), of 1 "[v]" ty] assms(2)
  by (simp add: nla_total_size_def NLA_ALIGN_def NLA_HDRLEN_def split: if_splits)

lemma put_name:
  assumes "nb_ok b h as" "nb_cap b < 65529" "0 \<in> set s" "strlen s < 65528" "r = putString b ty s"
  shows "if nb_len b + nla_total_size (strlen s + 1) \<le> nb_cap b
    then \<exists>b'. r = Some (True, b') \<and> nb_ok b' h (as @ [(ty, cstr s @ [0])]) \<and> nb_cap b' = nb_cap b
    else r = Some (False, b)"
proof -
  have "take (strlen s + 1) s = cstr s @ [0]"
  proof -
    obtain a c where "s = a @ 0 # c" "0 \<notin> set a" using assms(3) by (auto dest: split_list_first)
    then show ?thesis by (simp add: strlen_def cstr_append_nul)
  qed
  moreover have "strlen s + 1 \<le> length s" "strlen s + 1 + 7 < 2 ^ 16"
    using strlen_lt [OF assms(3)] assms(4) by simp_all
  ultimately show ?thesis
    using nb_put_correct [OF assms(1), of "strlen s + 1" s ty] by (simp only: putString_def assms(5) True_implies_equals)
qed

text \<open>The shared end of a request.\<close>

definition request_sent :: "req_env \<Rightarrow> bytes \<Rightarrow> client \<Rightarrow> client" where
  "request_sent re msg s = s\<lparr>g_seq := g_seq s + 1,
     os_sent := os_sent s @ (if re_sendto re (length msg) < 0 then [] else [(re_socket re, msg)])\<rparr>"

lemma insert_remove_new: "x \<notin> A \<Longrightarrow> insert x A - {x} = A"
  by auto

lemma groups_kept:
  assumes inv: "client_inv s" "fd \<notin> os_fds s"
  shows "filter (\<lambda>(f, g). f \<noteq> fd) (os_groups s) = os_groups s"
proof (cases "g_fd s < 0")
  case True
  then show ?thesis using disconnected [OF inv(1)] by simp
next
  case False
  with inv have "map fst (os_groups s) = [g_fd s]" "fd \<noteq> g_fd s"
    by (auto simp: client_inv_def connection_inv_def)
  then show ?thesis by (auto simp: map_eq_Cons_conv)
qed

lemma release_string:
  "ReleaseStringUTFChars (next_seq (open_fd fd (GetStringUTFChars s))) = Some (next_seq (open_fd fd s))"
  "ReleaseStringUTFChars (GetStringUTFChars s) = Some s"
  by (simp_all add: ReleaseStringUTFChars_def next_seq_def open_fd_def GetStringUTFChars_def)

lemma send_close_eq:
  assumes inv: "client_inv s" "re_socket re \<notin> os_fds s" and m: "built (Some m) msg"
  shows "send_close re (re_socket re) m (next_seq (open_fd (re_socket re) s)) =
    Some (re_sendto re (length msg) = int (length msg), request_sent re msg s)"
proof -
  let ?fd = "re_socket re"
  have m': "fst m = length msg" "length msg \<le> length (snd m)" "take (length msg) (snd m) = msg"
    using m by (auto simp: built_def)
  let ?sent = "os_sent s @ (if re_sendto re (length msg) < 0 then [] else [(?fd, msg)])"
  let ?s1 = "(next_seq (open_fd ?fd s))\<lparr>os_sent := ?sent\<rparr>"
  have snd: "sendto (re_sendto re) ?fd (snd m) (fst m) (next_seq (open_fd ?fd s)) =
      Some (re_sendto re (length msg), ?s1)"
    by (subst sendto_fits) (simp_all add: m' open_fd_def next_seq_def)
  have "close_fd ?fd ?s1 = Some (request_sent re msg s)"
    by (simp add: close_fd_def open_fd_def next_seq_def request_sent_def insert_remove_new [OF inv(2)]
        groups_kept [OF inv])
  then show ?thesis by (simp only: send_close_def snd Option.bind_lunit prod.case) (simp only: m')
qed

definition monitor_attrs :: "s32 \<Rightarrow> (u16 \<times> bytes) list" where
  "monitor_attrs uid = [(attr_code RKX_A_UID, le32 uid)]"

text \<open>What the requests rely on: the new descriptor is not in use, and the message array has its size.\<close>

definition req_env_ok :: "nat \<Rightarrow> req_env \<Rightarrow> client \<Rightarrow> bool" where
  "req_env_ok cap re s \<longleftrightarrow> re_socket re \<notin> os_fds s \<and> length (re_buf re) = cap \<and>
     (\<forall>c. re_GetStringUTFChars re = Some c \<longrightarrow> 0 \<in> set c \<and> strlen c < 65528)"

lemma build_monitor:
  assumes "length buf = 128"
  shows "\<exists>b0 b b' m. nb_new buf 128 = Some b0 \<and>
      putGenlHeader b0 (g_family_id s) (g_seq s) (uapi_cmd cmd) uapi_version = Some b \<and>
      putU32 b (uapi_attr RKX_A_UID) uid = Some (True, b') \<and> nb_finish b' = Some m \<and>
      built (Some m) (request_msg s cmd (monitor_attrs uid))"
proof -
  obtain b0 b where b: "nb_new buf 128 = Some b0"
    "putGenlHeader b0 (g_family_id s) (g_seq s) (uapi_cmd cmd) uapi_version = Some b"
    "nb_ok b (genl_header 0 (g_family_id s) NLM_F_REQUEST (g_seq s) (uapi_cmd cmd)) []" "nb_cap b = 128"
    using builder_started [OF assms] by force
  then have "nb_len b + 8 \<le> nb_cap b" by (simp add: nb_ok_def)
  with put4 [OF b(3), of "putU32 b (uapi_attr RKX_A_UID) uid" "uapi_attr RKX_A_UID" uid] obtain b' where
    b': "putU32 b (uapi_attr RKX_A_UID) uid = Some (True, b')"
    "nb_ok b' (genl_header 0 (g_family_id s) NLM_F_REQUEST (g_seq s) (uapi_cmd cmd)) (monitor_attrs uid)"
    by (auto simp: putU32_def monitor_attrs_def uapi_attr_eq)
  obtain m where "nb_finish b' = Some m" "built (Some m) (request_msg s cmd (monitor_attrs uid))"
    using builder_finished [OF b'(2)] by (auto simp: built_def)
  with b(1,2) b'(1) show ?thesis by blast
qed

definition request_result ::
  "req_env \<Rightarrow> bytes \<Rightarrow> client \<Rightarrow> (bool \<times> client) option" where
  "request_result re msg s =
     (if not_connected s \<or> re_socket re < 0 then Some (False, s)
      else Some (re_sendto re (length msg) = int (length msg), request_sent re msg s))"

lemma addMonitorNet_eq:
  assumes "client_inv s" "req_env_ok 128 re s"
  shows "addMonitorNet uid re s =
    request_result re (request_msg s RKX_C_ADD_MONITOR_NET (monitor_attrs uid)) s"
proof -
  from assms(2) have env: "re_socket re \<notin> os_fds s" "length (re_buf re) = 128" by (simp_all add: req_env_ok_def)
  obtain b0 b b' m where st: "nb_new (re_buf re) 128 = Some b0"
    "putGenlHeader b0 (g_family_id s) (g_seq s) (uapi_cmd RKX_C_ADD_MONITOR_NET) uapi_version = Some b"
    "putU32 b (uapi_attr RKX_A_UID) uid = Some (True, b')" "nb_finish b' = Some m"
    and m: "built (Some m) (request_msg s RKX_C_ADD_MONITOR_NET (monitor_attrs uid))"
    using build_monitor [OF env(2)] by blast
  show ?thesis
    unfolding addMonitorNet_def request_result_def Let_def
    by (simp only: st Option.bind_lunit prod.case send_close_eq [OF assms(1) env(1) m] disj_not1 simp_thms split: if_split)
       blast
qed

lemma delMonitorNet_eq:
  assumes "client_inv s" "req_env_ok 128 re s"
  shows "delMonitorNet uid re s =
    request_result re (request_msg s RKX_C_DEL_MONITOR_NET (monitor_attrs uid)) s"
proof -
  from assms(2) have env: "re_socket re \<notin> os_fds s" "length (re_buf re) = 128" by (simp_all add: req_env_ok_def)
  obtain b0 b b' m where st: "nb_new (re_buf re) 128 = Some b0"
    "putGenlHeader b0 (g_family_id s) (g_seq s) (uapi_cmd RKX_C_DEL_MONITOR_NET) uapi_version = Some b"
    "putU32 b (uapi_attr RKX_A_UID) uid = Some (True, b')" "nb_finish b' = Some m"
    and m: "built (Some m) (request_msg s RKX_C_DEL_MONITOR_NET (monitor_attrs uid))"
    using build_monitor [OF env(2)] by blast
  show ?thesis
    unfolding delMonitorNet_def request_result_def Let_def
    by (simp only: st Option.bind_lunit prod.case send_close_eq [OF assms(1) env(1) m] disj_not1 simp_thms split: if_split)
       blast
qed

text \<open>The attributes of a rule request, and the outcome of its three (or two) puts.\<close>

definition rule_attrs_of :: "bytes \<Rightarrow> s32 \<Rightarrow> (u16 \<times> bytes) list" where
  "rule_attrs_of name code = [(attr_code RKX_A_FREE_ASYNC_RPC_NAME, cstr name @ [0]), (attr_code RKX_A_FREE_ASYNC_CODE, le32 code)]"

lemma put_rule:
  assumes ok: "nb_ok b h []" "nb_cap b = 256" and name: "0 \<in> set name" "strlen name < 65528"
  shows "if 28 + nla_total_size (strlen name + 1) \<le> 256
    then \<exists>b'. and_put (putString b (uapi_attr RKX_A_FREE_ASYNC_RPC_NAME) name)
        (\<lambda>b. putS32 b (uapi_attr RKX_A_FREE_ASYNC_CODE) code) = Some (True, b') \<and>
      nb_ok b' h (rule_attrs_of name code) \<and> nb_cap b' = 256
    else \<exists>b' as. and_put (putString b (uapi_attr RKX_A_FREE_ASYNC_RPC_NAME) name)
        (\<lambda>b. putS32 b (uapi_attr RKX_A_FREE_ASYNC_CODE) code) = Some (False, b') \<and> nb_ok b' h as"
proof -
  have len: "nb_len b = 20" using ok by (simp add: nb_ok_def)
  let ?T = "nla_total_size (strlen name + 1)"
  have "nb_cap b < 65529" using ok(2) by simp
  note p = put_name [OF ok(1) this name refl, of "uapi_attr RKX_A_FREE_ASYNC_RPC_NAME", unfolded len ok(2)]
  show ?thesis
  proof (cases "20 + ?T \<le> 256")
    case False
    then show ?thesis using p ok(1) by (auto simp: and_put_def)
  next
    case True
    then obtain b' where b': "putString b (uapi_attr RKX_A_FREE_ASYNC_RPC_NAME) name = Some (True, b')"
      "nb_ok b' h [(uapi_attr RKX_A_FREE_ASYNC_RPC_NAME, cstr name @ [0])]" "nb_cap b' = 256"
      using p by auto
    have len': "nb_len b' = 20 + ?T" using b'(2) by (simp add: nb_ok_def strlen_def)
    note q = put4 [OF b'(2) refl, of "uapi_attr RKX_A_FREE_ASYNC_CODE" code, unfolded len' b'(3), folded putS32_def]
    show ?thesis
      using q b' by (auto simp: and_put_def rule_attrs_of_def uapi_attr_eq add.assoc split: if_splits)
  qed
qed

lemma close_new:
  assumes "client_inv s" "fd \<notin> os_fds s"
  shows "close_fd fd (next_seq (open_fd fd s)) = Some (next_seq s)"
  by (simp add: close_fd_def open_fd_def next_seq_def insert_remove_new [OF assms(2)] groups_kept [OF assms])

lemma first_byte: "0 \<in> set name \<Longrightarrow> load8 name 0 = Some (name ! 0) \<and> (name ! 0 = 0 \<longleftrightarrow> strlen name = 0)"
  by (cases name) (auto simp: load8_def strlen_def cstr_def)

lemma finish_some:
  "nb_ok b (genl_header 0 (g_family_id s) NLM_F_REQUEST (g_seq s) cmd) as \<Longrightarrow> \<exists>m. nb_finish b = Some m"
  using nb_finish_correct by blast

definition rule_request_result ::
  "req_env \<Rightarrow> bool \<Rightarrow> s32 \<Rightarrow> bytes \<Rightarrow> nat \<Rightarrow> bytes \<Rightarrow> client \<Rightarrow> (bool \<times> client) option" where
  "rule_request_result re rpcName code name limit msg s =
     (if not_connected s \<or> \<not> rpcName \<or> sint code < -1 \<or> strlen name = 0 \<or> re_socket re < 0 then Some (False, s)
      else if strlen name + 1 \<le> limit
      then Some (re_sendto re (length msg) = int (length msg), request_sent re msg s)
      else Some (False, next_seq s))"

lemma total_size_le: "4 dvd k \<Longrightarrow> nla_total_size n \<le> k \<longleftrightarrow> 4 + n \<le> k"
  by (auto simp: nla_total_size_def NLA_ALIGN_def NLA_HDRLEN_def elim!: dvdE)

lemma name_fits: "28 + nla_total_size n \<le> 256 \<longleftrightarrow> n \<le> 224" "36 + nla_total_size n \<le> 256 \<longleftrightarrow> n \<le> 216"
  using total_size_le [of 228 n] total_size_le [of 220 n] by (simp_all add: dvd_def)

lemma and_put_step:
  "r = Some (True, b) \<Longrightarrow> and_put r f = f b" "r = Some (False, b) \<Longrightarrow> and_put r f = Some (False, b)"
  by (simp_all add: and_put_def)

lemma put_rule_strategy:
  fixes v :: u8 and code :: s32
  assumes ok: "nb_ok b h []" "nb_cap b = 256" and name: "0 \<in> set name" "strlen name < 65528"
  defines "puts \<equiv> and_put (and_put (putString b (uapi_attr RKX_A_FREE_ASYNC_RPC_NAME) name)
    (\<lambda>b. putS32 b (uapi_attr RKX_A_FREE_ASYNC_CODE) code))
    (\<lambda>b. putU8 b (uapi_attr RKX_A_FREE_ASYNC_STRATEGY) v)"
  shows "if strlen name + 1 \<le> 216
    then \<exists>b'. puts = Some (True, b') \<and>
      nb_ok b' h (rule_attrs_of name code @ [(attr_code RKX_A_FREE_ASYNC_STRATEGY, [v])])
    else \<exists>b' as. puts = Some (False, b') \<and> nb_ok b' h as"
proof -
  note p = put_rule [OF ok name, of code, unfolded name_fits]
  show ?thesis
  proof (cases "strlen name + 1 \<le> 224")
    case False
    with p obtain b' as where "and_put (putString b (uapi_attr RKX_A_FREE_ASYNC_RPC_NAME) name)
        (\<lambda>b. putS32 b (uapi_attr RKX_A_FREE_ASYNC_CODE) code) = Some (False, b')" "nb_ok b' h as" by auto
    then have "puts = Some (False, b')" unfolding puts_def by (simp only: and_put_step(2))
    with False \<open>nb_ok b' h as\<close> show ?thesis by auto
  next
    case True
    then obtain b' where b': "and_put (putString b (uapi_attr RKX_A_FREE_ASYNC_RPC_NAME) name)
        (\<lambda>b. putS32 b (uapi_attr RKX_A_FREE_ASYNC_CODE) code) = Some (True, b')"
      "nb_ok b' h (rule_attrs_of name code)" "nb_cap b' = 256"
      using p by auto
    have len: "nb_len b' + 8 = 36 + nla_total_size (strlen name + 1)"
      using b'(2) by (simp add: nb_ok_def rule_attrs_of_def strlen_def nla_total_size_def NLA_ALIGN_def NLA_HDRLEN_def)
    have e: "puts = putU8 b' (uapi_attr RKX_A_FREE_ASYNC_STRATEGY) v"
      unfolding puts_def by (rule and_put_step(1) [OF b'(1)])
    note q = put1 [OF b'(2) refl, of "uapi_attr RKX_A_FREE_ASYNC_STRATEGY" v,
        unfolded len b'(3) name_fits, folded putU8_def e]
    show ?thesis
      using q b'(2) unfolding uapi_attr_eq by (cases "strlen name + 1 \<le> 216") auto
  qed
qed

lemma addFreeAsync_eq:
  assumes inv: "client_inv s" and env: "req_env_ok 256 re s" and name: "re_GetStringUTFChars re = Some name"
  shows "addFreeAsync rpcName code strategy re s = rule_request_result re rpcName code name 216
    (request_msg s RKX_C_ADD_FREE_ASYNC
      (rule_attrs_of name code @ [(attr_code RKX_A_FREE_ASYNC_STRATEGY, [ucast strategy])])) s"
proof -
  from env have e: "re_socket re \<notin> os_fds s" "length (re_buf re) = 256" "0 \<in> set name" "strlen name < 65528"
    by (simp_all add: req_env_ok_def name)
  let ?h = "genl_header 0 (g_family_id s) NLM_F_REQUEST (g_seq s) (uapi_cmd RKX_C_ADD_FREE_ASYNC)"
  let ?as = "rule_attrs_of name code @ [(attr_code RKX_A_FREE_ASYNC_STRATEGY, [ucast strategy])]"
  obtain b0 b where b: "nb_new (re_buf re) 256 = Some b0"
    "putGenlHeader b0 (g_family_id s) (g_seq s) (uapi_cmd RKX_C_ADD_FREE_ASYNC) uapi_version = Some b"
    "nb_ok b ?h []" "nb_cap b = 256"
    using builder_started [OF e(2)] by force
  note p = put_rule_strategy [OF b(3,4) e(3,4), of code "ucast strategy"]
  note defs = addFreeAsync_def rule_request_result_def Let_def name option.case Option.bind_lunit
  have sq: "g_seq (GetStringUTFChars s) = g_seq s" by (simp add: GetStringUTFChars_def)
  show ?thesis
  proof (cases "not_connected s \<or> \<not> rpcName \<or> sint code < -1 \<or> strlen name = 0 \<or> re_socket re < 0")
    case True
    then show ?thesis using first_byte [OF e(3)] by (auto simp: defs release_string)
  next
    case False
    then have g: "\<not> not_connected s" "rpcName" "\<not> sint code < -1" "name ! 0 \<noteq> 0" "strlen name \<noteq> 0"
      "\<not> re_socket re < 0" "load8 name 0 = Some (name ! 0)"
      using first_byte [OF e(3)] by auto
    show ?thesis
    proof (cases "strlen name + 1 \<le> 216")
      case True
      with p obtain b' where b': "and_put (and_put (putString b (uapi_attr RKX_A_FREE_ASYNC_RPC_NAME) name)
          (\<lambda>b. putS32 b (uapi_attr RKX_A_FREE_ASYNC_CODE) code))
          (\<lambda>b. putU8 b (uapi_attr RKX_A_FREE_ASYNC_STRATEGY) (ucast strategy)) = Some (True, b')" "nb_ok b' ?h ?as"
        by auto
      from builder_finished [OF b'(2)] obtain m where m: "nb_finish b' = Some m"
        "built (Some m) (request_msg s RKX_C_ADD_FREE_ASYNC ?as)" by (auto simp: built_def)
      show ?thesis
        by (simp only: defs g b(1,2) b'(1) m(1) sq release_string prod.case send_close_eq [OF inv e(1) m(2)]
            True simp_thms if_True if_False)
    next
      case short: False
      with p obtain b' as where b': "and_put (and_put (putString b (uapi_attr RKX_A_FREE_ASYNC_RPC_NAME) name)
          (\<lambda>b. putS32 b (uapi_attr RKX_A_FREE_ASYNC_CODE) code))
          (\<lambda>b. putU8 b (uapi_attr RKX_A_FREE_ASYNC_STRATEGY) (ucast strategy)) = Some (False, b')" "nb_ok b' ?h as"
        by auto
      from finish_some [OF b'(2)] obtain m where m: "nb_finish b' = Some m" by blast
      show ?thesis
        by (simp only: defs g b(1,2) b'(1) m sq release_string prod.case close_new [OF inv e(1)] short
            simp_thms if_True if_False option.map)
    qed
  qed
qed

lemma delFreeAsync_eq:
  assumes inv: "client_inv s" and env: "req_env_ok 256 re s" and name: "re_GetStringUTFChars re = Some name"
  shows "delFreeAsync rpcName code re s = rule_request_result re rpcName code name 224
    (request_msg s RKX_C_DEL_FREE_ASYNC (rule_attrs_of name code)) s"
proof -
  from env have e: "re_socket re \<notin> os_fds s" "length (re_buf re) = 256" "0 \<in> set name" "strlen name < 65528"
    by (simp_all add: req_env_ok_def name)
  let ?h = "genl_header 0 (g_family_id s) NLM_F_REQUEST (g_seq s) (uapi_cmd RKX_C_DEL_FREE_ASYNC)"
  let ?puts = "\<lambda>b. and_put (putString b (uapi_attr RKX_A_FREE_ASYNC_RPC_NAME) name)
    (\<lambda>b. putS32 b (uapi_attr RKX_A_FREE_ASYNC_CODE) code)"
  obtain b0 b where b: "nb_new (re_buf re) 256 = Some b0"
    "putGenlHeader b0 (g_family_id s) (g_seq s) (uapi_cmd RKX_C_DEL_FREE_ASYNC) uapi_version = Some b"
    "nb_ok b ?h []" "nb_cap b = 256"
    using builder_started [OF e(2)] by force
  note p = put_rule [OF b(3,4) e(3,4), of code, unfolded name_fits]
  note defs = delFreeAsync_def rule_request_result_def Let_def name option.case Option.bind_lunit
  have sq: "g_seq (GetStringUTFChars s) = g_seq s" by (simp add: GetStringUTFChars_def)
  show ?thesis
  proof (cases "not_connected s \<or> \<not> rpcName \<or> sint code < -1 \<or> strlen name = 0 \<or> re_socket re < 0")
    case True
    then show ?thesis using first_byte [OF e(3)] by (auto simp: defs release_string)
  next
    case False
    then have g: "\<not> not_connected s" "rpcName" "\<not> sint code < -1" "name ! 0 \<noteq> 0" "strlen name \<noteq> 0"
      "\<not> re_socket re < 0" "load8 name 0 = Some (name ! 0)"
      using first_byte [OF e(3)] by auto
    show ?thesis
    proof (cases "strlen name + 1 \<le> 224")
      case True
      with p obtain b' where b': "?puts b = Some (True, b')" "nb_ok b' ?h (rule_attrs_of name code)" by auto
      from builder_finished [OF b'(2)] obtain m where m: "nb_finish b' = Some m"
        "built (Some m) (request_msg s RKX_C_DEL_FREE_ASYNC (rule_attrs_of name code))" by (auto simp: built_def)
      show ?thesis
        by (simp only: defs g b(1,2) b'(1) m(1) sq release_string prod.case send_close_eq [OF inv e(1) m(2)]
            True simp_thms if_True if_False)
    next
      case short: False
      with p obtain b' as where b': "?puts b = Some (False, b')" "nb_ok b' ?h as" by auto
      from finish_some [OF b'(2)] obtain m where m: "nb_finish b' = Some m" by blast
      show ?thesis
        by (simp only: defs g b(1,2) b'(1) m sq release_string prod.case close_new [OF inv e(1)] short
            simp_thms if_True if_False option.map)
    qed
  qed
qed

lemma rule_request_no_chars:
  "re_GetStringUTFChars re = None \<Longrightarrow>
     addFreeAsync rpcName code strategy re s = Some (False, s) \<and> delFreeAsync rpcName code re s = Some (False, s)"
  by (simp add: addFreeAsync_def delFreeAsync_def Let_def)

section \<open>The contract every request keeps\<close>

text \<open>
  A request changes the sequence number and the messages sent, and nothing else: at most one message, and
  exactly one if it reports success, which it does only when connected.
\<close>

definition request_effect :: "req_env \<Rightarrow> client \<Rightarrow> bool \<Rightarrow> client \<Rightarrow> bool" where
  "request_effect re s r s' \<longleftrightarrow>
     (\<exists>q m. s' = s\<lparr>g_seq := q, os_sent := os_sent s @ m\<rparr> \<and> length m \<le> 1 \<and>
        (r \<longrightarrow> \<not> not_connected s \<and> (\<exists>d. m = [(re_socket re, d)])))"

locale client_request =
  fixes req :: "req_env \<Rightarrow> client \<Rightarrow> (bool \<times> client) option" and cap :: nat
  assumes outcome: "client_inv s \<Longrightarrow> req_env_ok cap re s \<Longrightarrow>
    \<exists>r s'. req re s = Some (r, s') \<and> request_effect re s r s'"
begin

lemma keeps_inv:
  assumes "client_inv s" "req_env_ok cap re s" "req re s = Some (r, s')"
  shows "client_inv s'"
  using outcome [OF assms(1,2)] assms(1,3) by (auto simp: request_effect_def client_inv_def)

lemma returns: "client_inv s \<Longrightarrow> req_env_ok cap re s \<Longrightarrow> req re s \<noteq> None"
  using outcome by fastforce

lemma safe:
  "client_inv s \<Longrightarrow> req_env_ok cap re s \<Longrightarrow> \<exists>r s'. req re s = Some (r, s') \<and> request_effect re s r s' \<and> client_inv s'"
  using outcome keeps_inv by meson

lemma keeps_connection:
  assumes "client_inv s" "req_env_ok cap re s" "req re s = Some (r, s')"
  shows "os_fds s' = os_fds s \<and> g_fd s' = g_fd s \<and> os_groups s' = os_groups s \<and> jv_strings s' = jv_strings s"
  using outcome [OF assms(1,2)] assms(3) by (auto simp: request_effect_def)

end

lemma effect_none: "request_effect re s False s" "request_effect re s False (next_seq s)"
proof -
  show "request_effect re s False s"
    unfolding request_effect_def by (rule exI [of _ "g_seq s"], rule exI [of _ "[]"]) simp
  show "request_effect re s False (next_seq s)"
    unfolding request_effect_def next_seq_def by (rule exI [of _ "g_seq s + 1"], rule exI [of _ "[]"]) simp
qed

lemma effect_sent:
  assumes "\<not> not_connected s"
  shows "request_effect re s (re_sendto re (length msg) = int (length msg)) (request_sent re msg s)"
  unfolding request_effect_def request_sent_def
  by (rule exI [of _ "g_seq s + 1"],
      rule exI [of _ "if re_sendto re (length msg) < 0 then [] else [(re_socket re, msg)]"])
     (use assms in auto)

lemma request_result_effect: "\<exists>r s'. request_result re msg s = Some (r, s') \<and> request_effect re s r s'"
  unfolding request_result_def using effect_none(1) effect_sent by auto

lemma rule_request_effect:
  "\<exists>r s'. rule_request_result re rpcName code name limit msg s = Some (r, s') \<and> request_effect re s r s'"
  unfolding rule_request_result_def using effect_none effect_sent by auto

interpretation add_net: client_request "addMonitorNet uid" 128 for uid
  by unfold_locales (simp only: addMonitorNet_eq request_result_effect)

interpretation del_net: client_request "delMonitorNet uid" 128 for uid
  by unfold_locales (simp only: delMonitorNet_eq request_result_effect)

interpretation add_rule: client_request "addFreeAsync rpcName code strategy" 256 for rpcName code strategy
proof unfold_locales
  fix s re
  assume "client_inv s" "req_env_ok 256 re s"
  then show "\<exists>r s'. addFreeAsync rpcName code strategy re s = Some (r, s') \<and> request_effect re s r s'"
    using rule_request_effect effect_none(1) rule_request_no_chars addFreeAsync_eq
    by (cases "re_GetStringUTFChars re") auto
qed

interpretation del_rule: client_request "delFreeAsync rpcName code" 256 for rpcName code
proof unfold_locales
  fix s re
  assume "client_inv s" "req_env_ok 256 re s"
  then show "\<exists>r s'. delFreeAsync rpcName code re s = Some (r, s') \<and> request_effect re s r s'"
    using rule_request_effect effect_none(1) rule_request_no_chars delFreeAsync_eq
    by (cases "re_GetStringUTFChars re") auto
qed

section \<open>Properties\<close>

definition connected_client :: client where
  "connected_client = loaded_client\<lparr>g_fd := 7, g_disconnect_fd := 8, g_family_id := 28, g_seq := 2,
     os_fds := {7, 8}, os_groups := [(7, 5)]\<rparr>"

lemma connected_client_inv: "client_inv connected_client" "\<not> not_connected connected_client"
  by (simp_all add: connected_client_def loaded_client_def client_init_def client_inv_def connection_inv_def
      java_inv_def not_connected_def)

definition sample_req :: "nat \<Rightarrow> bytes option \<Rightarrow> req_env" where
  "sample_req cap name = \<lparr>re_socket = 9, re_buf = replicate cap 255, re_sendto = int, re_GetStringUTFChars = name\<rparr>"

lemma sample_req_ok:
  "0 \<notin> set name \<Longrightarrow> length name < 1000 \<Longrightarrow> req_env_ok cap (sample_req cap (Some (name @ [0]))) connected_client"
  "req_env_ok cap (sample_req cap None) connected_client"
  by (simp_all add: req_env_ok_def sample_req_def connected_client_def loaded_client_def client_init_def
      strlen_def cstr_append_nul)

text \<open>
  C24: the contract of the four requests. From any state of the client, for a name below 65528 bytes, with any contents of the message array
  and any results of the system calls, each of them returns without writing outside the array and without
  closing a descriptor twice, and changes nothing but the sequence number and the messages sent: its
  descriptor is closed and its string released on every path. It sends at most one message, reports
  success only if it sent one, and only when the client is connected.
\<close>

theorem requests_contract:
  assumes "client_inv s"
  shows "(req_env_ok 128 re s \<longrightarrow>
      (\<exists>r s'. addMonitorNet uid re s = Some (r, s') \<and> request_effect re s r s' \<and> client_inv s') \<and>
      (\<exists>r s'. delMonitorNet uid re s = Some (r, s') \<and> request_effect re s r s' \<and> client_inv s')) \<and>
    (req_env_ok 256 re s \<longrightarrow>
      (\<exists>r s'. addFreeAsync rpcName code strategy re s = Some (r, s') \<and> request_effect re s r s' \<and> client_inv s') \<and>
      (\<exists>r s'. delFreeAsync rpcName code re s = Some (r, s') \<and> request_effect re s r s' \<and> client_inv s'))"
  using add_net.safe [OF assms] del_net.safe [OF assms] add_rule.safe [OF assms] del_rule.safe [OF assms] by blast

theorem requests_contract_witness:
  "\<exists>r s'. addMonitorNet 10086 (sample_req 128 None) connected_client = Some (r, s') \<and>
     request_effect (sample_req 128 None) connected_client r s'"
  using requests_contract [OF connected_client_inv(1), of "sample_req 128 None" 10086 True 0 0] sample_req_ok(2) by blast

text \<open>
  A request for a rule, on every branch. It is refused, without using the network, when the client is not
  connected, the name is null or empty, the code is below -1 or no socket is available. Otherwise a
  name of at most 215 bytes (223 to remove a rule) is sent, with the code and the low byte of the
  strategy, in a message that is exactly the encoding of these attributes, and the result is whether all of
  it was sent; a longer name is refused and only uses up a sequence number.
\<close>

theorem rule_request_branches:
  assumes "client_inv s" "req_env_ok 256 re s" "re_GetStringUTFChars re = Some name"
  shows "addFreeAsync rpcName code strategy re s =
     (if not_connected s \<or> \<not> rpcName \<or> sint code < -1 \<or> strlen name = 0 \<or> re_socket re < 0 then Some (False, s)
      else if 215 < strlen name then Some (False, next_seq s)
      else let msg = request_msg s RKX_C_ADD_FREE_ASYNC
             [(attr_code RKX_A_FREE_ASYNC_RPC_NAME, cstr name @ [0]), (attr_code RKX_A_FREE_ASYNC_CODE, le32 code),
              (attr_code RKX_A_FREE_ASYNC_STRATEGY, [ucast strategy])]
           in Some (re_sendto re (length msg) = int (length msg), request_sent re msg s)) \<and>
    delFreeAsync rpcName code re s =
     (if not_connected s \<or> \<not> rpcName \<or> sint code < -1 \<or> strlen name = 0 \<or> re_socket re < 0 then Some (False, s)
      else if 223 < strlen name then Some (False, next_seq s)
      else let msg = request_msg s RKX_C_DEL_FREE_ASYNC
             [(attr_code RKX_A_FREE_ASYNC_RPC_NAME, cstr name @ [0]), (attr_code RKX_A_FREE_ASYNC_CODE, le32 code)]
           in Some (re_sendto re (length msg) = int (length msg), request_sent re msg s))"
  unfolding addFreeAsync_eq [OF assms] delFreeAsync_eq [OF assms] rule_request_result_def rule_attrs_of_def Let_def
  by auto

theorem rule_request_branches_witness:
  "addFreeAsync True 3 1 (sample_req 256 (Some (replicate 300 65 @ [0]))) connected_client =
     Some (False, next_seq connected_client) \<and>
   delFreeAsync True (-2) (sample_req 256 (Some (replicate 300 65 @ [0]))) connected_client = Some (False, connected_client)"
proof -
  let ?re = "sample_req 256 (Some (replicate 300 65 @ [0 :: u8]))"
  have l: "strlen (replicate 300 65 @ [0 :: u8]) = 300" by (simp add: strlen_def cstr_append_nul)
  have re: "re_socket ?re = 9" "re_GetStringUTFChars ?re = Some (replicate 300 65 @ [0])" by (simp_all add: sample_req_def)
  have ok: "req_env_ok 256 ?re connected_client" by (rule sample_req_ok) simp_all
  show ?thesis
    using rule_request_branches [OF connected_client_inv(1) ok re(2), of True 3 1]
      rule_request_branches [OF connected_client_inv(1) ok re(2), of True "-2" 1]
    by (simp add: l re(1) connected_client_inv(2))
qed

end
