(* ===== verification/Rkx_Client_Safety.thy ===== *)
theory Rkx_Client_Safety
  imports Rkx_Client_Req
begin

text \<open>
  The client under every interleaving of its threads: the application's calls (connect, disconnect, callback,
  requests) and the rounds of the poll loop. No descriptor and no reference is used after it was released, or
  leaked, and every event that arrives before the disconnection reaches the callback.
\<close>

section \<open>One operation at a time\<close>

lemma disconnect_inv: "client_inv s \<Longrightarrow> \<exists>s'. disconnect s = Some s' \<and> client_inv s'"
  by (auto simp: disconnect_def client_inv_def) (auto simp: connection_inv_def split: if_splits)

lemma cleanup_inv:
  assumes "client_inv s"
  shows "\<exists>s'. poll_cleanup s = Some s' \<and> client_inv s' \<and> os_fds s' = {} \<and> g_fd s' = -1 \<and> jv_env s' = jv_env s"
proof (cases "g_fd s < 0")
  case True
  then show ?thesis
    using disconnected [OF assms True] assms by (simp add: poll_cleanup_def Let_def client_inv_def connection_inv_def)
next
  case False
  then have c: "0 \<le> g_disconnect_fd s" "g_disconnect_fd s \<noteq> g_fd s" "os_fds s = {g_fd s, g_disconnect_fd s}"
    "map fst (os_groups s) = [g_fd s]" and j: "java_inv s"
    using assms by (auto simp: client_inv_def connection_inv_def)
  have g: "filter (\<lambda>(f, g). f \<noteq> g_disconnect_fd s) (filter (\<lambda>(f, g). f \<noteq> g_fd s) (os_groups s)) = []"
    using c(4) by (auto simp: map_eq_Cons_conv)
  have d: "{g_fd s, g_disconnect_fd s} - {g_fd s} - {g_disconnect_fd s} = {}" by auto
  have "poll_cleanup s = Some (s\<lparr>g_fd := -1, g_disconnect_fd := -1, g_family_id := 0, os_fds := {}, os_groups := []\<rparr>)"
    using False c(1,2) by (simp add: poll_cleanup_def close_fd_def c(3) d g del: filter_filter)
  then show ?thesis using j by (simp add: client_inv_def connection_inv_def)
qed

lemma setCallback_inv:
  assumes "client_inv s" "\<And>r. ref = Some r \<Longrightarrow> r \<notin> jv_globals s"
  shows "\<exists>s'. setCallback is_instance ref callback s = Some s' \<and> client_inv s' \<and>
    g_callback s' = (if callback \<and> \<not> is_instance then g_callback s else if callback then ref else None)"
proof -
  obtain c where c: "g_cbClass s = Some c" using assms(1) by (auto simp: client_inv_def java_inv_def)
  show ?thesis
    using assms c
    by (cases "callback \<and> \<not> is_instance"; cases callback; cases ref; cases "g_callback s")
       (auto simp: setCallback_def new_global_def DeleteGlobalRef_def Let_def client_inv_def java_inv_def)
qed

text \<open>
  What a round may receive: at most the size of the array, and messages padded to four bytes; and if the
  callback may throw, messages with one payload.
\<close>

definition datagram_shape :: "jni_env \<Rightarrow> bytes \<Rightarrow> nat list \<Rightarrow> bool" where
  "datagram_shape env d ns \<longleftrightarrow> framed d 0 ns \<and> sum_list ns = length d \<and> (silent env \<or> lone_payloads d 0 ns)"

definition poll_input_ok :: "jni_env \<Rightarrow> poll_input \<Rightarrow> bool" where
  "poll_input_ok env i \<longleftrightarrow> recv_ok 8192 (pi_recv i) \<and>
     (0 < fst (pi_recv i) \<longrightarrow> (\<exists>ns. datagram_shape env (snd (pi_recv i)) ns))"

lemma datagram_shape_append:
  assumes "datagram_shape env d ns"
  shows "framed (d @ x) 0 ns" "silent env \<or> lone_payloads (d @ x) 0 ns"
  using assms by (auto simp: datagram_shape_def framed_append lone_payloads_append)

lemma wire_shape:
  "list_all event_wf evs \<Longrightarrow> \<exists>ns. datagram_shape env (wire fam evs) ns"
  using wire_framed [of evs "wire fam evs" "[]" fam "[]"]
  by (intro exI [of _ "map (\<lambda>ev. length (event_msg fam ev)) evs"])
     (auto simp: datagram_shape_def wire_def length_concat comp_def)

lemma recv_into_length: "recv_ok (length buf) r \<Longrightarrow> length (recv_into buf r) = length buf"
  by (auto simp: recv_into_def recv_ok_def)

fun next_ok :: "client \<Rightarrow> poll_next \<Rightarrow> bool" where
  "next_ok s (Again rbuf s') \<longleftrightarrow> client_inv s' \<and> length rbuf = 8192 \<and> g_fd s' = g_fd s"
| "next_ok s (Leave s') \<longleftrightarrow> client_inv s' \<and> g_fd s' = g_fd s"

lemma connected_fds:
  "client_inv s \<Longrightarrow> 0 \<le> g_fd s \<Longrightarrow> 0 \<le> g_disconnect_fd s \<and> g_fd s \<in> os_fds s \<and> g_disconnect_fd s \<in> os_fds s"
  by (simp add: client_inv_def connection_inv_def)

lemma callback_global: "client_inv s \<Longrightarrow> set_option (g_callback s) \<subseteq> jv_globals s"
  by (auto simp: client_inv_def java_inv_def)

lemma poll_round_inv:
  assumes inv: "client_inv s" and env: "strings_ok env" "poll_input_ok env i" "length rbuf = 8192"
  shows "\<exists>r. poll_round env i rbuf s = Some r \<and> next_ok s r"
proof (cases "g_fd s < 0")
  case True
  then show ?thesis using inv by (simp add: poll_round_def)
next
  case False
  then have fds: "0 \<le> g_disconnect_fd s" "g_fd s \<in> os_fds s" "g_disconnect_fd s \<in> os_fds s"
    using connected_fds [OF inv] by auto
  let ?buf = "recv_into rbuf (pi_recv i)"
  have l: "length ?buf = 8192" using env(2,3) recv_into_length [of rbuf "pi_recv i"] by (simp add: poll_input_ok_def)
  have j: "\<not> jn_exception (jv_env s)" "jn_locals (jv_env s) = 0" using inv by (auto simp: client_inv_def java_inv_def)
  note defs = poll_round_def Let_def callback_global [OF inv]
  show ?thesis
  proof (cases "0 \<le> pi_poll i \<and> \<not> pi_disconnect i \<and> pi_readable i \<and> 0 < fst (pi_recv i) \<and>
      g_callback s \<noteq> None \<and> pi_NewLocalRef i")
    case False
    then show ?thesis
      using \<open>\<not> g_fd s < 0\<close> fds inv env(3) l by (auto simp: defs client_inv_def)
  next
    case True
    then obtain ns where ns: "datagram_shape env (snd (pi_recv i)) ns" "sum_list ns = length (snd (pi_recv i))"
      "fst (pi_recv i) = int (length (snd (pi_recv i)))" "length (snd (pi_recv i)) \<le> 8192"
      using env(2) by (auto simp: poll_input_ok_def recv_ok_def datagram_shape_def)
    have "framed ?buf 0 ns" "silent env \<or> lone_payloads ?buf 0 ns"
      using True datagram_shape_append [OF ns(1)] by (simp_all add: recv_into_def)
    moreover have w: "word_of_int (fst (pi_recv i)) = (of_nat (sum_list ns) :: s32)" by (simp add: ns(2,3))
    ultimately obtain j' where j': "nlmsg_loop env (g_family_id s) ?buf 0 (of_nat (sum_list ns))
        ((jv_env s)\<lparr>jn_locals := jn_locals (jv_env s) + 1\<rparr>) = Some j'"
      "settled ((jv_env s)\<lparr>jn_locals := jn_locals (jv_env s) + 1\<rparr>) j'"
      using nlmsg_loop_in [OF env(1), of ?buf 0 ns "(jv_env s)\<lparr>jn_locals := jn_locals (jv_env s) + 1\<rparr>" "g_family_id s"]
        ns(2,4) l j(1) by auto
    have "DeleteLocalRef j' = Some (j'\<lparr>jn_locals := 0\<rparr>)"
      using j'(2) j(2) by (simp add: settled_def kept_def DeleteLocalRef_def)
    then have "poll_round env i rbuf s = Some (Again ?buf (s\<lparr>jv_env := j'\<lparr>jn_locals := 0\<rparr>\<rparr>))"
      using True \<open>\<not> g_fd s < 0\<close> fds j'(1) by (simp add: defs w)
    moreover have "client_inv (s\<lparr>jv_env := j'\<lparr>jn_locals := 0\<rparr>\<rparr>)"
      using inv j'(2) by (simp add: client_inv_def java_inv_def settled_def)
    ultimately show ?thesis using l by simp
  qed
qed

section \<open>All interleavings\<close>

datatype request = Add_net s32 | Del_net s32 | Add_rule bool s32 s32 | Del_rule bool s32

fun run_request :: "request \<Rightarrow> req_env \<Rightarrow> client \<Rightarrow> (bool \<times> client) option" where
  "run_request (Add_net uid) = addMonitorNet uid"
| "run_request (Del_net uid) = delMonitorNet uid"
| "run_request (Add_rule rpcName code strategy) = addFreeAsync rpcName code strategy"
| "run_request (Del_rule rpcName code) = delFreeAsync rpcName code"

fun request_cap :: "request \<Rightarrow> nat" where
  "request_cap (Add_net uid) = 128"
| "request_cap (Del_net uid) = 128"
| "request_cap (Add_rule rpcName code strategy) = 256"
| "request_cap (Del_rule rpcName code) = 256"

lemma run_request_inv:
  assumes "client_inv s" "req_env_ok (request_cap q) re s"
  shows "\<exists>r s'. run_request q re s = Some (r, s') \<and> client_inv s'"
  using assms add_net.safe del_net.safe add_rule.safe del_rule.safe by (cases q) fastforce+

text \<open>Where the thread in \<^verbatim>\<open>pollEvent\<close> is: outside, in the loop with its array, or before its cleanup.\<close>

datatype poll_pc = Idle | Polling bytes | Leaving

definition fresh_ref :: "nat option \<Rightarrow> client \<Rightarrow> bool" where
  "fresh_ref ref s \<longleftrightarrow> (\<forall>r. ref = Some r \<longrightarrow> r \<notin> jv_globals s)"

inductive client_step :: "jni_env \<Rightarrow> client \<times> poll_pc \<Rightarrow> client \<times> poll_pc \<Rightarrow> bool" for env where
  st_connect: "conn_env_ok ce s \<Longrightarrow> connect ce s = Some (r, s') \<Longrightarrow> client_step env (s, pc) (s', pc)"
| st_callback: "fresh_ref ref s \<Longrightarrow> setCallback is_instance ref callback s = Some s' \<Longrightarrow>
    client_step env (s, pc) (s', pc)"
| st_disconnect: "disconnect s = Some s' \<Longrightarrow> client_step env (s, pc) (s', pc)"
| st_request: "req_env_ok (request_cap q) re s \<Longrightarrow> run_request q re s = Some (r, s') \<Longrightarrow>
    client_step env (s, pc) (s', pc)"
| st_enter: "length rbuf = 8192 \<Longrightarrow> client_step env (s, Idle) (s, Polling rbuf)"
| st_again: "poll_input_ok env i \<Longrightarrow> poll_round env i rbuf s = Some (Again rbuf' s') \<Longrightarrow>
    client_step env (s, Polling rbuf) (s', Polling rbuf')"
| st_leave: "poll_input_ok env i \<Longrightarrow> poll_round env i rbuf s = Some (Leave s') \<Longrightarrow>
    client_step env (s, Polling rbuf) (s', Leaving)"
| st_exit: "poll_cleanup s = Some s' \<Longrightarrow> client_step env (s, Leaving) (s', Idle)"

text \<open>The states after the library was loaded.\<close>

inductive client_reachable :: "jni_env \<Rightarrow> client \<times> poll_pc \<Rightarrow> bool" for env where
  loaded: "JNI_OnLoad le client_init = Some (JNI_VERSION_1_6, s) \<Longrightarrow> client_reachable env (s, Idle)"
| step: "client_reachable env st \<Longrightarrow> client_step env st st' \<Longrightarrow> client_reachable env st'"

fun pc_ok :: "poll_pc \<Rightarrow> bool" where
  "pc_ok (Polling rbuf) \<longleftrightarrow> length rbuf = 8192"
| "pc_ok _ \<longleftrightarrow> True"

definition system_inv :: "client \<times> poll_pc \<Rightarrow> bool" where
  "system_inv st \<longleftrightarrow> client_inv (fst st) \<and> pc_ok (snd st)"

lemma onload_inv: "JNI_OnLoad le client_init = Some (JNI_VERSION_1_6, s) \<Longrightarrow> client_inv s"
  by (cases "le_NewGlobalRef le")
     (auto simp: JNI_OnLoad_def Let_def JNI_ERR_def JNI_VERSION_1_6_def new_global_def client_init_def client_inv_def
       connection_inv_def java_inv_def split: if_splits)

lemma client_step_inv:
  assumes "client_step env st st'" "strings_ok env" "system_inv st"
  shows "system_inv st'"
  using assms
proof (induction rule: client_step.induct)
  case (st_connect ce s r s' pc)
  then show ?case using connect_inv [of s ce] by (auto simp: system_inv_def)
next
  case (st_callback ref s is_instance callback s' pc)
  then show ?case using setCallback_inv [of s ref is_instance callback] by (auto simp: system_inv_def fresh_ref_def)
next
  case (st_disconnect s s' pc)
  then show ?case using disconnect_inv [of s] by (auto simp: system_inv_def)
next
  case (st_request q re s r s' pc)
  then show ?case using run_request_inv [of s q re] by (auto simp: system_inv_def)
next
  case (st_again i rbuf s rbuf' s')
  then show ?case using poll_round_inv [of s env i rbuf] by (auto simp: system_inv_def)
next
  case (st_leave i rbuf s s')
  then show ?case using poll_round_inv [of s env i rbuf] by (auto simp: system_inv_def)
next
  case (st_exit s s')
  then show ?case using cleanup_inv [of s] by (auto simp: system_inv_def)
qed (simp add: system_inv_def)

lemma reachable_inv: "client_reachable env st \<Longrightarrow> strings_ok env \<Longrightarrow> system_inv st"
proof (induction rule: client_reachable.induct)
  case (loaded le s)
  then show ?case by (simp add: system_inv_def onload_inv)
next
  case (step st st')
  then show ?case by (blast intro: client_step_inv)
qed

section \<open>Properties\<close>

text \<open>
  No use after release and no leak, under every interleaving of whole calls. In every state the application's threads and
  one polling thread can reach together after the library was loaded, with strings that can be created,
  datagrams of padded messages with one payload each (or a callback that does not throw), replies of at most
  4089 bytes and names below 65528 bytes, each call and each round of the poll loop being one step: the open descriptors are exactly the two of the connection, or none; the global
  references are exactly the class and the callback; no string is held and no exception pending. And
  whatever is called next, connecting, disconnecting, changing the callback, a request, a round of the poll
  loop or its cleanup, it returns without an access to something that was released.
\<close>

theorem client_interleaving_safe:
  assumes "strings_ok env" "client_reachable env (s, pc)"
  shows "os_fds s = (if g_fd s < 0 then {} else {g_fd s, g_disconnect_fd s}) \<and>
    jv_globals s = set_option (g_cbClass s) \<union> set_option (g_callback s) \<and>
    jv_strings s = 0 \<and> \<not> jn_exception (jv_env s) \<and> jn_locals (jv_env s) = 0 \<and>
    (\<forall>ce. conn_env_ok ce s \<longrightarrow> connect ce s \<noteq> None) \<and> disconnect s \<noteq> None \<and> poll_cleanup s \<noteq> None \<and>
    (\<forall>ref b c. fresh_ref ref s \<longrightarrow> setCallback b ref c s \<noteq> None) \<and>
    (\<forall>q re. req_env_ok (request_cap q) re s \<longrightarrow> run_request q re s \<noteq> None) \<and>
    (\<forall>i rbuf. poll_input_ok env i \<longrightarrow> length rbuf = 8192 \<longrightarrow> poll_round env i rbuf s \<noteq> None)"
proof -
  have inv: "client_inv s" using reachable_inv [OF assms(2,1)] by (simp add: system_inv_def)
  have fds: "os_fds s = (if g_fd s < 0 then {} else {g_fd s, g_disconnect_fd s})"
    and j: "jv_globals s = set_option (g_cbClass s) \<union> set_option (g_callback s)" "jv_strings s = 0"
      "\<not> jn_exception (jv_env s)" "jn_locals (jv_env s) = 0"
    using inv by (auto simp: client_inv_def connection_inv_def java_inv_def)
  have "conn_env_ok ce s \<Longrightarrow> connect ce s \<noteq> None" for ce using connect_inv [OF inv, of ce] by auto
  moreover have "disconnect s \<noteq> None" using disconnect_inv [OF inv] by auto
  moreover have "poll_cleanup s \<noteq> None" using cleanup_inv [OF inv] by auto
  moreover have "fresh_ref ref s \<Longrightarrow> setCallback b ref c s \<noteq> None" for ref b c
    using setCallback_inv [OF inv, of ref b c] by (auto simp: fresh_ref_def)
  moreover have "req_env_ok (request_cap q) re s \<Longrightarrow> run_request q re s \<noteq> None" for q re
    using run_request_inv [OF inv, of q re] by auto
  moreover have "poll_input_ok env i \<Longrightarrow> length rbuf = 8192 \<Longrightarrow> poll_round env i rbuf s \<noteq> None" for i rbuf
    using poll_round_inv [OF inv assms(1), of i rbuf] by auto
  ultimately show ?thesis using fds j by blast
qed

text \<open>The library is loaded, the client connects, a thread starts polling, and a callback is set.\<close>

definition sample_load :: load_env where
  "sample_load = \<lparr>le_GetEnv = True, le_FindClass = True, le_NewGlobalRef = Some 1, le_binder = True, le_signal = True,
     le_network = True\<rparr>"

lemma sample_strings: "strings_ok sample_jni_env"
  by (simp add: strings_ok_def sample_jni_env_def)

theorem client_interleaving_safe_witness:
  "\<exists>s rbuf. client_reachable sample_jni_env (s, Polling rbuf) \<and> g_callback s = Some 2 \<and>
     jv_globals s = {1, 2} \<and> poll_cleanup s \<noteq> None"
proof -
  have "JNI_OnLoad sample_load client_init = Some (JNI_VERSION_1_6, loaded_client)"
    by (simp add: JNI_OnLoad_def sample_load_def loaded_client_def client_init_def new_global_def Let_def)
  then have r0: "client_reachable sample_jni_env (loaded_client, Idle)" by (rule loaded)
  have "length (replicate 8192 (0 :: u8)) = 8192" by simp
  from step [OF r0 st_enter [OF this]] have r1: "client_reachable sample_jni_env (loaded_client, Polling (replicate 8192 0))" .
  let ?s = "loaded_client\<lparr>jv_globals := {2, 1}, g_callback := Some 2\<rparr>"
  have "fresh_ref (Some 2) loaded_client" "setCallback True (Some 2) True loaded_client = Some ?s"
    by (simp_all add: fresh_ref_def setCallback_def loaded_client_def client_init_def new_global_def Let_def)
  from step [OF r1 st_callback [OF this]] have r2: "client_reachable sample_jni_env (?s, Polling (replicate 8192 0))" .
  have "jv_globals ?s = {1, 2}" by auto
  with r2 client_interleaving_safe [OF sample_strings r2] show ?thesis by (intro exI [of _ ?s]) auto
qed

text \<open>A round that receives a datagram with some events of the module.\<close>

definition datagram :: "u16 \<Rightarrow> rkx_event list \<Rightarrow> poll_input" where
  "datagram fam evs = \<lparr>pi_poll = 1, pi_disconnect = False, pi_readable = True,
     pi_recv = (int (length (wire fam evs)), wire fam evs), pi_NewLocalRef = True\<rparr>"

definition datagram_ok :: "u16 \<Rightarrow> rkx_event list \<Rightarrow> bool" where
  "datagram_ok fam evs \<longleftrightarrow> evs \<noteq> [] \<and> list_all event_wf evs \<and> length (wire fam evs) \<le> 8192"

lemma poll_datagram:
  assumes inv: "client_inv s" "0 \<le> g_fd s" "g_callback s \<noteq> None" "16 \<le> g_family_id s"
    and env: "strings_ok env" "datagram_ok (g_family_id s) evs"
  shows "poll_round env (datagram (g_family_id s) evs) rbuf s =
    Some (Again (wire (g_family_id s) evs @ drop (length (wire (g_family_id s) evs)) rbuf)
      (s\<lparr>jv_env := delivered evs (jv_env s)\<rparr>))"
proof -
  let ?w = "wire (g_family_id s) evs" and ?j = "(jv_env s)\<lparr>jn_locals := jn_locals (jv_env s) + 1\<rparr>"
  have j: "\<not> jn_exception ?j" using inv(1) by (simp add: client_inv_def java_inv_def)
  have w: "0 < length ?w" "length ?w < 2 ^ 31" "list_all event_wf evs"
    using env(2) by (cases evs; simp add: datagram_ok_def wire_def)+
  have "nlmsg_loop env (g_family_id s) (?w @ drop (length ?w) rbuf) 0 (of_nat (length ?w)) ?j = Some (delivered evs ?j)"
    using nlmsg_loop_events [OF inv(4) env(1), of "?w @ drop (length ?w) rbuf" "[]" evs _ ?j] w j by simp
  moreover have "DeleteLocalRef (delivered evs ?j) = Some (delivered evs (jv_env s))"
    by (simp add: DeleteLocalRef_def delivered_def)
  ultimately show ?thesis
    using connected_fds [OF inv(1,2)] inv(2,3) w(1) callback_global [OF inv(1)]
    by (simp add: poll_round_def datagram_def recv_into_def Let_def)
qed

lemma poll_datagrams:
  "client_inv s \<Longrightarrow> 0 \<le> g_fd s \<Longrightarrow> g_callback s \<noteq> None \<Longrightarrow> 16 \<le> g_family_id s \<Longrightarrow> strings_ok env \<Longrightarrow>
     list_all (datagram_ok (g_family_id s)) evss \<Longrightarrow>
     \<exists>rbuf'. pollEvent env (map (datagram (g_family_id s)) evss @ is) rbuf s =
       pollEvent env is rbuf' (s\<lparr>jv_env := delivered (concat evss) (jv_env s)\<rparr>)"
proof (induction evss arbitrary: rbuf s)
  case Nil
  then have "delivered [] (jv_env s) = jv_env s" by (simp add: delivered_def client_inv_def java_inv_def)
  then show ?case by auto
next
  case (Cons evs evss)
  let ?s = "s\<lparr>jv_env := delivered evs (jv_env s)\<rparr>"
  have inv: "client_inv ?s" using Cons.prems(1) by (simp add: client_inv_def java_inv_def delivered_def)
  have r: "poll_round env (datagram (g_family_id s) evs) rbuf s =
      Some (Again (wire (g_family_id s) evs @ drop (length (wire (g_family_id s) evs)) rbuf) ?s)"
    using poll_datagram [OF Cons.prems(1-5)] Cons.prems(6) by simp
  have d: "delivered (concat evss) (delivered evs (jv_env s)) = delivered (concat (evs # evss)) (jv_env s)"
    by (simp add: delivered_def)
  from Cons.IH [OF inv, of "wire (g_family_id s) evs @ drop (length (wire (g_family_id s) evs)) rbuf"] Cons.prems
  obtain rbuf' where "pollEvent env (map (datagram (g_family_id s)) evss @ is)
      (wire (g_family_id s) evs @ drop (length (wire (g_family_id s) evs)) rbuf) ?s =
      pollEvent env is rbuf' (?s\<lparr>jv_env := delivered (concat evss) (jv_env ?s)\<rparr>)" by auto
  then show ?case by (simp add: r d del: concat.simps) blast
qed

text \<open>
  C10: the poll loop delivers every event and then ends. With a callback set, the events of all datagrams that
  arrive before the eventfd becomes readable are passed to the callback, one call each and in order, also if
  the callback throws; then \<^verbatim>\<open>pollEvent\<close> returns, with both descriptors closed and the library
  disconnected.
\<close>

theorem poll_delivers_until_disconnect:
  assumes "client_inv s" "0 \<le> g_fd s" "g_callback s \<noteq> None" "16 \<le> g_family_id s" "strings_ok env"
    and "list_all (datagram_ok (g_family_id s)) evss" "0 \<le> pi_poll stop" "pi_disconnect stop"
  shows "\<exists>s'. pollEvent env (map (datagram (g_family_id s)) evss @ stop # later) rbuf s = Some (True, s') \<and>
    jn_calls (jv_env s') = jn_calls (jv_env s) @ map callback_of (concat evss) \<and>
    os_fds s' = {} \<and> g_fd s' = -1 \<and> client_inv s'"
proof -
  let ?s = "s\<lparr>jv_env := delivered (concat evss) (jv_env s)\<rparr>"
  have inv: "client_inv (?s\<lparr>os_event := 0\<rparr>)" using assms(1) by (simp add: client_inv_def java_inv_def delivered_def)
  obtain s' where s': "poll_cleanup (?s\<lparr>os_event := 0\<rparr>) = Some s'" "client_inv s'" "os_fds s' = {}" "g_fd s' = -1"
    "jv_env s' = jv_env (?s\<lparr>os_event := 0\<rparr>)"
    using cleanup_inv [OF inv] by blast
  have "poll_round env stop rbuf' ?s = Some (Leave (?s\<lparr>os_event := 0\<rparr>))" for rbuf'
    using connected_fds [OF assms(1,2)] assms(2,7,8) by (simp add: poll_round_def)
  then have "pollEvent env (stop # later) rbuf' ?s = Some (True, s')" for rbuf' by (simp add: s'(1))
  moreover obtain rbuf' where "pollEvent env (map (datagram (g_family_id s)) evss @ stop # later) rbuf s =
      pollEvent env (stop # later) rbuf' ?s"
    using poll_datagrams [OF assms(1-6)] by blast
  ultimately show ?thesis using s'(2-5) by (simp add: delivered_def)
qed

definition sample_stop :: poll_input where
  "sample_stop = \<lparr>pi_poll = 1, pi_disconnect = True, pi_readable = False, pi_recv = (0, []), pi_NewLocalRef = True\<rparr>"

theorem poll_delivers_until_disconnect_witness:
  "\<exists>s'. pollEvent sample_jni_env [datagram 28 [EV_NETWORK \<lparr>ne_proto = 6, ne_target_uid = 10086, ne_data_len = 9\<rparr>], sample_stop]
       [] (connected_client\<lparr>g_callback := Some 2, jv_globals := {1, 2}\<rparr>) = Some (True, s') \<and>
     jn_calls (jv_env s') = [CB_network 6 10086 9] \<and> os_fds s' = {}"
proof -
  let ?s = "connected_client\<lparr>g_callback := Some 2, jv_globals := {1, 2}\<rparr>"
  let ?evs = "[EV_NETWORK \<lparr>ne_proto = 6, ne_target_uid = 10086, ne_data_len = 9\<rparr>]"
  have s: "client_inv ?s" "0 \<le> g_fd ?s" "g_callback ?s \<noteq> None" "16 \<le> g_family_id ?s" "g_family_id connected_client = 28"
    "jn_calls (jv_env connected_client) = []"
    by (auto simp: connected_client_def loaded_client_def client_init_def client_inv_def connection_inv_def java_inv_def)
  have str: "strings_ok sample_jni_env" by (simp add: strings_ok_def sample_jni_env_def)
  have "length (wire 28 ?evs) = 52" by code_simp
  then have dg: "list_all (datagram_ok (g_family_id ?s)) [?evs]" by (simp add: s(5) datagram_ok_def)
  show ?thesis
    using poll_delivers_until_disconnect [OF s(1-4) str dg, of sample_stop "[]" "[]"]
    by (auto simp: s(5,6) sample_stop_def)
qed

end
