(* ===== verification/Rkx_Client_Threads.thy ===== *)
theory Rkx_Client_Threads
  imports Rkx_Client_Safety
begin

text \<open>
  The threads of the client at the granularity of its shared accesses. \<open>micro\<close> is one step of a thread: a
  load, store or exchange of one global variable, a critical section of \<^verbatim>\<open>g_callback_mutex\<close>, or a system
  call on a shared descriptor, together with the work next to it on local data and on descriptors that are not
  yet, or never, in a global variable. \<^verbatim>\<open>g_conn_mutex\<close> is held for several steps; the
  positions inside its scopes are \<open>holds\<close>, and the steps that enter one are \<open>acquires\<close>. A thread that runs
  alone does what the operations of \<open>Rkx_Client\<close> do (\<open>solo\<close>).
\<close>

section \<open>Positions of a thread\<close>

text \<open>
  The letters are those of \<^verbatim>\<open>setCallback\<close>, \<^verbatim>\<open>connect\<close>, \<^verbatim>\<open>disconnect\<close>, the requests,
  \<^verbatim>\<open>pollEvent\<close> and the cleanup at its end. The arguments are the local variables that are still used.
\<close>

datatype thread =
    Returned bool
  | SC_new bool | SC_swap "nat option" | SC_delete nat
  | CN_lock | CN_open | CN_family u16 int int | CN_event int int | CN_fd int
  | DC_lock | DC_write int
  | RQ_family request | RQ_open request u16 | RQ_build request u16 int "bytes option" | RQ_send int "nat \<times> bytes"
  | PE_fd bytes | PE_event bytes int | PE_poll bytes int int | PE_read int | PE_recv bytes int
  | PE_callback bytes int | PE_message bytes nat s32
  | PC_lock | PC_event int | PC_family int int | PC_close int int | PC_close_event int

text \<open>Inside the scope of a lock guard of \<^verbatim>\<open>g_conn_mutex\<close>, and about to enter one.\<close>

fun holds :: "thread \<Rightarrow> bool" where
  "holds CN_open = True"
| "holds (CN_family fid disconnect_fd fd) = True"
| "holds (CN_event disconnect_fd fd) = True"
| "holds (CN_fd fd) = True"
| "holds (DC_write efd) = True"
| "holds (PC_event fd) = True"
| "holds (PC_family fd disconnect_fd) = True"
| "holds (PC_close fd disconnect_fd) = True"
| "holds (PC_close_event disconnect_fd) = True"
| "holds _ = False"

fun acquires :: "thread \<Rightarrow> bool" where
  "acquires CN_lock = True"
| "acquires DC_lock = True"
| "acquires PC_lock = True"
| "acquires _ = False"

text \<open>Leaving the loop of \<^verbatim>\<open>pollEvent\<close>, and anywhere in it.\<close>

fun leaving :: "thread \<Rightarrow> bool" where
  "leaving (PE_read disconnect_fd) = True"
| "leaving PC_lock = True"
| "leaving (PC_event fd) = True"
| "leaving (PC_family fd disconnect_fd) = True"
| "leaving (PC_close fd disconnect_fd) = True"
| "leaving (PC_close_event disconnect_fd) = True"
| "leaving _ = False"

fun polling :: "thread \<Rightarrow> bool" where
  "polling (PE_fd rbuf) = True"
| "polling (PE_event rbuf fd) = True"
| "polling (PE_poll rbuf fd disconnect_fd) = True"
| "polling (PE_recv rbuf fd) = True"
| "polling (PE_callback rbuf rlen) = True"
| "polling (PE_message rbuf nlh rlen) = True"
| "polling t = leaving t"

fun dispatching :: "thread \<Rightarrow> bool" where
  "dispatching (PE_message rbuf nlh rlen) = True"
| "dispatching _ = False"

section \<open>One step\<close>

text \<open>What the system and the Java machine answer in a step.\<close>

record step_in =
  si_instance :: bool
  si_ref :: "nat option"
  si_conn :: conn_env
  si_req :: req_env
  si_poll :: poll_input

text \<open>The part of \<^verbatim>\<open>connect\<close> between the test of \<^verbatim>\<open>g_fd\<close> and the three stores.\<close>

definition connect_open :: "conn_env \<Rightarrow> client \<Rightarrow> ((u16 \<times> int \<times> int) option \<times> client) option" where
  "connect_open ce s =
     (let fd = ce_socket ce in
      if fd < 0 then Some (None, s)
      else let s = open_fd fd s; disconnect_fd = ce_eventfd ce in
      if disconnect_fd < 0 then map_option (Pair None) (close_fd fd s)
      else let s = (open_fd disconnect_fd s)\<lparr>os_event := 0\<rparr>;
               close_all = (\<lambda>s. map_option (\<lambda>r. (None, snd r)) (close_both fd disconnect_fd s)) in
      if ce_bind ce < 0 then close_all s
      else do {
        (r, s) \<leftarrow> resolve_family_group ce fd s;
        case r of
          None \<Rightarrow> close_all s
        | Some (resolved_fid, resolved_gid) \<Rightarrow>
            let s = set_rcvtimeo ce 0 s in
            if resolved_gid > 0 \<and> ce_member ce < 0 then close_all s
            else let s = (if resolved_gid > 0 then s\<lparr>os_groups := (fd, resolved_gid) # os_groups s\<rparr> else s) in
            Some (Some (resolved_fid, disconnect_fd, fd), s)
      })"

text \<open>The arguments a request tests, whether it takes a string, and its message.\<close>

fun request_args :: "request \<Rightarrow> bool" where
  "request_args (Add_rule rpcName code strategy) \<longleftrightarrow> rpcName \<and> \<not> sint code < -1"
| "request_args (Del_rule rpcName code) \<longleftrightarrow> rpcName \<and> \<not> sint code < -1"
| "request_args _ \<longleftrightarrow> True"

fun takes_string :: "request \<Rightarrow> bool" where
  "takes_string (Add_rule rpcName code strategy) = True"
| "takes_string (Del_rule rpcName code) = True"
| "takes_string _ = False"

fun request_puts :: "request \<Rightarrow> bytes \<Rightarrow> nla_builder \<Rightarrow> (bool \<times> nla_builder) option" where
  "request_puts (Add_net uid) rpc_name b = map_option (\<lambda>(_, b). (True, b)) (putU32 b (uapi_attr RKX_A_UID) uid)"
| "request_puts (Del_net uid) rpc_name b = map_option (\<lambda>(_, b). (True, b)) (putU32 b (uapi_attr RKX_A_UID) uid)"
| "request_puts (Add_rule rpcName code strategy) rpc_name b =
     and_put (and_put (putString b (uapi_attr RKX_A_FREE_ASYNC_RPC_NAME) rpc_name)
       (\<lambda>b. putS32 b (uapi_attr RKX_A_FREE_ASYNC_CODE) code))
       (\<lambda>b. putU8 b (uapi_attr RKX_A_FREE_ASYNC_STRATEGY) (ucast strategy))"
| "request_puts (Del_rule rpcName code) rpc_name b =
     and_put (putString b (uapi_attr RKX_A_FREE_ASYNC_RPC_NAME) rpc_name)
       (\<lambda>b. putS32 b (uapi_attr RKX_A_FREE_ASYNC_CODE) code)"

fun request_cmd :: "request \<Rightarrow> rkx_genl_cmd" where
  "request_cmd (Add_net uid) = RKX_C_ADD_MONITOR_NET"
| "request_cmd (Del_net uid) = RKX_C_DEL_MONITOR_NET"
| "request_cmd (Add_rule rpcName code strategy) = RKX_C_ADD_FREE_ASYNC"
| "request_cmd (Del_rule rpcName code) = RKX_C_DEL_FREE_ASYNC"

definition request_build :: "request \<Rightarrow> u16 \<Rightarrow> u32 \<Rightarrow> bytes \<Rightarrow> bytes option \<Rightarrow> (bool \<times> nat \<times> bytes) option" where
  "request_build q family seq buf rpc_name = do {
     b \<leftarrow> nb_new buf (request_cap q);
     b \<leftarrow> putGenlHeader b family seq (uapi_cmd (request_cmd q)) uapi_version;
     (ok, b) \<leftarrow> request_puts q (case rpc_name of None \<Rightarrow> [] | Some n \<Rightarrow> n) b;
     m \<leftarrow> nb_finish b;
     Some (ok, m)
   }"

text \<open>A request from its second load to the new descriptor.\<close>

definition request_open :: "request \<Rightarrow> u16 \<Rightarrow> req_env \<Rightarrow> client \<Rightarrow> (thread \<times> client) option" where
  "request_open q family re s =
     (if g_fd s < 0 \<or> \<not> request_args q then Some (Returned False, s)
      else if takes_string q then
        (case re_GetStringUTFChars re of
           None \<Rightarrow> Some (Returned False, s)
         | Some rpc_name \<Rightarrow> do {
             let s = GetStringUTFChars s;
             c \<leftarrow> load8 rpc_name 0;
             if c = 0 \<or> re_socket re < 0 then map_option (Pair (Returned False)) (ReleaseStringUTFChars s)
             else Some (RQ_build q family (re_socket re) (Some rpc_name), open_fd (re_socket re) s)
           })
      else if re_socket re < 0 then Some (Returned False, s)
      else Some (RQ_build q family (re_socket re) None, open_fd (re_socket re) s))"

definition message_step :: "jni_env \<Rightarrow> bytes \<Rightarrow> nat \<Rightarrow> s32 \<Rightarrow> client \<Rightarrow> (thread \<times> client) option" where
  "message_step env rbuf nlh rlen s = do {
     ok \<leftarrow> NLMSG_OK rbuf nlh (scast rlen);
     if ok then do {
       j \<leftarrow> handle_event env (g_family_id s) rbuf nlh (jv_env s);
       nxt \<leftarrow> NLMSG_NEXT rbuf nlh rlen;
       Some (PE_message rbuf (fst nxt) (snd nxt), s\<lparr>jv_env := j\<rparr>)
     } else do {
       j \<leftarrow> DeleteLocalRef (jv_env s);
       Some (PE_fd rbuf, s\<lparr>jv_env := j\<rparr>)
     }
   }"

fun micro :: "jni_env \<Rightarrow> step_in \<Rightarrow> thread \<Rightarrow> client \<Rightarrow> (thread \<times> client) option" where
  "micro env i (Returned r) s = Some (Returned r, s)"
| "micro env i (SC_new callback) s =
     (if callback \<and> g_cbClass s = None then None
      else if callback \<and> \<not> si_instance i then Some (Returned True, s)
      else let new_cb = (if callback then si_ref i else None) in Some (SC_swap new_cb, new_global new_cb s))"
| "micro env i (SC_swap new_cb) s =
     Some (case g_callback s of None \<Rightarrow> Returned True | Some old_cb \<Rightarrow> SC_delete old_cb, s\<lparr>g_callback := new_cb\<rparr>)"
| "micro env i (SC_delete old_cb) s = map_option (Pair (Returned True)) (DeleteGlobalRef old_cb s)"
| "micro env i CN_lock s = Some (if g_fd s \<ge> 0 then Returned True else CN_open, s)"
| "micro env i CN_open s = do {
     (r, s) \<leftarrow> connect_open (si_conn i) s;
     Some (case r of None \<Rightarrow> Returned False | Some (fid, disconnect_fd, fd) \<Rightarrow> CN_family fid disconnect_fd fd, s)
   }"
| "micro env i (CN_family fid disconnect_fd fd) s = Some (CN_event disconnect_fd fd, s\<lparr>g_family_id := fid\<rparr>)"
| "micro env i (CN_event disconnect_fd fd) s = Some (CN_fd fd, s\<lparr>g_disconnect_fd := disconnect_fd\<rparr>)"
| "micro env i (CN_fd fd) s = Some (Returned True, s\<lparr>g_fd := fd\<rparr>)"
| "micro env i DC_lock s = Some (if g_disconnect_fd s \<ge> 0 then DC_write (g_disconnect_fd s) else Returned True, s)"
| "micro env i (DC_write efd) s =
     (if efd \<in> os_fds s then Some (Returned True, s\<lparr>os_event := os_event s + 1\<rparr>) else None)"
| "micro env i (RQ_family q) s =
     Some (if g_family_id s = 0 then Returned False else RQ_open q (g_family_id s), s)"
| "micro env i (RQ_open q family) s = request_open q family (si_req i) s"
| "micro env i (RQ_build q family fd rpc_name) s = do {
     (ok, m) \<leftarrow> request_build q family (g_seq s) (re_buf (si_req i)) rpc_name;
     s \<leftarrow> (if rpc_name = None then Some (next_seq s) else ReleaseStringUTFChars (next_seq s));
     if ok then Some (RQ_send fd m, s) else map_option (Pair (Returned False)) (close_fd fd s)
   }"
| "micro env i (RQ_send fd m) s = do {
     (r, s) \<leftarrow> send_close (si_req i) fd m s;
     Some (Returned r, s)
   }"
| "micro env i (PE_fd rbuf) s = Some (PE_event rbuf (g_fd s), s)"
| "micro env i (PE_event rbuf fd) s =
     Some (if fd < 0 \<or> g_disconnect_fd s < 0 then PC_lock else PE_poll rbuf fd (g_disconnect_fd s), s)"
| "micro env i (PE_poll rbuf fd disconnect_fd) s =
     (if fd \<notin> os_fds s \<or> disconnect_fd \<notin> os_fds s then None
      else Some (if pi_poll (si_poll i) < 0 then PE_fd rbuf
                 else if pi_disconnect (si_poll i) then PE_read disconnect_fd
                 else if \<not> pi_readable (si_poll i) then PE_fd rbuf
                 else PE_recv rbuf fd, s))"
| "micro env i (PE_read disconnect_fd) s =
     (if disconnect_fd \<in> os_fds s then Some (PC_lock, s\<lparr>os_event := 0\<rparr>) else None)"
| "micro env i (PE_recv rbuf fd) s =
     (if fd \<notin> os_fds s then None
      else let r = pi_recv (si_poll i); rbuf = recv_into rbuf r
           in Some (if fst r \<le> 0 then PE_fd rbuf else PE_callback rbuf (fst r), s))"
| "micro env i (PE_callback rbuf rlen) s =
     (if \<not> set_option (g_callback s) \<subseteq> jv_globals s then None
      else if g_callback s \<noteq> None \<and> pi_NewLocalRef (si_poll i)
      then Some (PE_message rbuf 0 (word_of_int rlen), s\<lparr>jv_env := (jv_env s)\<lparr>jn_locals := jn_locals (jv_env s) + 1\<rparr>\<rparr>)
      else Some (PE_fd rbuf, s))"
| "micro env i (PE_message rbuf nlh rlen) s = message_step env rbuf nlh rlen s"
| "micro env i PC_lock s = Some (PC_event (g_fd s), s\<lparr>g_fd := -1\<rparr>)"
| "micro env i (PC_event fd) s = Some (PC_family fd (g_disconnect_fd s), s\<lparr>g_disconnect_fd := -1\<rparr>)"
| "micro env i (PC_family fd disconnect_fd) s = Some (PC_close fd disconnect_fd, s\<lparr>g_family_id := 0\<rparr>)"
| "micro env i (PC_close fd disconnect_fd) s =
     map_option (Pair (PC_close_event disconnect_fd)) (if fd \<ge> 0 then close_fd fd s else Some s)"
| "micro env i (PC_close_event disconnect_fd) s =
     map_option (Pair (Returned True)) (if disconnect_fd \<ge> 0 then close_fd disconnect_fd s else Some s)"

section \<open>A thread that runs alone\<close>

fun solo :: "jni_env \<Rightarrow> step_in \<Rightarrow> nat \<Rightarrow> thread \<times> client \<Rightarrow> (thread \<times> client) option" where
  "solo env i 0 st = Some st"
| "solo env i (Suc n) st = Option.bind (micro env i (fst st) (snd st)) (solo env i n)"

lemma solo_add: "solo env i (m + n) st = Option.bind (solo env i m st) (solo env i n)"
proof (induction m arbitrary: st)
  case (Suc m)
  then show ?case by (cases "micro env i (fst st) (snd st)") simp_all
qed simp

lemma solo_returned: "solo env i n (Returned r, s) = Some (Returned r, s)"
  by (induction n) simp_all

text \<open>\<open>returns\<close>: the end of an operation with a result.\<close>

definition returns :: "(bool \<times> client) option \<Rightarrow> (thread \<times> client) option" where
  "returns = map_option (\<lambda>(r, s). (Returned r, s))"

lemma returns_monad [simp]:
  "returns None = None" "returns (Some (r, s)) = Some (Returned r, s)"
  "returns (Option.bind x f) = Option.bind x (\<lambda>y. returns (f y))"
  "returns (if b then p else q) = (if b then returns p else returns q)"
  by (simp_all add: returns_def map_option_bind comp_def)

lemma solo_numerals:
  "solo env i 1 st = Option.bind (micro env i (fst st) (snd st)) (solo env i 0)"
  "solo env i (numeral k) st = Option.bind (micro env i (fst st) (snd st)) (solo env i (pred_numeral k))"
  by (simp_all add: numeral_eq_Suc)

lemma solo_setCallback:
  "solo env i 3 (SC_new callback, s) = returns (map_option (Pair True) (setCallback (si_instance i) (si_ref i) callback s))"
  by (cases "g_callback s")
     (auto simp: solo_numerals returns_def setCallback_def Let_def new_global_def DeleteGlobalRef_def split: option.splits)

lemma solo_disconnect: "solo env i 2 (DC_lock, s) = returns (map_option (Pair True) (disconnect s))"
  by (simp add: solo_numerals returns_def disconnect_def)

lemma solo_cleanup: "solo env i 5 (PC_lock, s) = returns (map_option (Pair True) (poll_cleanup s))"
  by (simp add: solo_numerals returns_def poll_cleanup_def Let_def option.map_comp comp_def map_conv_bind_option)

lemma connect_via_open:
  "connect ce s =
     (if g_fd s \<ge> 0 then Some (True, s)
      else do {
        (r, s) \<leftarrow> connect_open ce s;
        Some (case r of None \<Rightarrow> (False, s)
          | Some (fid, disconnect_fd, fd) \<Rightarrow>
              (True, s\<lparr>g_family_id := fid, g_disconnect_fd := disconnect_fd, g_fd := fd\<rparr>))
      })"
  by (auto simp: connect_def connect_open_def Let_def close_both_def split: bind_splits option.splits)

lemma solo_connect: "solo env i 5 (CN_lock, s) = returns (connect (si_conn i) s)"
proof (cases "g_fd s \<ge> 0")
  case True
  then show ?thesis by (simp add: solo_numerals connect_def returns_def)
next
  case False
  then show ?thesis
    by (cases "connect_open (si_conn i) s")
       (auto simp: solo_numerals connect_via_open returns_def split: option.splits)
qed

text \<open>A request in terms of its steps.\<close>

lemmas request_monad = request_build_def case_prod_unfold map_conv_bind_option Option.bind_assoc Let_def comp_def

lemma if_neg: "(if \<not> b then x else y) = (if b then y else x)"
  by simp

lemma seq_fields [simp]: "g_seq (open_fd fd s) = g_seq s" "g_seq (GetStringUTFChars s) = g_seq s"
  by (simp_all add: open_fd_def GetStringUTFChars_def)

definition request_finish :: "req_env \<Rightarrow> int \<Rightarrow> bool \<Rightarrow> bool \<times> nat \<times> bytes \<Rightarrow> client \<Rightarrow> (bool \<times> client) option" where
  "request_finish re fd string r s = do {
     s \<leftarrow> (if string then ReleaseStringUTFChars (next_seq s) else Some (next_seq s));
     if fst r then send_close re fd (snd r) s else map_option (Pair False) (close_fd fd s)
   }"

lemma net_request:
  "addMonitorNet uid re s =
     (if not_connected s \<or> re_socket re < 0 then Some (False, s)
      else do { r \<leftarrow> request_build (Add_net uid) (g_family_id s) (g_seq s) (re_buf re) None;
                request_finish re (re_socket re) False r (open_fd (re_socket re) s) })"
  "delMonitorNet uid re s =
     (if not_connected s \<or> re_socket re < 0 then Some (False, s)
      else do { r \<leftarrow> request_build (Del_net uid) (g_family_id s) (g_seq s) (re_buf re) None;
                request_finish re (re_socket re) False r (open_fd (re_socket re) s) })"
  by (simp_all add: addMonitorNet_def delMonitorNet_def request_finish_def request_monad)

lemma rule_request:
  "addFreeAsync rpcName code strategy re s =
     (if not_connected s \<or> \<not> request_args (Add_rule rpcName code strategy) then Some (False, s)
      else case re_GetStringUTFChars re of
        None \<Rightarrow> Some (False, s)
      | Some rpc_name \<Rightarrow> do {
          c \<leftarrow> load8 rpc_name 0;
          if c = 0 \<or> re_socket re < 0 then Some (False, s)
          else do { r \<leftarrow> request_build (Add_rule rpcName code strategy) (g_family_id s) (g_seq s) (re_buf re) (Some rpc_name);
                    request_finish re (re_socket re) True r (open_fd (re_socket re) (GetStringUTFChars s)) }
        })"
  "delFreeAsync rpcName code re s =
     (if not_connected s \<or> \<not> request_args (Del_rule rpcName code) then Some (False, s)
      else case re_GetStringUTFChars re of
        None \<Rightarrow> Some (False, s)
      | Some rpc_name \<Rightarrow> do {
          c \<leftarrow> load8 rpc_name 0;
          if c = 0 \<or> re_socket re < 0 then Some (False, s)
          else do { r \<leftarrow> request_build (Del_rule rpcName code) (g_family_id s) (g_seq s) (re_buf re) (Some rpc_name);
                    request_finish re (re_socket re) True r (open_fd (re_socket re) (GetStringUTFChars s)) }
        })"
  by (simp_all add: addFreeAsync_def delFreeAsync_def request_finish_def request_monad release_string if_neg
      split: option.split cong: if_cong)

lemma solo_request_end:
  "solo env i 2 (RQ_build q family fd rpc_name, s) =
     Option.bind (request_build q family (g_seq s) (re_buf (si_req i)) rpc_name)
       (\<lambda>r. returns (request_finish (si_req i) fd (rpc_name \<noteq> None) r s))"
proof (cases "request_build q family (g_seq s) (re_buf (si_req i)) rpc_name")
  case (Some r)
  then show ?thesis
    by (cases r; cases "if rpc_name = None then Some (next_seq s) else ReleaseStringUTFChars (next_seq s)")
       (auto simp: solo_numerals request_finish_def returns_def case_prod_unfold map_conv_bind_option comp_def split: if_splits)
qed (simp add: solo_numerals)

lemma solo_request: "solo env i 4 (RQ_family q, s) = returns (run_request q (si_req i) s)"
proof -
  have *: "solo env i 4 (RQ_family q, s) =
      (if not_connected s \<or> \<not> request_args q then Some (Returned False, s)
       else Option.bind (request_open q (g_family_id s) (si_req i) s) (solo env i 2))"
    by (auto simp: solo_numerals not_connected_def request_open_def)
  have c: "\<not> not_connected s \<Longrightarrow> \<not> g_fd s < 0" by (simp add: not_connected_def)
  show ?thesis
  proof (cases "not_connected s \<or> \<not> request_args q")
    case True
    then show ?thesis unfolding * by (cases q) (auto simp: net_request rule_request)
  next
    case False
    show ?thesis
    proof (cases "takes_string q")
      case True
      show ?thesis
      proof (cases "re_GetStringUTFChars (si_req i)")
        case None
        then show ?thesis unfolding * using True False c
          by (cases q) (auto simp: request_open_def rule_request solo_returned)
      next
        case (Some rpc_name)
        then show ?thesis unfolding * using True False c
          by (cases q; cases "load8 rpc_name 0")
             (auto simp: request_open_def rule_request solo_returned solo_request_end release_string)
      qed
    next
      case False
      then show ?thesis unfolding * using \<open>\<not> (not_connected s \<or> \<not> request_args q)\<close> c
        by (cases q) (auto simp: request_open_def net_request solo_returned solo_request_end)
    qed
  qed
qed

lemma solo_messages:
  "nlmsg_loop env fam rbuf nlh rlen j = Some j' \<Longrightarrow> g_family_id s = fam \<Longrightarrow> jv_env s = j \<Longrightarrow>
    DeleteLocalRef j' = Some j'' \<Longrightarrow>
    \<exists>n. solo env i n (PE_message rbuf nlh rlen, s) = Some (PE_fd rbuf, s\<lparr>jv_env := j''\<rparr>)"
proof (induction env fam rbuf nlh rlen j j' arbitrary: s rule: nlmsg_loop.raw_induct [rotated, consumes 1, case_names step])
  case (step loop env fam rbuf nlh rlen j j')
  then obtain ok where ok: "NLMSG_OK rbuf nlh (scast rlen) = Some ok" by (auto split: bind_splits)
  show ?case
  proof (cases ok)
    case False
    with step.hyps step.prems ok have "micro env i (PE_message rbuf nlh rlen) s = Some (PE_fd rbuf, s\<lparr>jv_env := j''\<rparr>)"
      by (simp add: message_step_def)
    then have "solo env i 1 (PE_message rbuf nlh rlen, s) = Some (PE_fd rbuf, s\<lparr>jv_env := j''\<rparr>)"
      by (simp add: solo_numerals del: micro.simps)
    then show ?thesis by blast
  next
    case True
    with step.hyps step.prems ok obtain j1 nxt where st: "handle_event env fam rbuf nlh j = Some j1" "NLMSG_NEXT rbuf nlh rlen = Some nxt"
      "loop env fam rbuf (fst nxt) (snd nxt) j1 = Some j'"
      by (auto split: bind_splits)
    let ?s = "s\<lparr>jv_env := j1\<rparr>"
    from step.IH [OF st(3), of ?s] step.prems obtain n where
      "solo env i n (PE_message rbuf (fst nxt) (snd nxt), ?s) = Some (PE_fd rbuf, s\<lparr>jv_env := j''\<rparr>)" by auto
    moreover have "micro env i (PE_message rbuf nlh rlen) s = Some (PE_message rbuf (fst nxt) (snd nxt), ?s)"
      using step.prems ok True st(1,2) by (simp add: message_step_def)
    ultimately have "solo env i (Suc n) (PE_message rbuf nlh rlen, s) = Some (PE_fd rbuf, s\<lparr>jv_env := j''\<rparr>)"
      by (simp del: micro.simps)
    then show ?thesis by blast
  qed
qed

text \<open>The part of a round after a datagram was received.\<close>

lemma solo_dispatch:
  assumes cb: "set_option (g_callback s) \<subseteq> jv_globals s"
    and r: "(if g_callback s \<noteq> None \<and> pi_NewLocalRef (si_poll i) then do {
        j \<leftarrow> nlmsg_loop env (g_family_id s) rbuf 0 (word_of_int rlen) ((jv_env s)\<lparr>jn_locals := jn_locals (jv_env s) + 1\<rparr>);
        j \<leftarrow> DeleteLocalRef j;
        Some (Again rbuf (s\<lparr>jv_env := j\<rparr>))
      } else Some (Again rbuf s)) = Some (Again rbuf' s')"
  shows "\<exists>n. solo env i n (PE_callback rbuf rlen, s) = Some (PE_fd rbuf', s')"
proof (cases "g_callback s \<noteq> None \<and> pi_NewLocalRef (si_poll i)")
  case False
  then have "solo env i 1 (PE_callback rbuf rlen, s) = Some (PE_fd rbuf', s')"
    using r cb by (auto simp: solo_numerals)
  then show ?thesis by blast
next
  case True
  let ?j = "(jv_env s)\<lparr>jn_locals := jn_locals (jv_env s) + 1\<rparr>"
  let ?s = "s\<lparr>jv_env := ?j\<rparr>"
  from True r obtain j j' where j: "nlmsg_loop env (g_family_id s) rbuf 0 (word_of_int rlen) ?j = Some j"
    "DeleteLocalRef j = Some j'" "rbuf' = rbuf" "s' = s\<lparr>jv_env := j'\<rparr>"
    by (auto split: bind_splits)
  obtain n where "solo env i n (PE_message rbuf 0 (word_of_int rlen), ?s) = Some (PE_fd rbuf, ?s\<lparr>jv_env := j'\<rparr>)"
    using solo_messages [OF j(1), of ?s j' i] j(2) by auto
  then have "solo env i (Suc n) (PE_callback rbuf rlen, s) = Some (PE_fd rbuf', s')"
    using True cb j(3,4) by simp
  then show ?thesis by blast
qed

lemma solo_poll_round:
  assumes "poll_round env (si_poll i) rbuf s = Some r"
  shows "\<exists>n. solo env i n (PE_fd rbuf, s) =
    Some (case r of Again rbuf' s' \<Rightarrow> (PE_fd rbuf', s') | Leave s' \<Rightarrow> (PC_lock, s'))"
proof -
  let ?i = "si_poll i" and ?r = "pi_recv (si_poll i)"
  let ?on = "\<not> (g_fd s < 0 \<or> g_disconnect_fd s < 0) \<and> g_fd s \<in> os_fds s \<and> g_disconnect_fd s \<in> os_fds s"
  let ?data = "\<not> pi_poll ?i < 0 \<and> \<not> pi_disconnect ?i \<and> pi_readable ?i"
  note round = assms [unfolded poll_round_def Let_def]
  have four: "solo env i 4 (PE_fd rbuf, s) =
      Some (if fst ?r \<le> 0 then PE_fd (recv_into rbuf ?r) else PE_callback (recv_into rbuf ?r) (fst ?r), s)" if ?on ?data
    using that by (simp add: solo_numerals Let_def)
  consider (off) "g_fd s < 0 \<or> g_disconnect_fd s < 0" "r = Leave s"
    | (retry) ?on "pi_poll ?i < 0 \<or> \<not> pi_disconnect ?i \<and> \<not> pi_readable ?i" "r = Again rbuf s"
    | (stop) ?on "\<not> pi_poll ?i < 0" "pi_disconnect ?i" "r = Leave (s\<lparr>os_event := 0\<rparr>)"
    | (nothing) ?on ?data "fst ?r \<le> 0" "r = Again (recv_into rbuf ?r) s"
    | (data) ?on ?data "\<not> fst ?r \<le> 0" "set_option (g_callback s) \<subseteq> jv_globals s"
    using round by (auto split: if_splits)
  then show ?thesis
  proof cases
    case off
    then have "solo env i 2 (PE_fd rbuf, s) = Some (PC_lock, s)" by (simp add: solo_numerals)
    with off(2) show ?thesis by auto
  next
    case retry
    then have "solo env i 3 (PE_fd rbuf, s) = Some (PE_fd rbuf, s)" by (auto simp: solo_numerals)
    with retry(3) show ?thesis by auto
  next
    case stop
    then have "solo env i 4 (PE_fd rbuf, s) = Some (PC_lock, s\<lparr>os_event := 0\<rparr>)" by (simp add: solo_numerals)
    with stop(4) show ?thesis by auto
  next
    case nothing
    with four show ?thesis by auto
  next
    case data
    then obtain rbuf' s' where r: "r = Again rbuf' s'" using round by (auto split: if_splits bind_splits)
    have "\<exists>n. solo env i n (PE_callback (recv_into rbuf ?r) (fst ?r), s) = Some (PE_fd rbuf', s')"
      by (rule solo_dispatch) (use data round r in simp_all)
    then obtain n where "solo env i n (PE_callback (recv_into rbuf ?r) (fst ?r), s) = Some (PE_fd rbuf', s')" by blast
    with four data have "solo env i (4 + n) (PE_fd rbuf, s) = Some (PE_fd rbuf', s')" by (subst solo_add) simp
    with r show ?thesis by (intro exI [of _ "4 + n"]) simp
  qed
qed

section \<open>Properties\<close>


definition sample_in :: step_in where
  "sample_in = \<lparr>si_instance = True, si_ref = Some 2, si_conn = sample_conn 0, si_req = sample_req 128 None, si_poll = sample_stop\<rparr>"


end
