(* ===== verification/Rkx_Client_Race.thy ===== *)
theory Rkx_Client_Race
  imports Rkx_Client_Threads
begin

text \<open>
  Any number of threads in the client at once. \<open>assertion\<close> is what a thread knows at a position while the others
  move, \<open>share\<close> what it has of the descriptors, references and strings besides the others' parts. Every step
  keeps both for its own thread (\<open>micro_ok\<close>) and the assertions of the other threads (\<open>assertion_stable\<close>): no
  step uses something released, nothing is leaked, and the connection mutex excludes.
\<close>

section \<open>What a thread owns\<close>

definition nonneg :: "int \<Rightarrow> int set" where
  "nonneg x = (if 0 \<le> x then {x} else {})"

lemma nonneg_simps [simp]: "0 \<le> x \<Longrightarrow> nonneg x = {x}" "x < 0 \<Longrightarrow> nonneg x = {}" "nonneg (- 1) = {}"
  by (simp_all add: nonneg_def)

text \<open>Descriptors that are open but not, or not yet, in the global variables.\<close>

fun own_fds :: "thread \<Rightarrow> int set" where
  "own_fds (CN_family fid disconnect_fd fd) = {disconnect_fd, fd}"
| "own_fds (CN_event disconnect_fd fd) = {disconnect_fd, fd}"
| "own_fds (CN_fd fd) = {fd}"
| "own_fds (RQ_build q family fd rpc_name) = {fd}"
| "own_fds (RQ_send fd m) = {fd}"
| "own_fds (PC_event fd) = nonneg fd"
| "own_fds (PC_family fd disconnect_fd) = nonneg fd \<union> nonneg disconnect_fd"
| "own_fds (PC_close fd disconnect_fd) = nonneg fd \<union> nonneg disconnect_fd"
| "own_fds (PC_close_event disconnect_fd) = nonneg disconnect_fd"
| "own_fds _ = {}"

fun own_refs :: "thread \<Rightarrow> nat set" where
  "own_refs (SC_swap new_cb) = set_option new_cb"
| "own_refs (SC_delete old_cb) = {old_cb}"
| "own_refs _ = {}"

fun own_string :: "thread \<Rightarrow> bool" where
  "own_string (RQ_build q family fd rpc_name) \<longleftrightarrow> rpc_name \<noteq> None"
| "own_string _ \<longleftrightarrow> False"

definition published :: "client \<Rightarrow> int set" where
  "published s = nonneg (g_fd s) \<union> nonneg (g_disconnect_fd s)"

definition roots :: "client \<Rightarrow> nat set" where
  "roots s = set_option (g_cbClass s) \<union> set_option (g_callback s)"

text \<open>
  \<open>divides A P X F\<close>: \<open>A\<close> is the disjoint union of the published part, the part \<open>X\<close> of a thread and the part
  \<open>F\<close> of the others; \<open>portions A P f\<close>: of the published part and the parts of all threads.
\<close>

definition divides :: "'a set \<Rightarrow> 'a set \<Rightarrow> 'a set \<Rightarrow> 'a set \<Rightarrow> bool" where
  "divides A P X F \<longleftrightarrow> A = P \<union> X \<union> F \<and> P \<inter> X = {} \<and> (P \<union> X) \<inter> F = {}"

definition portions :: "'a set \<Rightarrow> 'a set \<Rightarrow> (nat \<Rightarrow> 'a set) \<Rightarrow> bool" where
  "portions A P f \<longleftrightarrow> A = P \<union> (\<Union>k. f k) \<and> (\<forall>k. P \<inter> f k = {}) \<and> (\<forall>k l. k \<noteq> l \<longrightarrow> f k \<inter> f l = {})"

lemma portions_divides: "portions A P f \<Longrightarrow> divides A P (f k) (\<Union>l\<in>-{k}. f l)"
  unfolding portions_def divides_def by blast

lemma portions_update:
  assumes "portions A P f" "divides A' P' X (\<Union>l\<in>-{k}. f l)"
  shows "portions A' P' (f(k := X))"
proof -
  have "(\<Union>l. (f(k := X)) l) = X \<union> (\<Union>l\<in>-{k}. f l)" by auto
  moreover have "P' \<inter> (f(k := X)) l = {}" for l using assms(2) by (auto simp: divides_def)
  moreover have "(f(k := X)) l \<inter> (f(k := X)) m = {}" if "l \<noteq> m" for l m
    using assms that unfolding divides_def portions_def by (cases "l = k"; cases "m = k") auto
  ultimately show ?thesis using assms(2) unfolding divides_def portions_def by blast
qed

text \<open>Something new, something given up, something published, and an exchange with the published part.\<close>

lemma divides_insert: "divides A P X F \<Longrightarrow> x \<notin> A \<Longrightarrow> divides (insert x A) P (insert x X) F"
  by (auto simp: divides_def)

lemma divides_remove: "divides A P (insert x X) F \<Longrightarrow> x \<notin> X \<Longrightarrow> divides (A - {x}) P X F"
  by (auto simp: divides_def)

lemma divides_publish: "divides A P (insert x X) F \<Longrightarrow> x \<notin> X \<Longrightarrow> divides A (insert x P) X F"
  by (auto simp: divides_def)

lemma divides_swap: "divides A (C \<union> Y) X F \<Longrightarrow> C \<inter> Y = {} \<Longrightarrow> divides A (C \<union> X) Y F"
  by (auto simp: divides_def)

lemma divides_in: "divides A P X F \<Longrightarrow> x \<in> P \<union> X \<Longrightarrow> x \<in> A"
  by (auto simp: divides_def)

lemma published_frame [simp]:
  "published (s\<lparr>g_callback := a\<rparr>) = published s" "published (s\<lparr>g_family_id := b\<rparr>) = published s"
  "published (s\<lparr>g_seq := c\<rparr>) = published s" "published (s\<lparr>os_fds := d\<rparr>) = published s"
  "published (s\<lparr>os_sent := e\<rparr>) = published s" "published (s\<lparr>os_groups := f\<rparr>) = published s"
  "published (s\<lparr>os_event := g\<rparr>) = published s" "published (s\<lparr>jv_globals := h\<rparr>) = published s"
  "published (s\<lparr>jv_strings := k\<rparr>) = published s" "published (s\<lparr>jv_env := j\<rparr>) = published s"
  by (simp_all add: published_def)

lemma roots_frame [simp]:
  "roots (s\<lparr>g_fd := x\<rparr>) = roots s" "roots (s\<lparr>g_disconnect_fd := x\<rparr>) = roots s"
  "roots (s\<lparr>g_family_id := b\<rparr>) = roots s" "roots (s\<lparr>g_seq := c\<rparr>) = roots s" "roots (s\<lparr>os_fds := d\<rparr>) = roots s"
  "roots (s\<lparr>os_sent := e\<rparr>) = roots s" "roots (s\<lparr>os_groups := f\<rparr>) = roots s"
  "roots (s\<lparr>os_event := g\<rparr>) = roots s" "roots (s\<lparr>jv_globals := h\<rparr>) = roots s"
  "roots (s\<lparr>jv_strings := k\<rparr>) = roots s" "roots (s\<lparr>jv_env := j\<rparr>) = roots s"
  by (simp_all add: roots_def)

text \<open>\<open>F\<close>, \<open>R\<close> and \<open>n\<close>: the descriptors, the references and the number of strings of the other threads.\<close>

definition fds_share :: "int set \<Rightarrow> thread \<Rightarrow> client \<Rightarrow> bool" where
  "fds_share F t s \<longleftrightarrow> divides (os_fds s) (published s) (own_fds t) F"

definition refs_share :: "nat set \<Rightarrow> thread \<Rightarrow> client \<Rightarrow> bool" where
  "refs_share R t s \<longleftrightarrow> g_cbClass s \<noteq> None \<and> g_callback s \<noteq> g_cbClass s \<and>
     divides (jv_globals s) (roots s) (own_refs t) R"

definition java_share :: "nat \<Rightarrow> thread \<Rightarrow> client \<Rightarrow> bool" where
  "java_share n t s \<longleftrightarrow> jv_strings s = n + (if own_string t then 1 else 0) \<and> \<not> jn_exception (jv_env s) \<and>
     (polling t \<longrightarrow> jn_locals (jv_env s) = (if dispatching t then 1 else 0))"

definition share :: "int set \<Rightarrow> nat set \<Rightarrow> nat \<Rightarrow> thread \<Rightarrow> client \<Rightarrow> bool" where
  "share F R n t s \<longleftrightarrow> fds_share F t s \<and> refs_share R t s \<and> java_share n t s"

section \<open>What a thread knows\<close>

definition offline :: "client \<Rightarrow> bool" where
  "offline s \<longleftrightarrow> g_fd s = -1 \<and> g_disconnect_fd s = -1 \<and> g_family_id s = 0"

definition online :: "client \<Rightarrow> bool" where
  "online s \<longleftrightarrow> 0 \<le> g_fd s \<and> 0 \<le> g_disconnect_fd s \<and> g_fd s \<noteq> g_disconnect_fd s \<and> g_family_id s \<noteq> 0"

fun name_ok :: "bytes option \<Rightarrow> bool" where
  "name_ok None \<longleftrightarrow> True"
| "name_ok (Some c) \<longleftrightarrow> 0 \<in> set c \<and> strlen c < 65528"

text \<open>Messages of the lengths \<open>ns\<close> from \<open>nlh\<close> on, in the array of 8192 bytes.\<close>

definition messages :: "jni_env \<Rightarrow> bytes \<Rightarrow> nat \<Rightarrow> nat list \<Rightarrow> bool" where
  "messages env rbuf nlh ns \<longleftrightarrow> length rbuf = 8192 \<and> framed rbuf nlh ns \<and> nlh + sum_list ns \<le> 8192 \<and>
     (silent env \<or> lone_payloads rbuf nlh ns)"

fun assertion :: "jni_env \<Rightarrow> thread \<Rightarrow> client \<Rightarrow> bool" where
  "assertion env CN_open s \<longleftrightarrow> offline s"
| "assertion env (CN_family fid disconnect_fd fd) s \<longleftrightarrow>
     offline s \<and> fid \<noteq> 0 \<and> 0 \<le> disconnect_fd \<and> 0 \<le> fd \<and> fd \<noteq> disconnect_fd"
| "assertion env (CN_event disconnect_fd fd) s \<longleftrightarrow>
     g_fd s = -1 \<and> g_disconnect_fd s = -1 \<and> g_family_id s \<noteq> 0 \<and> 0 \<le> disconnect_fd \<and> 0 \<le> fd \<and> fd \<noteq> disconnect_fd"
| "assertion env (CN_fd fd) s \<longleftrightarrow>
     g_fd s = -1 \<and> 0 \<le> g_disconnect_fd s \<and> g_family_id s \<noteq> 0 \<and> 0 \<le> fd \<and> fd \<noteq> g_disconnect_fd s"
| "assertion env (DC_write efd) s \<longleftrightarrow> online s \<and> efd = g_disconnect_fd s"
| "assertion env (RQ_build q family fd rpc_name) s \<longleftrightarrow> 0 \<le> fd \<and> (takes_string q \<longleftrightarrow> rpc_name \<noteq> None) \<and> name_ok rpc_name"
| "assertion env (RQ_send fd m) s \<longleftrightarrow> 0 \<le> fd \<and> fst m \<le> length (snd m)"
| "assertion env (PE_fd rbuf) s \<longleftrightarrow> length rbuf = 8192"
| "assertion env (PE_event rbuf fd) s \<longleftrightarrow> length rbuf = 8192 \<and> (0 \<le> fd \<longrightarrow> online s \<and> fd = g_fd s)"
| "assertion env (PE_poll rbuf fd disconnect_fd) s \<longleftrightarrow>
     length rbuf = 8192 \<and> online s \<and> fd = g_fd s \<and> disconnect_fd = g_disconnect_fd s"
| "assertion env (PE_read disconnect_fd) s \<longleftrightarrow> online s \<and> disconnect_fd = g_disconnect_fd s \<and> 0 < os_event s"
| "assertion env (PE_recv rbuf fd) s \<longleftrightarrow> length rbuf = 8192 \<and> online s \<and> fd = g_fd s"
| "assertion env (PE_callback rbuf rlen) s \<longleftrightarrow> (\<exists>ns. messages env rbuf 0 ns \<and> rlen = int (sum_list ns))"
| "assertion env (PE_message rbuf nlh rlen) s \<longleftrightarrow> (\<exists>ns. messages env rbuf nlh ns \<and> rlen = of_nat (sum_list ns))"
| "assertion env (PC_event fd) s \<longleftrightarrow> g_fd s = -1 \<and>
     (fd = -1 \<and> g_disconnect_fd s = -1 \<or> 0 \<le> fd \<and> 0 \<le> g_disconnect_fd s \<and> fd \<noteq> g_disconnect_fd s)"
| "assertion env (PC_family fd disconnect_fd) s \<longleftrightarrow>
     g_fd s = -1 \<and> g_disconnect_fd s = -1 \<and> (0 \<le> fd \<longrightarrow> fd \<noteq> disconnect_fd)"
| "assertion env (PC_close fd disconnect_fd) s \<longleftrightarrow> offline s \<and> (0 \<le> fd \<longrightarrow> fd \<noteq> disconnect_fd)"
| "assertion env (PC_close_event disconnect_fd) s \<longleftrightarrow> offline s"
| "assertion env _ s \<longleftrightarrow> True"

text \<open>
  What the answers of the system obey at a position: a new descriptor or reference is not in use, the reply, the
  name and the datagrams have the shapes of \<open>Rkx_Client_Conn\<close>, \<open>Rkx_Client_Req\<close> and \<open>Rkx_Client_Safety\<close>,
  and \<^verbatim>\<open>poll\<close> reports the eventfd readable exactly if its counter is not zero.
\<close>

fun input_ok :: "jni_env \<Rightarrow> step_in \<Rightarrow> thread \<Rightarrow> client \<Rightarrow> bool" where
  "input_ok env i (SC_new callback) s \<longleftrightarrow> fresh_ref (si_ref i) s"
| "input_ok env i CN_open s \<longleftrightarrow> conn_env_ok (si_conn i) s"
| "input_ok env i (RQ_open q family) s \<longleftrightarrow>
     re_socket (si_req i) \<notin> os_fds s \<and> name_ok (re_GetStringUTFChars (si_req i))"
| "input_ok env i (RQ_build q family fd rpc_name) s \<longleftrightarrow> length (re_buf (si_req i)) = request_cap q"
| "input_ok env i (PE_poll rbuf fd disconnect_fd) s \<longleftrightarrow>
     (0 \<le> pi_poll (si_poll i) \<longrightarrow> (pi_disconnect (si_poll i) \<longleftrightarrow> 0 < os_event s))"
| "input_ok env i (PE_recv rbuf fd) s \<longleftrightarrow> poll_input_ok env (si_poll i)"
| "input_ok env i _ s \<longleftrightarrow> True"

section \<open>What a step does to the others\<close>

definition same_conn :: "client \<Rightarrow> client \<Rightarrow> bool" where
  "same_conn s s' \<longleftrightarrow> g_fd s' = g_fd s \<and> g_disconnect_fd s' = g_disconnect_fd s \<and> g_family_id s' = g_family_id s"

definition effect :: "thread \<Rightarrow> client \<Rightarrow> client \<Rightarrow> bool" where
  "effect t s s' \<longleftrightarrow>
     (\<not> holds t \<and> \<not> acquires t \<longrightarrow> same_conn s s') \<and>
     (\<not> polling t \<longrightarrow> jv_env s' = jv_env s \<and> (online s \<longrightarrow> same_conn s s' \<and> os_event s \<le> os_event s'))"

lemma same_conn_online: "same_conn s s' \<Longrightarrow> online s' = online s" "same_conn s s' \<Longrightarrow> offline s' = offline s"
  by (simp_all add: same_conn_def online_def offline_def)

lemma assertion_stable:
  assumes "assertion env t' s" "effect t s s'" "\<not> (polling t \<and> polling t')"
    and "holds t' \<Longrightarrow> \<not> holds t \<and> \<not> acquires t"
  shows "assertion env t' s'"
  using assms
  by (cases t') (auto simp: effect_def same_conn_def online_def offline_def)

text \<open>A step of a thread, with its effect on the thread itself and on the others.\<close>

definition moved :: "jni_env \<Rightarrow> int set \<Rightarrow> nat set \<Rightarrow> nat \<Rightarrow> thread \<Rightarrow> client \<Rightarrow> thread \<Rightarrow> client \<Rightarrow> bool" where
  "moved env F R n t s t' s' \<longleftrightarrow> assertion env t' s' \<and> share F R n t' s' \<and> effect t s s' \<and>
     (holds t' \<longrightarrow> holds t \<or> acquires t) \<and> (polling t' \<longrightarrow> polling t) \<and> (\<not> polling t' \<longrightarrow> jv_env s' = jv_env s) \<and>
     ((holds t \<or> acquires t) \<and> \<not> holds t' \<longrightarrow> online s' \<or> offline s')"

lemmas share_defs = share_def fds_share_def refs_share_def java_share_def
lemmas moved_defs = moved_def effect_def same_conn_def online_def offline_def

section \<open>Setting the callback\<close>

lemma callback_new_moves:
  assumes "share F R n (SC_new callback) s" "fresh_ref (si_ref i) s"
  shows "\<exists>t' s'. micro env i (SC_new callback) s = Some (t', s') \<and> moved env F R n (SC_new callback) s t' s'"
proof (cases "callback \<and> si_instance i \<and> si_ref i \<noteq> None")
  case True
  then obtain r where r: "si_ref i = Some r" "r \<notin> jv_globals s" using assms(2) by (auto simp: fresh_ref_def)
  then have "divides (insert r (jv_globals s)) (roots s) {r} R"
    using divides_insert [of "jv_globals s" "roots s" "{}" R r] assms(1) by (simp add: share_defs)
  then show ?thesis using assms(1) True r by (simp add: new_global_def share_defs moved_defs)
next
  case False
  then show ?thesis using assms(1) by (auto simp: new_global_def share_defs moved_defs Let_def)
qed

lemma callback_swap_moves:
  assumes "share F R n (SC_swap new_cb) s"
  shows "\<exists>t' s'. micro env i (SC_swap new_cb) s = Some (t', s') \<and> moved env F R n (SC_swap new_cb) s t' s'"
proof -
  have d: "g_cbClass s \<noteq> None" "g_callback s \<noteq> g_cbClass s"
    "divides (jv_globals s) (set_option (g_cbClass s) \<union> set_option (g_callback s)) (set_option new_cb) R"
    using assms by (simp_all add: share_defs roots_def)
  then have "divides (jv_globals s) (set_option (g_cbClass s) \<union> set_option new_cb) (set_option (g_callback s)) R"
    by (intro divides_swap [OF d(3)]) auto
  moreover have "new_cb \<noteq> g_cbClass s" using d by (auto simp: divides_def)
  ultimately show ?thesis
    using assms by (cases "g_callback s") (simp_all add: share_defs moved_defs roots_def)
qed

lemma callback_delete_moves:
  assumes "share F R n (SC_delete old_cb) s"
  shows "\<exists>t' s'. micro env i (SC_delete old_cb) s = Some (t', s') \<and> moved env F R n (SC_delete old_cb) s t' s'"
proof -
  have d: "divides (jv_globals s) (roots s) {old_cb} R" using assms by (simp add: share_defs)
  have "old_cb \<in> jv_globals s" "divides (jv_globals s - {old_cb}) (roots s) {} R"
    using divides_in [OF d] divides_remove [of _ _ _ "{}", OF d] by simp_all
  then show ?thesis using assms by (simp add: DeleteGlobalRef_def share_defs moved_defs)
qed

section \<open>Connecting and disconnecting\<close>

definition opened :: "int set \<Rightarrow> client \<Rightarrow> client \<Rightarrow> bool" where
  "opened X s s' \<longleftrightarrow> os_fds s' = os_fds s \<union> X \<and> same_conn s s' \<and> same_java s s'"

lemma opened_roots: "opened X s s' \<Longrightarrow> roots s' = roots s" "opened X s s' \<Longrightarrow> published s' = published s"
  by (simp_all add: opened_def same_java_def same_conn_def roots_def published_def)

lemma close_both_new:
  assumes "os_fds u = insert dfd (insert fd (os_fds s))" "fd \<notin> os_fds s" "dfd \<notin> os_fds s" "fd \<noteq> dfd"
    and "same_conn s u" "same_java s u"
  shows "\<exists>u'. close_both fd dfd u = Some (False, u') \<and> opened {} s u'"
proof -
  have "insert dfd (insert fd (os_fds s)) - {fd} - {dfd} = os_fds s" using assms(2,3) by auto
  with assms show ?thesis
    by (simp add: close_both_def close_fd_def opened_def same_conn_def same_java_def del: filter_filter)
qed

lemma connect_open_bound:
  fixes ce s
  defines "fd \<equiv> ce_socket ce" and "dfd \<equiv> ce_eventfd ce"
  assumes env: "conn_env_ok ce s" and bound: "0 \<le> fd" "0 \<le> dfd" "0 \<le> ce_bind ce"
  shows "(\<exists>s'. connect_open ce s = Some (None, s') \<and> opened {} s s') \<or>
    (\<exists>fid s'. connect_open ce s = Some (Some (fid, dfd, fd), s') \<and> opened {dfd, fd} s s' \<and> fid \<noteq> 0)"
proof -
  have new: "fd \<notin> os_fds s" "dfd \<notin> os_fds s" "fd \<noteq> dfd" and e: "length (ce_reply ce) = 4096" "recv_ok 4089 (ce_recv ce)"
    using env bound(1) by (auto simp: conn_env_ok_def fd_def dfd_def)
  let ?s = "s\<lparr>os_fds := insert dfd (insert fd (os_fds s)), os_event := 0\<rparr>"
  let ?u = "?s\<lparr>g_seq := g_seq ?s + 1, os_rcvtimeo := (if ce_timeo ce then 3 else os_rcvtimeo ?s),
    os_sent := os_sent ?s @ resolve_sent ce fd ?s\<rparr>"
  note eqs = connect_open_def Let_def open_fd_def fd_def [symmetric] dfd_def [symmetric]
  note same = opened_def same_conn_def same_java_def
  obtain r where r: "resolve_family_group ce fd ?s = Some (r, ?u)" "\<And>fid gid. r = Some (fid, gid) \<Longrightarrow> fid \<noteq> 0"
    using resolve_in [of fd ?s, OF _ e] by auto
  have closed: "\<exists>u'. close_both fd dfd u = Some (False, u') \<and> opened {} s u'" if "u = ?u \<or> u = set_rcvtimeo ce 0 ?u" for u
    using that close_both_new [OF _ new, of u] by (auto simp: same set_rcvtimeo_def)
  show ?thesis
  proof (cases r)
    case None
    then show ?thesis using bound r(1) closed [of ?u] by (auto simp: eqs)
  next
    case (Some g)
    obtain fid gid where g: "g = (fid, gid)" by (cases g)
    show ?thesis
    proof (cases "gid > 0 \<and> ce_member ce < 0")
      case True
      then show ?thesis using bound r(1) Some g closed [of "set_rcvtimeo ce 0 ?u"] by (auto simp: eqs)
    next
      case False
      let ?v = "if gid > 0 then (set_rcvtimeo ce 0 ?u)\<lparr>os_groups := (fd, gid) # os_groups (set_rcvtimeo ce 0 ?u)\<rparr>
        else set_rcvtimeo ce 0 ?u"
      have "connect_open ce s = Some (Some (fid, dfd, fd), ?v)" using bound r(1) Some g False by (auto simp: eqs)
      moreover have "opened {dfd, fd} s ?v" by (auto simp: same set_rcvtimeo_def)
      ultimately show ?thesis using r(2) Some g by blast
    qed
  qed
qed

lemma connect_open_cases:
  fixes ce s
  defines "fd \<equiv> ce_socket ce" and "dfd \<equiv> ce_eventfd ce"
  assumes env: "conn_env_ok ce s"
  shows "(\<exists>s'. connect_open ce s = Some (None, s') \<and> opened {} s s') \<or>
    (\<exists>fid s'. connect_open ce s = Some (Some (fid, dfd, fd), s') \<and> opened {dfd, fd} s s' \<and>
       fid \<noteq> 0 \<and> 0 \<le> dfd \<and> 0 \<le> fd \<and> fd \<noteq> dfd)"
proof -
  have new: "fd \<notin> os_fds s" "dfd \<notin> os_fds s" "0 \<le> fd \<Longrightarrow> fd \<noteq> dfd"
    using env by (auto simp: conn_env_ok_def fd_def dfd_def)
  let ?s = "s\<lparr>os_fds := insert dfd (insert fd (os_fds s)), os_event := 0\<rparr>"
  note eqs = connect_open_def Let_def open_fd_def fd_def [symmetric] dfd_def [symmetric]
  note same = opened_def same_conn_def same_java_def
  consider (socket) "fd < 0" | (event) "0 \<le> fd" "dfd < 0" | (bind) "0 \<le> fd" "0 \<le> dfd" "ce_bind ce < 0"
    | (bound) "0 \<le> fd" "0 \<le> dfd" "0 \<le> ce_bind ce" by linarith
  then show ?thesis
  proof cases
    case socket
    then show ?thesis by (simp add: eqs same)
  next
    case event
    then show ?thesis using new(1) by (simp add: eqs same close_fd_def insert_remove_new)
  next
    case bind
    obtain u where "close_both fd dfd ?s = Some (False, u)" "opened {} s u"
      using close_both_new [OF _ new(1,2), of ?s] new(3) bind(1) by (auto simp: same)
    with bind show ?thesis by (simp add: eqs)
  next
    case bound
    then show ?thesis using connect_open_bound [OF env] new(3) by (auto simp: fd_def dfd_def)
  qed
qed

lemma connect_open_moves:
  assumes sh: "share F R n CN_open s" and off: "offline s" and env: "conn_env_ok (si_conn i) s"
  shows "\<exists>t' s'. micro env i CN_open s = Some (t', s') \<and> moved env F R n CN_open s t' s'"
proof -
  let ?fd = "ce_socket (si_conn i)" and ?dfd = "ce_eventfd (si_conn i)"
  have d: "divides (os_fds s) (published s) {} F" using sh by (simp add: share_defs)
  have opened_share: "share F R n t s'" if "opened X s s'" "divides (os_fds s \<union> X) (published s) (own_fds t) F"
    "own_refs t = {}" "\<not> own_string t" "\<not> polling t" for t s' X
    using that sh opened_roots [OF that(1)] by (simp add: share_defs opened_def same_java_def)
  have eff: "effect CN_open s s'" "offline s'" "jv_env s' = jv_env s" if "opened X s s'" for X s'
    using that off by (auto simp: effect_def opened_def same_java_def same_conn_def offline_def online_def)
  consider (fail) s' where "connect_open (si_conn i) s = Some (None, s')" "opened {} s s'"
    | (ok) fid s' where "connect_open (si_conn i) s = Some (Some (fid, ?dfd, ?fd), s')" "opened {?dfd, ?fd} s s'"
        "fid \<noteq> 0" "0 \<le> ?dfd" "0 \<le> ?fd" "?fd \<noteq> ?dfd"
    using connect_open_cases [OF env] by blast
  then show ?thesis
  proof cases
    case fail
    then show ?thesis using eff [OF fail(2)] opened_share [OF fail(2), of "Returned False"] d by (simp add: moved_def)
  next
    case ok
    have new: "?fd \<notin> os_fds s" "?dfd \<notin> insert ?fd (os_fds s)" using env ok(6) by (auto simp: conn_env_ok_def)
    have "divides (os_fds s \<union> {?dfd, ?fd}) (published s) {?dfd, ?fd} F"
      using divides_insert [OF divides_insert [OF d new(1)] new(2)] by simp
    then show ?thesis
      using ok eff [OF ok(2)] opened_share [OF ok(2), of "CN_family fid ?dfd ?fd"] by (simp add: moved_def)
  qed
qed

abbreviation steps :: "jni_env \<Rightarrow> step_in \<Rightarrow> int set \<Rightarrow> nat set \<Rightarrow> nat \<Rightarrow> thread \<Rightarrow> client \<Rightarrow> bool" where
  "steps env i F R n t s \<equiv> \<exists>t' s'. micro env i t s = Some (t', s') \<and> moved env F R n t s t' s'"

lemma connect_lock_moves:
  assumes "share F R n CN_lock s" "online s \<or> offline s"
  shows "steps env i F R n CN_lock s"
  using assms by (auto simp: share_defs moved_defs)

lemma connect_family_moves:
  assumes "share F R n (CN_family fid dfd fd) s" "assertion env (CN_family fid dfd fd) s"
  shows "steps env i F R n (CN_family fid dfd fd) s"
  using assms by (auto simp: share_defs moved_defs)

lemma connect_event_moves:
  assumes "share F R n (CN_event dfd fd) s" "assertion env (CN_event dfd fd) s"
  shows "steps env i F R n (CN_event dfd fd) s"
proof -
  have "divides (os_fds s) {} (insert dfd {fd}) F" "dfd \<notin> {fd}"
    using assms by (auto simp: share_defs published_def)
  from divides_publish [OF this] show ?thesis
    using assms by (auto simp: share_defs moved_defs published_def)
qed

lemma connect_fd_moves:
  assumes "share F R n (CN_fd fd) s" "assertion env (CN_fd fd) s"
  shows "steps env i F R n (CN_fd fd) s"
proof -
  have "divides (os_fds s) {g_disconnect_fd s} (insert fd {}) F" "fd \<notin> {}"
    using assms by (auto simp: share_defs published_def)
  from divides_publish [OF this] show ?thesis
    using assms by (auto simp: share_defs moved_defs published_def insert_commute)
qed

lemma disconnect_moves:
  assumes "share F R n DC_lock s" "online s \<or> offline s"
  shows "steps env i F R n DC_lock s"
  using assms by (auto simp: share_defs moved_defs)

lemma disconnect_write_moves:
  assumes "share F R n (DC_write efd) s" "assertion env (DC_write efd) s"
  shows "steps env i F R n (DC_write efd) s"
proof -
  have "efd \<in> os_fds s" using assms by (auto simp: share_defs online_def published_def divides_def)
  then show ?thesis using assms by (auto simp: share_defs moved_defs)
qed

section \<open>The cleanup of the poll loop\<close>

lemma cleanup_lock_moves:
  assumes "share F R n PC_lock s" "online s \<or> offline s"
  shows "steps env i F R n PC_lock s"
proof (cases "online s")
  case True
  then have "divides (os_fds s) {g_disconnect_fd s} {g_fd s} F"
    using assms(1) by (auto simp: share_defs published_def online_def divides_def)
  then show ?thesis using assms True by (auto simp: share_defs moved_defs published_def)
next
  case False
  then show ?thesis using assms by (auto simp: share_defs moved_defs published_def)
qed

lemma cleanup_event_moves:
  assumes "share F R n (PC_event fd) s" "assertion env (PC_event fd) s"
  shows "steps env i F R n (PC_event fd) s"
proof -
  have "divides (os_fds s) {} (nonneg fd \<union> nonneg (g_disconnect_fd s)) F"
    using assms by (auto simp: share_defs published_def divides_def)
  then show ?thesis using assms by (auto simp: share_defs moved_defs published_def)
qed

lemma cleanup_family_moves:
  assumes "share F R n (PC_family fd dfd) s" "assertion env (PC_family fd dfd) s"
  shows "steps env i F R n (PC_family fd dfd) s"
  using assms by (auto simp: share_defs moved_defs)

lemma cleanup_close_moves:
  assumes "share F R n (PC_close fd dfd) s" "assertion env (PC_close fd dfd) s"
  shows "steps env i F R n (PC_close fd dfd) s"
proof (cases "0 \<le> fd")
  case True
  then have d: "divides (os_fds s) (published s) (insert fd (nonneg dfd)) F" "fd \<notin> nonneg dfd"
    using assms by (auto simp: share_defs nonneg_def)
  from divides_remove [OF this] divides_in [OF d(1), of fd] True show ?thesis
    using assms by (auto simp: share_defs moved_defs close_fd_def simp del: filter_filter)
next
  case False
  then show ?thesis using assms by (auto simp: share_defs moved_defs)
qed

lemma cleanup_close_event_moves:
  assumes "share F R n (PC_close_event dfd) s" "assertion env (PC_close_event dfd) s"
  shows "steps env i F R n (PC_close_event dfd) s"
proof (cases "0 \<le> dfd")
  case True
  then have d: "divides (os_fds s) (published s) (insert dfd {}) F" "dfd \<notin> {}"
    using assms by (auto simp: share_defs)
  from divides_remove [OF this] divides_in [OF d(1), of dfd] True show ?thesis
    using assms by (auto simp: share_defs moved_defs close_fd_def simp del: filter_filter)
next
  case False
  then show ?thesis using assms by (auto simp: share_defs moved_defs)
qed

section \<open>Requests\<close>

lemma request_puts_total:
  assumes ok: "nb_ok b h []" "nb_cap b = request_cap q" and name: "takes_string q \<Longrightarrow> 0 \<in> set name \<and> strlen name < 65528"
  shows "\<exists>ok b' as. request_puts q name b = Some (ok, b') \<and> nb_ok b' h as"
proof -
  have len: "nb_len b = 20" using ok(1) by (simp add: nb_ok_def)
  note u32 = put4 [OF ok(1) refl, of "uapi_attr RKX_A_UID", unfolded len, folded putU32_def]
  show ?thesis
  proof (cases q)
    case (Add_net uid)
    then show ?thesis using u32 [of uid] ok(2) by auto
  next
    case (Del_net uid)
    then show ?thesis using u32 [of uid] ok(2) by auto
  next
    case (Add_rule rpcName code strategy)
    with ok(2) name have "nb_cap b = 256" "0 \<in> set name" "strlen name < 65528" by simp_all
    from put_rule_strategy [OF ok(1) this, of code "ucast strategy"] Add_rule show ?thesis
      by (cases "strlen name + 1 \<le> 216") (simp_all only: request_puts.simps if_True if_False, blast+)
  next
    case (Del_rule rpcName code)
    with ok(2) name have "nb_cap b = 256" "0 \<in> set name" "strlen name < 65528" by simp_all
    from put_rule [OF ok(1) this, of code] Del_rule show ?thesis
      by (cases "28 + nla_total_size (strlen name + 1) \<le> 256") (simp_all only: request_puts.simps if_True if_False, blast+)
  qed
qed

lemma request_build_total:
  assumes "length buf = request_cap q" "takes_string q \<longleftrightarrow> rpc_name \<noteq> None" "name_ok rpc_name"
  shows "\<exists>ok m. request_build q family seq buf rpc_name = Some (ok, m) \<and> fst m \<le> length (snd m)"
proof -
  let ?h = "genl_header 0 family NLM_F_REQUEST seq (uapi_cmd (request_cmd q))"
  have cap: "20 \<le> request_cap q" by (cases q) simp_all
  obtain b0 b where b: "nb_new buf (request_cap q) = Some b0"
    "putGenlHeader b0 family seq (uapi_cmd (request_cmd q)) uapi_version = Some b" "nb_ok b ?h []" "nb_cap b = request_cap q"
    using builder_started [OF assms(1) cap] by blast
  have "takes_string q \<Longrightarrow> 0 \<in> set (case rpc_name of None \<Rightarrow> [] | Some n \<Rightarrow> n) \<and> strlen (case rpc_name of None \<Rightarrow> [] | Some n \<Rightarrow> n) < 65528"
    using assms(2,3) by auto
  from request_puts_total [OF b(3,4) this] obtain ok b' as where
    p: "request_puts q (case rpc_name of None \<Rightarrow> [] | Some n \<Rightarrow> n) b = Some (ok, b')" "nb_ok b' ?h as" by blast
  from nb_finish_correct [OF p(2)] p(2) obtain m where "nb_finish b' = Some m" "fst m \<le> length (snd m)"
    by (auto simp: nb_ok_def genl_msg_def)
  then show ?thesis by (simp add: request_build_def b(1,2) p(1))
qed

lemma request_family_moves:
  assumes "share F R n (RQ_family q) s"
  shows "steps env i F R n (RQ_family q) s"
  using assms by (auto simp: share_defs moved_defs)

lemma request_open_cases:
  assumes "name_ok (re_GetStringUTFChars re)"
  shows "request_open q family re s = Some (Returned False, s) \<or>
    \<not> takes_string q \<and> 0 \<le> re_socket re \<and>
      request_open q family re s = Some (RQ_build q family (re_socket re) None, open_fd (re_socket re) s) \<or>
    (\<exists>name. takes_string q \<and> 0 \<le> re_socket re \<and> name_ok (Some name) \<and> request_open q family re s =
      Some (RQ_build q family (re_socket re) (Some name), open_fd (re_socket re) (GetStringUTFChars s)))"
proof (cases "takes_string q")
  case True
  show ?thesis
  proof (cases "re_GetStringUTFChars re")
    case (Some name)
    then have "load8 name 0 = Some (name ! 0)" using assms first_byte [of name] by simp
    with Some True assms show ?thesis by (auto simp: request_open_def release_string Let_def)
  qed (simp add: request_open_def True)
qed (auto simp: request_open_def)

lemma request_open_moves:
  assumes "share F R n (RQ_open q family) s" "input_ok env i (RQ_open q family) s"
  shows "steps env i F R n (RQ_open q family) s"
proof -
  let ?fd = "re_socket (si_req i)"
  have d: "divides (insert ?fd (os_fds s)) (published s) {?fd} F"
    using divides_insert [of "os_fds s" "published s" "{}" F ?fd] assms by (simp add: share_defs)
  consider (refused) "micro env i (RQ_open q family) s = Some (Returned False, s)"
    | (plain) "\<not> takes_string q" "0 \<le> ?fd"
        "micro env i (RQ_open q family) s = Some (RQ_build q family ?fd None, open_fd ?fd s)"
    | (string) name where "takes_string q" "0 \<le> ?fd" "name_ok (Some name)"
        "micro env i (RQ_open q family) s = Some (RQ_build q family ?fd (Some name), open_fd ?fd (GetStringUTFChars s))"
    using assms(2) request_open_cases [of "si_req i" q family s] by (auto simp del: name_ok.simps)
  then show ?thesis
  proof cases
    case refused
    then show ?thesis using assms(1) by (simp add: share_defs moved_defs)
  next
    case plain
    then show ?thesis using assms(1) d by (simp add: share_defs moved_defs open_fd_def del: micro.simps)
  next
    case string
    then show ?thesis using assms(1) d by (simp add: share_defs moved_defs open_fd_def GetStringUTFChars_def del: micro.simps)
  qed
qed

lemma request_build_moves:
  assumes "share F R n (RQ_build q family fd name) s" "assertion env (RQ_build q family fd name) s"
    "input_ok env i (RQ_build q family fd name) s"
  shows "steps env i F R n (RQ_build q family fd name) s"
proof -
  obtain ok m where m: "request_build q family (g_seq s) (re_buf (si_req i)) name = Some (ok, m)" "fst m \<le> length (snd m)"
    using request_build_total [of "re_buf (si_req i)" q name family "g_seq s"] assms(2,3) by auto
  have d: "divides (os_fds s) (published s) (insert fd {}) F" "fd \<notin> {}" using assms(1) by (auto simp: share_defs)
  have fd: "fd \<in> os_fds s" "divides (os_fds s - {fd}) (published s) {} F"
    using divides_in [OF d(1)] divides_remove [OF d] by auto
  have js: "jv_strings s = n + (if name \<noteq> None then 1 else 0)" using assms(1) by (simp add: share_defs)
  show ?thesis
    using assms(1,2) m fd js
    by (cases ok; cases name)
       (auto simp: share_defs moved_defs next_seq_def ReleaseStringUTFChars_def close_fd_def simp del: filter_filter)
qed

lemma request_send_moves:
  assumes "share F R n (RQ_send fd m) s" "assertion env (RQ_send fd m) s"
  shows "steps env i F R n (RQ_send fd m) s"
proof -
  have d: "divides (os_fds s) (published s) (insert fd {}) F" "fd \<notin> {}" using assms(1) by (auto simp: share_defs)
  have fd: "fd \<in> os_fds s" "divides (os_fds s - {fd}) (published s) {} F"
    using divides_in [OF d(1)] divides_remove [OF d] by auto
  show ?thesis
    using assms fd
    by (auto simp: send_close_def sendto_fits close_fd_def share_defs moved_defs simp del: filter_filter)
qed

section \<open>The poll loop\<close>

lemma poll_fd_moves:
  assumes "share F R n (PE_fd rbuf) s" "assertion env (PE_fd rbuf) s" "online s \<or> g_fd s < 0"
  shows "steps env i F R n (PE_fd rbuf) s"
  using assms by (auto simp: share_defs moved_defs)

lemma poll_event_moves:
  assumes "share F R n (PE_event rbuf fd) s" "assertion env (PE_event rbuf fd) s"
  shows "steps env i F R n (PE_event rbuf fd) s"
  using assms by (auto simp: share_defs moved_defs)

lemma online_fds: "share F R n t s \<Longrightarrow> online s \<Longrightarrow> g_fd s \<in> os_fds s \<and> g_disconnect_fd s \<in> os_fds s"
  by (auto simp: share_defs published_def divides_def online_def)

lemma poll_poll_moves:
  assumes "share F R n (PE_poll rbuf fd dfd) s" "assertion env (PE_poll rbuf fd dfd) s" "input_ok env i (PE_poll rbuf fd dfd) s"
  shows "steps env i F R n (PE_poll rbuf fd dfd) s"
  using assms online_fds [OF assms(1)] by (auto simp: share_defs moved_defs)

lemma poll_read_moves:
  assumes "share F R n (PE_read dfd) s" "assertion env (PE_read dfd) s"
  shows "steps env i F R n (PE_read dfd) s"
  using assms online_fds [OF assms(1)] by (auto simp: share_defs moved_defs)

lemma poll_recv_moves:
  assumes "share F R n (PE_recv rbuf fd) s" "assertion env (PE_recv rbuf fd) s" "input_ok env i (PE_recv rbuf fd) s"
  shows "steps env i F R n (PE_recv rbuf fd) s"
proof -
  let ?r = "pi_recv (si_poll i)"
  have l: "length (recv_into rbuf ?r) = 8192"
    using assms(2,3) recv_into_length [of rbuf ?r] by (simp add: poll_input_ok_def)
  have "\<exists>ns. messages env (recv_into rbuf ?r) 0 ns \<and> fst ?r = int (sum_list ns)" if pos: "0 < fst ?r"
  proof -
    obtain ns where ns: "datagram_shape env (snd ?r) ns" "fst ?r = int (length (snd ?r))" "length (snd ?r) \<le> 8192"
      using assms(3) pos by (auto simp: poll_input_ok_def recv_ok_def)
    then have "messages env (recv_into rbuf ?r) 0 ns"
      using l pos datagram_shape_append [OF ns(1)] by (auto simp: messages_def recv_into_def datagram_shape_def)
    with ns show ?thesis by (auto simp: datagram_shape_def)
  qed
  then show ?thesis
    using assms(1,2) l online_fds [OF assms(1)] by (auto simp: share_defs moved_defs Let_def)
qed

lemma poll_callback_moves:
  assumes "share F R n (PE_callback rbuf rlen) s" "assertion env (PE_callback rbuf rlen) s"
  shows "steps env i F R n (PE_callback rbuf rlen) s"
proof -
  have "set_option (g_callback s) \<subseteq> jv_globals s" using assms(1) by (auto simp: share_defs roots_def divides_def)
  moreover have "length rbuf = 8192" using assms(2) by (auto simp: messages_def)
  ultimately show ?thesis using assms by (auto simp: share_defs moved_defs)
qed

text \<open>The next message of the datagram.\<close>

lemma message_next:
  assumes ms: "messages env rbuf nlh (m # ms)" and j: "\<not> jn_exception (jv_env s)" and env: "strings_ok env"
  shows "\<exists>j'. micro env i (PE_message rbuf nlh (of_nat (sum_list (m # ms)))) s =
      Some (PE_message rbuf (nlh + m) (of_nat (sum_list ms)), s\<lparr>jv_env := j'\<rparr>) \<and>
    settled (jv_env s) j' \<and> messages env rbuf (nlh + m) ms \<and> 0 < m"
proof -
  have m: "nlmsg_len rbuf nlh = Some (of_nat m)" "16 \<le> m" "4 dvd m" "m \<le> sum_list (m # ms)" "sum_list (m # ms) < 2 ^ 31"
    "nlh + m \<le> length rbuf" "m < 2 ^ 31" "silent env \<or> lone_payload rbuf (nlh + 20) (int m - 20)"
    "messages env rbuf (nlh + m) ms" "sum_list (m # ms) - m = sum_list ms"
    using ms by (auto simp: messages_def)
  obtain j' where j': "handle_event env (g_family_id s) rbuf nlh (jv_env s) = Some j'" "settled (jv_env s) j'"
    using handle_event_in [OF m(1,2,6,7) env j m(8)] by blast
  note st = nlmsg_step [OF m(1-5)]
  have "micro env i (PE_message rbuf nlh (of_nat (sum_list (m # ms)))) s =
      Some (PE_message rbuf (nlh + m) (of_nat (sum_list ms)), s\<lparr>jv_env := j'\<rparr>)"
    using st j'(1) by (simp add: message_step_def m(10) del: sum_list.Cons)
  with j'(2) m(2,9) show ?thesis by (intro exI [of _ j'] conjI) simp_all
qed

lemma message_last:
  assumes "\<not> jn_exception (jv_env s)" "jn_locals (jv_env s) = 1"
  shows "micro env i (PE_message rbuf nlh 0) s = Some (PE_fd rbuf, s\<lparr>jv_env := (jv_env s)\<lparr>jn_locals := 0\<rparr>\<rparr>)"
  using assms by (simp add: message_step_def NLMSG_OK_def DeleteLocalRef_def)

lemma poll_message_moves:
  assumes "share F R n (PE_message rbuf nlh rlen) s" "assertion env (PE_message rbuf nlh rlen) s" "strings_ok env"
  shows "steps env i F R n (PE_message rbuf nlh rlen) s"
proof -
  obtain ns where ns: "messages env rbuf nlh ns" "rlen = of_nat (sum_list ns)" using assms(2) by auto
  have j: "\<not> jn_exception (jv_env s)" "jn_locals (jv_env s) = 1" using assms(1) by (simp_all add: share_defs)
  show ?thesis
  proof (cases ns)
    case Nil
    then show ?thesis
      using assms(1) ns message_last [OF j] by (simp add: share_defs moved_defs messages_def del: micro.simps)
  next
    case (Cons m ms)
    with ns message_next [OF _ j(1) assms(3)] obtain j' where
      "micro env i (PE_message rbuf nlh rlen) s = Some (PE_message rbuf (nlh + m) (of_nat (sum_list ms)), s\<lparr>jv_env := j'\<rparr>)"
      "settled (jv_env s) j'" "messages env rbuf (nlh + m) ms" by blast
    then show ?thesis
      using assms(1) j(2) by (auto simp: share_defs moved_defs settled_def kept_def simp del: micro.simps)
  qed
qed

end
