(* ===== verification/Rkx_Client_System.thy ===== *)
theory Rkx_Client_System
  imports Rkx_Client_Race
begin

text \<open>
  The threads of the application in the client. Each thread calls one operation after another; the steps of all
  threads interleave in any order, except that a step into the scope of \<^verbatim>\<open>g_conn_mutex\<close> waits until
  no other thread is inside. \<open>reachable\<close> are the states after the library was loaded, \<open>trace\<close> the runs from a
  state. The invariant puts the step lemmas of \<open>Rkx_Client_Race\<close> together; the properties are the safety of
  every interleaving, the end of the poll loop after a disconnection, and two races that remain.
\<close>

section \<open>Calls and turns\<close>

datatype call = Call_setCallback bool | Call_connect | Call_disconnect | Call_request request | Call_pollEvent bytes

fun entry :: "call \<Rightarrow> thread" where
  "entry (Call_setCallback callback) = SC_new callback"
| "entry Call_connect = CN_lock"
| "entry Call_disconnect = DC_lock"
| "entry (Call_request q) = RQ_family q"
| "entry (Call_pollEvent rbuf) = PE_fd rbuf"

fun call_ok :: "call \<Rightarrow> bool" where
  "call_ok (Call_pollEvent rbuf) \<longleftrightarrow> length rbuf = 8192"
| "call_ok _ \<longleftrightarrow> True"

lemma entry_assertion: "call_ok c \<Longrightarrow> assertion env (entry c) s"
  by (cases c) simp_all

fun returned :: "thread \<Rightarrow> bool" where
  "returned (Returned r) \<longleftrightarrow> True"
| "returned _ \<longleftrightarrow> False"

lemma returned_idle: "returned t \<Longrightarrow> \<not> polling t \<and> \<not> holds t \<and> \<not> acquires t"
  by (cases t) simp_all

datatype action = Enter call | Advance step_in

type_synonym system = "(nat \<Rightarrow> thread) \<times> client"

fun turn :: "jni_env \<Rightarrow> nat \<Rightarrow> action \<Rightarrow> system \<Rightarrow> system option" where
  "turn env k (Enter c) (ts, s) = Some (ts(k := entry c), s)"
| "turn env k (Advance i) (ts, s) = map_option (\<lambda>(t, s). (ts(k := t), s)) (micro env i (ts k) s)"

text \<open>
  A thread outside of the client may call, with an array of any content on its stack in \<^verbatim>\<open>pollEvent\<close>; with
  \<open>one\<close>, only if no other thread is in \<^verbatim>\<open>pollEvent\<close>. A thread inside may step unless it waits for the mutex.
\<close>

definition waits :: "nat \<Rightarrow> (nat \<Rightarrow> thread) \<Rightarrow> bool" where
  "waits k ts \<longleftrightarrow> acquires (ts k) \<and> (\<exists>l. l \<noteq> k \<and> holds (ts l))"

fun enabled :: "jni_env \<Rightarrow> bool \<Rightarrow> nat \<Rightarrow> action \<Rightarrow> system \<Rightarrow> bool" where
  "enabled env one k (Enter c) (ts, s) \<longleftrightarrow> returned (ts k) \<and> call_ok c \<and>
     (one \<and> polling (entry c) \<longrightarrow> (\<forall>l. \<not> polling (ts l)))"
| "enabled env one k (Advance i) (ts, s) \<longleftrightarrow> \<not> returned (ts k) \<and> \<not> waits k ts \<and> input_ok env i (ts k) s"

inductive reachable :: "jni_env \<Rightarrow> bool \<Rightarrow> system \<Rightarrow> bool" for env one where
  loaded: "JNI_OnLoad le client_init = Some (JNI_VERSION_1_6, s) \<Longrightarrow> reachable env one (\<lambda>_. Returned True, s)"
| turned: "reachable env one st \<Longrightarrow> enabled env one k a st \<Longrightarrow> turn env k a st = Some st' \<Longrightarrow> reachable env one st'"

section \<open>The invariant\<close>

lemma returned_moves: "share F R n (Returned r) s \<Longrightarrow> steps env i F R n (Returned r) s"
  by (simp add: moved_defs)

lemmas step_moves = returned_moves callback_new_moves callback_swap_moves callback_delete_moves connect_lock_moves
  connect_open_moves connect_family_moves connect_event_moves connect_fd_moves disconnect_moves disconnect_write_moves
  request_family_moves request_open_moves request_build_moves request_send_moves poll_fd_moves poll_event_moves
  poll_poll_moves poll_read_moves poll_recv_moves poll_callback_moves poll_message_moves cleanup_lock_moves
  cleanup_event_moves cleanup_family_moves cleanup_close_moves cleanup_close_event_moves

lemma micro_ok:
  assumes "assertion env t s" "share F R n t s" "acquires t \<longrightarrow> online s \<or> offline s" "online s \<or> g_fd s < 0"
    and "input_ok env i t s" "strings_ok env"
  shows "steps env i F R n t s"
  using assms by (cases t) (hypsubst, rule step_moves; simp)+

definition exclusive :: "(thread \<Rightarrow> bool) \<Rightarrow> (nat \<Rightarrow> thread) \<Rightarrow> bool" where
  "exclusive p ts \<longleftrightarrow> (\<forall>k l. p (ts k) \<and> p (ts l) \<longrightarrow> k = l)"

definition strings_owned :: "(nat \<Rightarrow> thread) \<Rightarrow> client \<Rightarrow> bool" where
  "strings_owned ts s \<longleftrightarrow> finite {k. own_string (ts k)} \<and> jv_strings s = card {k. own_string (ts k)}"

definition refs_owned :: "(nat \<Rightarrow> thread) \<Rightarrow> client \<Rightarrow> bool" where
  "refs_owned ts s \<longleftrightarrow> g_cbClass s \<noteq> None \<and> g_callback s \<noteq> g_cbClass s \<and>
     portions (jv_globals s) (roots s) (\<lambda>k. own_refs (ts k)) \<and> \<not> jn_exception (jv_env s) \<and>
     jn_locals (jv_env s) = (if \<exists>k. dispatching (ts k) then 1 else 0)"

definition fds_owned :: "(nat \<Rightarrow> thread) \<Rightarrow> client \<Rightarrow> bool" where
  "fds_owned ts s \<longleftrightarrow> portions (os_fds s) (published s) (\<lambda>k. own_fds (ts k))"

fun threads_inv :: "jni_env \<Rightarrow> system \<Rightarrow> bool" where
  "threads_inv env (ts, s) \<longleftrightarrow> (\<forall>k. assertion env (ts k) s) \<and> fds_owned ts s \<and> refs_owned ts s \<and> strings_owned ts s \<and>
     exclusive holds ts \<and> exclusive polling ts \<and> ((\<forall>k. \<not> holds (ts k)) \<longrightarrow> online s \<or> offline s)"

lemma exclusiveD: "exclusive p ts \<Longrightarrow> p (ts k) \<Longrightarrow> p (ts l) \<Longrightarrow> k = l"
  by (auto simp: exclusive_def)

lemma dispatching_polling: "dispatching t \<Longrightarrow> polling t"
  by (cases t) simp_all

lemma poller_dispatching:
  assumes "polling (ts k)" "exclusive polling ts"
  shows "(\<exists>l. dispatching (ts l)) \<longleftrightarrow> dispatching (ts k)"
  using assms exclusiveD [of polling ts _ k] dispatching_polling by blast

lemma holder_fd: "holds t \<Longrightarrow> assertion env t s \<Longrightarrow> online s \<or> g_fd s < 0"
  by (cases t) (auto simp: offline_def)

lemma inv_fd:
  assumes "threads_inv env (ts, s)"
  shows "online s \<or> g_fd s < 0"
proof (cases "\<exists>k. holds (ts k)")
  case True
  with assms holder_fd show ?thesis by auto
next
  case False
  with assms show ?thesis by (auto simp: offline_def)
qed

text \<open>The number of strings of the others.\<close>

definition others_strings :: "nat \<Rightarrow> (nat \<Rightarrow> thread) \<Rightarrow> nat" where
  "others_strings k ts = card ({l. own_string (ts l)} - {k})"

lemma strings_split:
  assumes "finite {l. own_string (ts l)}"
  shows "card {l. own_string (ts l)} = others_strings k ts + (if own_string (ts k) then 1 else 0)"
proof (cases "own_string (ts k)")
  case True
  then show ?thesis using card_Suc_Diff1 [OF assms, of k] by (simp add: others_strings_def)
next
  case False
  then have "{l. own_string (ts l)} - {k} = {l. own_string (ts l)}" by auto
  with False show ?thesis by (simp add: others_strings_def)
qed

lemma others_update [simp]: "others_strings k (ts(k := t)) = others_strings k ts"
proof -
  have "{l. own_string ((ts(k := t)) l)} - {k} = {l. own_string (ts l)} - {k}" by auto
  then show ?thesis by (simp only: others_strings_def)
qed

lemma strings_owned_update:
  assumes "strings_owned ts s" "jv_strings s' = others_strings k ts + (if own_string t then 1 else 0)"
  shows "strings_owned (ts(k := t)) s'"
proof -
  have f: "finite {l. own_string ((ts(k := t)) l)}"
    by (rule finite_subset [of _ "insert k {l. own_string (ts l)}"]) (use assms(1) in \<open>auto simp: strings_owned_def\<close>)
  with strings_split [OF f, of k] assms(2) show ?thesis by (simp add: strings_owned_def del: fun_upd_apply) simp
qed

abbreviation share_of :: "nat \<Rightarrow> (nat \<Rightarrow> thread) \<Rightarrow> thread \<Rightarrow> client \<Rightarrow> bool" where
  "share_of k ts \<equiv> share (\<Union>l\<in>-{k}. own_fds (ts l)) (\<Union>l\<in>-{k}. own_refs (ts l)) (others_strings k ts)"

lemma inv_share:
  assumes "threads_inv env (ts, s)"
  shows "share_of k ts (ts k) s"
proof -
  have i: "fds_owned ts s" "refs_owned ts s" "strings_owned ts s" "exclusive polling ts" using assms by simp_all
  have "polling (ts k) \<longrightarrow> jn_locals (jv_env s) = (if dispatching (ts k) then 1 else 0)"
    using i(2,4) poller_dispatching [of ts k] by (auto simp: refs_owned_def)
  moreover have "jv_strings s = others_strings k ts + (if own_string (ts k) then 1 else 0)"
    using i(3) strings_split [of ts k] by (simp add: strings_owned_def)
  ultimately show ?thesis
    using i(1,2) portions_divides [of "os_fds s" "published s" "\<lambda>l. own_fds (ts l)" k]
      portions_divides [of "jv_globals s" "roots s" "\<lambda>l. own_refs (ts l)" k]
    by (simp add: share_defs fds_owned_def refs_owned_def)
qed

lemma portions_upd:
  "portions A P (\<lambda>l. f (ts l)) \<Longrightarrow> divides A' P' (f t) (\<Union>l\<in>-{k}. f (ts l)) \<Longrightarrow> portions A' P' (\<lambda>l. f ((ts(k := t)) l))"
  using portions_update [of A P "\<lambda>l. f (ts l)" A' P' "f t" k] by (simp add: fun_upd_def if_distrib cong: if_cong)

lemma refs_owned_update:
  assumes own: "refs_owned ts s" "share_of k ts t s'" and old: "\<not> polling t \<Longrightarrow> jv_env s' = jv_env s \<and> \<not> dispatching (ts k)"
    and poll: "exclusive polling (ts(k := t))"
  shows "refs_owned (ts(k := t)) s'"
proof -
  have "jn_locals (jv_env s') = (if \<exists>l. dispatching ((ts(k := t)) l) then 1 else 0)"
  proof (cases "polling t")
    case True
    with poller_dispatching [of "ts(k := t)" k, OF _ poll] own(2) show ?thesis by (simp add: share_defs)
  next
    case False
    then have "dispatching ((ts(k := t)) l) = dispatching (ts l)" for l
      using old dispatching_polling [of t] by (cases "l = k") auto
    with False old own(1) show ?thesis by (simp add: refs_owned_def)
  qed
  moreover have "portions (jv_globals s') (roots s') (\<lambda>l. own_refs ((ts(k := t)) l))"
    by (rule portions_upd) (use own in \<open>auto simp: refs_owned_def share_defs\<close>)
  ultimately show ?thesis using own by (simp add: refs_owned_def share_defs del: fun_upd_apply)
qed

text \<open>One thread moves on; the others stay where they are.\<close>

lemma inv_update:
  assumes inv: "threads_inv env (ts, s)" and run: "\<not> waits k ts"
    and new: "assertion env t s'" "share_of k ts t s'" "effect (ts k) s s'"
    and lock: "holds t \<Longrightarrow> holds (ts k) \<or> acquires (ts k)"
      "(holds (ts k) \<or> acquires (ts k)) \<and> \<not> holds t \<Longrightarrow> online s' \<or> offline s'"
    and poll: "polling t \<Longrightarrow> (\<forall>l. l \<noteq> k \<longrightarrow> \<not> polling (ts l))" "\<not> polling t \<Longrightarrow> jv_env s' = jv_env s \<and> \<not> dispatching (ts k)"
  shows "threads_inv env (ts(k := t), s')"
proof -
  have i: "assertion env (ts l) s" "fds_owned ts s" "refs_owned ts s" "strings_owned ts s" "exclusive holds ts"
    "exclusive polling ts" for l using inv by simp_all
  have excl: "\<not> holds (ts k) \<and> \<not> acquires (ts k)" if "l \<noteq> k" "holds (ts l)" for l
    using exclusiveD [OF i(5)] run that by (auto simp: waits_def)
  have "assertion env ((ts(k := t)) l) s'" for l
    using new(1) assertion_stable [OF i(1) [of l] new(3)] excl [of l] exclusiveD [OF i(6), of l k] by (cases "l = k") auto
  moreover have "exclusive holds (ts(k := t))"
    using i(5) lock(1) excl by (auto simp: exclusive_def)
  moreover have p: "exclusive polling (ts(k := t))"
    using i(6) poll(1) by (auto simp: exclusive_def)
  moreover have "fds_owned (ts(k := t)) s'"
    unfolding fds_owned_def by (rule portions_upd) (use i(2) new(2) in \<open>auto simp: fds_owned_def share_defs\<close>)
  moreover have "strings_owned (ts(k := t)) s'"
    using strings_owned_update [OF i(4)] new(2) by (simp add: share_defs)
  moreover have "online s' \<or> offline s'" if none: "\<forall>l. \<not> holds ((ts(k := t)) l)"
  proof (cases "holds (ts k) \<or> acquires (ts k)")
    case True
    with lock(2) none [rule_format, of k] show ?thesis by simp
  next
    case False
    then have "\<forall>l. \<not> holds (ts l)" using none by (metis fun_upd_other)
    with inv False new(3) show ?thesis by (auto simp: effect_def same_conn_online)
  qed
  ultimately show ?thesis using refs_owned_update [OF i(3) new(2) poll(2) p] by (simp del: fun_upd_apply)
qed

lemma acquires_free: "acquires (ts k) \<Longrightarrow> \<not> waits k ts \<Longrightarrow> \<not> holds (ts l)"
  by (cases "l = k"; cases "ts k") (auto simp: waits_def)

lemma advance_ok:
  assumes inv: "threads_inv env (ts, s)" and en: "enabled env one k (Advance i) (ts, s)" and str: "strings_ok env"
  shows "\<exists>t' s'. micro env i (ts k) s = Some (t', s') \<and> effect (ts k) s s' \<and> threads_inv env (ts(k := t'), s')"
proof -
  have lock: "acquires (ts k) \<longrightarrow> online s \<or> offline s" using en inv acquires_free [of ts k] by auto
  have pre: "assertion env (ts k) s" "input_ok env i (ts k) s" using inv en by simp_all
  obtain t' s' where m: "micro env i (ts k) s = Some (t', s')"
    "moved env (\<Union>l\<in>-{k}. own_fds (ts l)) (\<Union>l\<in>-{k}. own_refs (ts l)) (others_strings k ts) (ts k) s t' s'"
    using micro_ok [OF pre(1) inv_share [OF inv] lock inv_fd [OF inv] pre(2) str] by blast
  have i: "exclusive polling ts" using inv by simp
  have dispatch: "dispatching (ts k) \<Longrightarrow> polling t'"
    using m by (cases "ts k") (auto simp: message_step_def split: bind_splits if_splits)
  have "threads_inv env (ts(k := t'), s')"
    by (rule inv_update [OF inv]) (use m(2) i en dispatch in \<open>auto simp: moved_def dest: exclusiveD\<close>)
  with m show ?thesis by (auto simp: moved_def)
qed

lemma enter_ok:
  assumes inv: "threads_inv env (ts, s)" and en: "enabled env True k (Enter c) (ts, s)"
  shows "threads_inv env (ts(k := entry c), s)"
proof -
  obtain r where r: "ts k = Returned r" using en by (cases "ts k") auto
  have "share_of k ts (entry c) s" "\<not> holds (entry c)"
    using inv_share [OF inv, of k] r en inv
    by (cases c; simp add: share_defs; auto simp: refs_owned_def dest: dispatching_polling)+
  then show ?thesis
    by (intro inv_update [OF inv]) (use r en entry_assertion in \<open>auto simp: effect_def same_conn_def waits_def\<close>)
qed

lemma turn_inv:
  assumes "threads_inv env st" "enabled env True k a st" "turn env k a st = Some st'" "strings_ok env"
  shows "threads_inv env st'"
proof (cases a)
  case (Enter c)
  with assms show ?thesis by (cases st) (auto simp: enter_ok simp del: threads_inv.simps enabled.simps)
next
  case (Advance i)
  with assms show ?thesis
    by (cases st) (auto dest: advance_ok simp del: threads_inv.simps enabled.simps)
qed

lemma loaded_inv:
  assumes "JNI_OnLoad le client_init = Some (JNI_VERSION_1_6, s)"
  shows "threads_inv env (\<lambda>_. Returned True, s)"
proof -
  have off: "g_fd s = -1" "g_disconnect_fd s = -1" "g_family_id s = 0" "os_fds s = {}"
    using assms by (auto simp: JNI_OnLoad_def Let_def JNI_ERR_def JNI_VERSION_1_6_def new_global_def client_init_def split: if_splits option.splits)
  have "java_inv s" using onload_inv [OF assms] by (simp add: client_inv_def)
  with off show ?thesis
    by (simp add: fds_owned_def refs_owned_def strings_owned_def portions_def published_def roots_def java_inv_def
        offline_def exclusive_def)
qed

lemma reachable_threads: "reachable env True st \<Longrightarrow> strings_ok env \<Longrightarrow> threads_inv env st"
proof (induction rule: reachable.induct)
  case (loaded le s)
  then show ?case by (intro loaded_inv)
next
  case (turned st k a st')
  then show ?case by (blast intro: turn_inv)
qed

section \<open>Runs, and the end of the poll loop\<close>

inductive trace :: "jni_env \<Rightarrow> bool \<Rightarrow> system \<Rightarrow> (nat \<times> action) list \<Rightarrow> system \<Rightarrow> bool" for env one where
  stop: "trace env one st [] st"
| turn: "enabled env one k a st \<Longrightarrow> turn env k a st = Some st1 \<Longrightarrow> trace env one st1 tr st2 \<Longrightarrow>
    trace env one st ((k, a) # tr) st2"

inductive_cases trace_ConsE: "trace env one st ((k, a) # tr) st2"

text \<open>A thread in \<^verbatim>\<open>pollEvent\<close> that will find the eventfd readable, or has left the loop already.\<close>

definition woken :: "thread \<Rightarrow> client \<Rightarrow> bool" where
  "woken t s \<longleftrightarrow> polling t \<and> (leaving t \<or> online s \<and> 0 < os_event s)"

text \<open>At most that many steps are left to it, if \<^verbatim>\<open>poll\<close> is not interrupted.\<close>

fun rank :: "thread \<Rightarrow> nat" where
  "rank (PE_recv rbuf fd) = 8204"
| "rank (PE_callback rbuf rlen) = 11 + nat rlen"
| "rank (PE_message rbuf nlh rlen) = 10 + unat rlen"
| "rank (PE_fd rbuf) = 9"
| "rank (PE_event rbuf fd) = 8"
| "rank (PE_poll rbuf fd disconnect_fd) = 7"
| "rank (PE_read disconnect_fd) = 6"
| "rank PC_lock = 5"
| "rank (PC_event fd) = 4"
| "rank (PC_family fd disconnect_fd) = 3"
| "rank (PC_close fd disconnect_fd) = 2"
| "rank (PC_close_event disconnect_fd) = 1"
| "rank _ = 0"

fun uninterrupted :: "nat \<times> action \<Rightarrow> bool" where
  "uninterrupted (k, Enter c) \<longleftrightarrow> True"
| "uninterrupted (k, Advance i) \<longleftrightarrow> 0 \<le> pi_poll (si_poll i)"

lemma messages_bound: "messages env rbuf nlh ns \<Longrightarrow> sum_list ns \<le> 8192"
  by (simp add: messages_def)

lemma unat_length: "n \<le> 8192 \<Longrightarrow> unat (of_nat n :: s32) = n"
  by (simp add: unat_of_nat)

lemma rank_bound: "assertion env t s \<Longrightarrow> rank t \<le> 8204"
  by (cases t) (auto dest!: messages_bound simp: unat_length)

lemma woken_rank: "woken t s \<Longrightarrow> 0 < rank t"
  by (cases t) (auto simp: woken_def)

lemma message_rank:
  assumes "assertion env (PE_message rbuf nlh rlen) s" "\<not> jn_exception (jv_env s)" "jn_locals (jv_env s) = 1" "strings_ok env"
    and "micro env i (PE_message rbuf nlh rlen) s = Some (t', s')"
  shows "rank t' < 10 + unat rlen \<and> polling t' \<and> same_conn s s' \<and> os_event s' = os_event s"
proof -
  obtain ns where ns: "messages env rbuf nlh ns" "rlen = of_nat (sum_list ns)" using assms(1) by auto
  show ?thesis
  proof (cases ns)
    case Nil
    then show ?thesis using assms(5) ns message_last [OF assms(2,3)] by (auto simp: same_conn_def simp del: micro.simps)
  next
    case (Cons m ms)
    with ns message_next [OF _ assms(2,4)] obtain j' where
      "micro env i (PE_message rbuf nlh rlen) s = Some (PE_message rbuf (nlh + m) (of_nat (sum_list ms)), s\<lparr>jv_env := j'\<rparr>)"
      "0 < m" by blast
    moreover have "sum_list ms + m \<le> 8192" using messages_bound [OF ns(1)] Cons by simp
    ultimately show ?thesis
      using assms(5) ns(2) Cons by (auto simp: unat_length same_conn_def simp del: micro.simps of_nat_add)
  qed
qed

lemma rank_step:
  assumes "assertion env t s" "woken t s" "share F R n t s" "input_ok env i t s" "0 \<le> pi_poll (si_poll i)" "strings_ok env"
    and m: "micro env i t s = Some (t', s')"
  shows "rank t' < rank t \<and> (woken t' s' \<or> t' = Returned True \<and> offline s')"
proof (cases t)
  case (PE_message rbuf nlh rlen)
  have "\<not> jn_exception (jv_env s)" "jn_locals (jv_env s) = 1" using assms(3) PE_message by (simp_all add: share_defs)
  from message_rank [OF _ this assms(6), of rbuf nlh rlen i t' s'] assms PE_message
  show ?thesis by (auto simp: woken_def same_conn_online simp del: micro.simps)
next
  case (PE_callback rbuf rlen)
  then obtain ns where "rlen = int (sum_list ns)" "sum_list ns \<le> 8192" using assms(1) messages_bound by auto
  with PE_callback assms show ?thesis by (auto simp: woken_def online_def unat_length split: if_splits)
next
  case (PE_recv rbuf fd)
  with assms show ?thesis
    by (auto simp: woken_def Let_def poll_input_ok_def recv_ok_def split: if_splits)
next
  case (PC_close fd disconnect_fd)
  with assms show ?thesis by (auto simp: woken_def split: if_splits)
next
  case (PC_close_event disconnect_fd)
  with assms show ?thesis by (auto simp: offline_def close_fd_def split: if_splits)
qed (use assms in \<open>auto simp: woken_def split: if_splits\<close>)

lemma woken_other:
  assumes "effect t s s'" "\<not> polling t" "woken t' s"
  shows "woken t' s'"
proof (cases "leaving t'")
  case False
  with assms have "polling t'" "online s" "0 < os_event s" by (auto simp: woken_def)
  moreover from this assms(1,2) have "same_conn s s'" "os_event s \<le> os_event s'" by (auto simp: effect_def)
  ultimately show ?thesis using same_conn_online(1) by (auto simp: woken_def)
qed (use assms in \<open>simp add: woken_def\<close>)

text \<open>Whatever the other threads do meanwhile.\<close>

lemma poller_returns:
  "trace env True st tr st' \<Longrightarrow> threads_inv env st \<Longrightarrow> strings_ok env \<Longrightarrow> woken (fst st k) (snd st) \<Longrightarrow>
    list_all uninterrupted tr \<Longrightarrow> rank (fst st k) \<le> length (filter (\<lambda>(l, a). l = k) tr) \<Longrightarrow>
    \<exists>tr1 tr2 st1. tr = tr1 @ tr2 \<and> trace env True st tr1 st1 \<and> fst st1 k = Returned True \<and> offline (snd st1)"
proof (induction rule: trace.induct)
  case (stop st)
  then show ?case using woken_rank by fastforce
next
  case (turn l a st st1 tr st2)
  obtain ts s where st: "st = (ts, s)" by (cases st)
  note inv = turn_inv [OF turn.prems(1) turn.hyps(1,2) turn.prems(2)]
  have goal: ?case if "woken (fst st1 k) (snd st1)" "rank (fst st1 k) \<le> length (filter (\<lambda>(l, a). l = k) tr)"
  proof -
    from turn.IH [OF inv turn.prems(2) that(1) _ that(2)] turn.prems(4) obtain tr1 tr2 st3 where
      "tr = tr1 @ tr2" "trace env True st1 tr1 st3" "fst st3 k = Returned True" "offline (snd st3)" by auto
    then show ?thesis using trace.turn [OF turn.hyps(1,2), of tr1 st3]
      by (intro exI [of _ "(l, a) # tr1"] exI [of _ tr2] exI [of _ st3]) simp
  qed
  show ?case
  proof (cases a)
    case (Enter c)
    then have "l \<noteq> k" "st1 = (ts(l := entry c), s)"
      using turn.hyps(1,2) turn.prems(3) st returned_idle by (auto simp: woken_def)
    with goal turn.prems st show ?thesis by simp
  next
    case (Advance i)
    then obtain t' s' where m: "micro env i (ts l) s = Some (t', s')" "effect (ts l) s s'" "st1 = (ts(l := t'), s')"
      using advance_ok [of env ts s True l i] turn.hyps(1,2) turn.prems(1,2) st by auto
    show ?thesis
    proof (cases "l = k")
      case True
      have "rank t' < rank (ts k) \<and> (woken t' s' \<or> t' = Returned True \<and> offline s')"
        using rank_step [OF _ _ inv_share [of env ts s k], of env i t' s'] m(1) True Advance turn.hyps(1) turn.prems st
        by auto
      then consider "woken t' s'" "rank t' < rank (ts k)" | "t' = Returned True" "offline s'" by blast
      then show ?thesis
      proof cases
        case 1
        then show ?thesis using goal turn.prems(5) True m(3) st by simp
      next
        case 2
        then show ?thesis
          using trace.turn [OF turn.hyps(1,2) trace.stop] m(3) True by (intro exI [of _ "[(l, a)]"] exI [of _ tr] exI [of _ st1]) simp
      qed
    next
      case False
      have "\<not> polling (ts l)"
        using turn.prems(1,3) False st by (auto simp: woken_def dest: exclusiveD)
      with woken_other [OF m(2)] goal turn.prems(3,5) False m(3) st show ?thesis by simp
    qed
  qed
qed

section \<open>A sample run\<close>

lemma reach_enter:
  "reachable env one (ts, s) \<Longrightarrow> enabled env one k (Enter c) (ts, s) \<Longrightarrow> reachable env one (ts(k := entry c), s)"
  using turned [of env one "(ts, s)" k "Enter c"] by simp

lemma reach_advance:
  assumes "reachable env one (ts, s)" "enabled env one k (Advance i) (ts, s)" "micro env i (ts k) s = Some (t', s')"
  shows "reachable env one (ts(k := t'), s')"
  using turned [OF assms(1,2)] assms(3) by simp

lemma trace_advance:
  assumes "enabled env one k (Advance i) (ts, s)" "micro env i (ts k) s = Some (t', s')"
    and "trace env one (ts(k := t'), s') tr st2"
  shows "trace env one (ts, s) ((k, Advance i) # tr) st2"
  using turn [OF assms(1) _ assms(3)] assms(2) by simp

lemma reach_trace: "trace env one st tr st' \<Longrightarrow> reachable env one st \<Longrightarrow> reachable env one st'"
  by (induction rule: trace.induct) (auto intro: turned)

lemma sample_loaded: "reachable env one (\<lambda>_. Returned True, loaded_client)"
proof (rule loaded)
  show "JNI_OnLoad sample_load client_init = Some (JNI_VERSION_1_6, loaded_client)"
    by (simp add: JNI_OnLoad_def sample_load_def loaded_client_def client_init_def new_global_def Let_def)
qed

definition sample_online :: "client \<Rightarrow> bool" where
  "sample_online s \<longleftrightarrow> g_fd s = 7 \<and> g_disconnect_fd s = 8 \<and> g_family_id s = 28 \<and> os_fds s = {8, 7}"

lemma sample_connect_open:
  "\<exists>s. connect_open (sample_conn 0) loaded_client = Some (Some (28, 8, 7), s) \<and>
     sample_online (s\<lparr>g_family_id := 28, g_disconnect_fd := 8, g_fd := 7\<rparr>)"
proof -
  obtain s' where c: "connect (sample_conn 0) loaded_client = Some (True, s')" "attached (sample_conn 0) 28 5 loaded_client s'"
    using sample_connected by blast
  have "g_fd loaded_client = -1" by (simp add: loaded_client_def client_init_def)
  with c(1) obtain fid dfd fd s where s: "connect_open (sample_conn 0) loaded_client = Some (Some (fid, dfd, fd), s)"
    "s' = s\<lparr>g_family_id := fid, g_disconnect_fd := dfd, g_fd := fd\<rparr>"
    by (auto simp: connect_via_open split: bind_splits option.splits)
  with c(2) have "fid = 28" "dfd = 8" "fd = 7" "sample_online s'"
    by (auto simp: attached_def sample_conn_def sample_online_def)
  with s show ?thesis by auto
qed

lemma sample_reachable: "\<exists>s. reachable env one (\<lambda>_. Returned True, s) \<and> sample_online s"
proof -
  obtain s where s: "connect_open (sample_conn 0) loaded_client = Some (Some (28, 8, 7), s)"
    "sample_online (s\<lparr>g_family_id := 28, g_disconnect_fd := 8, g_fd := 7\<rparr>)" using sample_connect_open by blast
  let ?idle = "\<lambda>_ :: nat. Returned True"
  have off: "g_fd loaded_client = -1" by (simp add: loaded_client_def client_init_def)
  have "reachable env one (?idle(0 := CN_lock), loaded_client)"
    using reach_enter [OF sample_loaded, of env one 0 Call_connect] by simp
  from reach_advance [OF this, of 0 sample_in CN_open loaded_client]
  have "reachable env one (?idle(0 := CN_open), loaded_client)" using off by (simp add: waits_def)
  from reach_advance [OF this, of 0 sample_in "CN_family 28 8 7" s]
  have "reachable env one (?idle(0 := CN_family 28 8 7), s)"
    using s(1) sample_conn_ok [of 0] by (simp add: waits_def sample_in_def)
  from reach_advance [OF this, of 0 sample_in]
  have "reachable env one (?idle(0 := CN_event 8 7), s\<lparr>g_family_id := 28\<rparr>)" by (simp add: waits_def)
  from reach_advance [OF this, of 0 sample_in]
  have "reachable env one (?idle(0 := CN_fd 7), s\<lparr>g_family_id := 28, g_disconnect_fd := 8\<rparr>)" by (simp add: waits_def)
  from reach_advance [OF this, of 0 sample_in]
  have "reachable env one (?idle(0 := Returned True), s\<lparr>g_family_id := 28, g_disconnect_fd := 8, g_fd := 7\<rparr>)"
    by (simp add: waits_def)
  moreover have "?idle(0 := Returned True) = ?idle" by auto
  ultimately show ?thesis using s(2) by auto
qed

text \<open>A thread in the poll loop, and another that is about to write to the eventfd.\<close>

definition sample_rbuf :: bytes where
  "sample_rbuf = replicate 8192 0"

definition sample_threads :: "nat \<Rightarrow> thread" where
  "sample_threads = (\<lambda>_. Returned True)(0 := PE_fd sample_rbuf, 1 := DC_write 8)"

lemma sample_polling: "\<exists>s. reachable env one (sample_threads, s) \<and> sample_online s"
proof -
  obtain s where s: "reachable env one (\<lambda>_. Returned True, s)" "sample_online s" using sample_reachable by blast
  let ?idle = "\<lambda>_ :: nat. Returned True"
  have "reachable env one (?idle(0 := PE_fd sample_rbuf), s)"
    using reach_enter [OF s(1), of 0 "Call_pollEvent sample_rbuf"] by (simp add: sample_rbuf_def)
  from reach_enter [OF this, of 1 Call_disconnect]
  have "reachable env one (?idle(0 := PE_fd sample_rbuf, 1 := DC_lock), s)" by simp
  from reach_advance [OF this, of 1 sample_in]
  have "reachable env one (sample_threads, s)"
    using s(2) by (simp add: waits_def sample_online_def sample_threads_def)
  with s(2) show ?thesis by blast
qed

lemma stop_run:
  assumes "ts k = PE_fd rbuf" "sample_online s" "0 < os_event s" "\<And>l. \<not> holds (ts l)"
  shows "\<exists>s'. trace env one (ts, s) (replicate 9 (k, Advance sample_in)) (ts(k := Returned True), s') \<and>
    os_fds s' = {} \<and> os_event s' = 0"
proof -
  let ?s = "s\<lparr>os_event := 0\<rparr>"
  have e: "pi_poll (si_poll sample_in) = 1" "pi_disconnect (si_poll sample_in)" by (simp_all add: sample_in_def sample_stop_def)
  have nine: "replicate 9 (k, Advance sample_in) = (k, Advance sample_in) # (k, Advance sample_in) # (k, Advance sample_in) #
    (k, Advance sample_in) # (k, Advance sample_in) # (k, Advance sample_in) # (k, Advance sample_in) #
    (k, Advance sample_in) # [(k, Advance sample_in)]" by (simp add: numeral_eq_Suc)
  have d: "{8, 7 :: int} - {7} - {8} = {}" by auto
  let ?s' = "?s\<lparr>g_fd := -1, g_disconnect_fd := -1, g_family_id := 0, os_fds := {},
    os_groups := filter (\<lambda>(f, g). f \<noteq> 8) (filter (\<lambda>(f, g). f \<noteq> 7) (os_groups s))\<rparr>"
  have "trace env one (ts, s) (replicate 9 (k, Advance sample_in)) (ts(k := Returned True), ?s')"
    unfolding nine using assms e
    by (auto intro!: trace_advance trace.stop simp: waits_def sample_online_def close_fd_def d simp del: filter_filter)
  then show ?thesis by (intro exI [of _ ?s']) simp
qed

section \<open>Properties\<close>

text \<open>
  C5: every interleaving of the shared accesses is safe. Any number of threads call the library, at most one
  of them in \<^verbatim>\<open>pollEvent\<close>, and their loads, stores, system calls and critical sections interleave in any
  order the connection mutex allows. In every state they can reach: each open descriptor belongs either to the
  global variables or to exactly one thread, each global reference likewise, and each string to one thread; no
  exception is pending; at most one thread is inside a scope of the mutex. The next step of every thread
  returns without using something that was released, and a thread waits only for one that can step. When all
  calls have returned, nothing is left but what the global variables name.
\<close>

theorem threads_safe:
  assumes "strings_ok env" "reachable env True (ts, s)"
  shows "portions (os_fds s) (published s) (\<lambda>k. own_fds (ts k)) \<and>
    portions (jv_globals s) (roots s) (\<lambda>k. own_refs (ts k)) \<and> jv_strings s = card {k. own_string (ts k)} \<and>
    \<not> jn_exception (jv_env s) \<and> exclusive holds ts \<and>
    (\<forall>k i. enabled env True k (Advance i) (ts, s) \<longrightarrow> turn env k (Advance i) (ts, s) \<noteq> None) \<and>
    (\<forall>k. waits k ts \<longrightarrow> (\<exists>l. holds (ts l) \<and> \<not> returned (ts l) \<and> \<not> waits l ts)) \<and>
    ((\<forall>k. returned (ts k)) \<longrightarrow>
       os_fds s = published s \<and> jv_globals s = roots s \<and> jv_strings s = 0 \<and> jn_locals (jv_env s) = 0)"
proof -
  have inv: "threads_inv env (ts, s)" by (rule reachable_threads [OF assms(2,1)])
  have "turn env k (Advance i) (ts, s) \<noteq> None" if "enabled env True k (Advance i) (ts, s)" for k i
    using advance_ok [OF inv that assms(1)] by auto
  moreover have "\<exists>l. holds (ts l) \<and> \<not> returned (ts l) \<and> \<not> waits l ts" if w: "waits k ts" for k
  proof -
    obtain l where l: "holds (ts l)" using w by (auto simp: waits_def)
    then have "\<not> returned (ts l)" "\<not> acquires (ts l)" by (cases "ts l"; simp)+
    with l show ?thesis by (auto simp: waits_def)
  qed
  moreover have "os_fds s = published s \<and> jv_globals s = roots s \<and> jv_strings s = 0 \<and> jn_locals (jv_env s) = 0"
    if all: "\<forall>k. returned (ts k)"
  proof -
    have "own_fds (ts k) = {}" "own_refs (ts k) = {}" "\<not> own_string (ts k)" "\<not> dispatching (ts k)" for k
      using all [rule_format, of k] by (cases "ts k"; simp)+
    with inv show ?thesis by (simp add: fds_owned_def refs_owned_def strings_owned_def portions_def)
  qed
  ultimately show ?thesis using inv by (simp add: fds_owned_def refs_owned_def strings_owned_def)
qed

text \<open>The poll loop runs while another thread is inside the scope of the mutex and a third waits for it.\<close>

theorem threads_safe_witness:
  "\<exists>s. reachable sample_jni_env True (sample_threads(2 := CN_lock), s) \<and> waits 2 (sample_threads(2 := CN_lock)) \<and>
     os_fds s = {7, 8} \<and> portions (os_fds s) (published s) (\<lambda>k. own_fds ((sample_threads(2 := CN_lock)) k)) \<and>
     turn sample_jni_env 1 (Advance sample_in) (sample_threads(2 := CN_lock), s) \<noteq> None"
proof -
  obtain s where s: "reachable sample_jni_env True (sample_threads, s)" "sample_online s" using sample_polling by blast
  let ?ts = "sample_threads(2 := CN_lock)"
  have r: "reachable sample_jni_env True (?ts, s)"
    using reach_enter [OF s(1), of 2 Call_connect] by (simp add: sample_threads_def)
  have "enabled sample_jni_env True 1 (Advance sample_in) (?ts, s)" "waits 2 ?ts"
    by (auto simp: waits_def sample_threads_def)
  moreover have "os_fds s = {7, 8}" using s(2) by (auto simp: sample_online_def)
  ultimately show ?thesis using r threads_safe [OF sample_strings r] by blast
qed

text \<open>
  C11: disconnecting ends the poll loop. Let a thread write to the eventfd in \<^verbatim>\<open>disconnect\<close> while another is
  anywhere in \<^verbatim>\<open>pollEvent\<close>. Whatever all other threads do from then on, connecting and disconnecting again
  included, and whatever datagrams there are to dispatch, the call of \<^verbatim>\<open>pollEvent\<close> returns after at most 8204
  steps of its own in which \<^verbatim>\<open>poll\<close> is not interrupted, and at that moment the library is disconnected.
\<close>

theorem disconnect_wakes_poller:
  assumes "strings_ok env" "reachable env True (ts, s)" "polling (ts k)"
    and "ts d = DC_write efd" "turn env d (Advance i) (ts, s) = Some st"
    and "trace env True st tr st'" "list_all uninterrupted tr" "rank (ts k) \<le> length (filter (\<lambda>(l, a). l = k) tr)"
  shows "rank (ts k) \<le> 8204 \<and>
    (\<exists>tr1 tr2 st1. tr = tr1 @ tr2 \<and> trace env True st tr1 st1 \<and> fst st1 k = Returned True \<and> offline (snd st1))"
proof -
  have inv: "threads_inv env (ts, s)" by (rule reachable_threads [OF assms(2,1)])
  have en: "enabled env True d (Advance i) (ts, s)" using assms(4) by (simp add: waits_def)
  have kd: "d \<noteq> k" using assms(3,4) by auto
  have "online s" using inv assms(4) by (metis threads_inv.simps assertion.simps(5))
  moreover have "st = (ts(d := Returned True), s\<lparr>os_event := os_event s + 1\<rparr>)"
    using assms(4,5) by (auto split: if_splits)
  ultimately have "woken (fst st k) (snd st)" "rank (fst st k) = rank (ts k)"
    using assms(3) kd by (simp_all add: woken_def online_def)
  with poller_returns [OF assms(6) turn_inv [OF inv en assms(5,1)] assms(1), of k] assms(7,8)
  have "\<exists>tr1 tr2 st1. tr = tr1 @ tr2 \<and> trace env True st tr1 st1 \<and> fst st1 k = Returned True \<and> offline (snd st1)" by simp
  moreover have "rank (ts k) \<le> 8204" using rank_bound [of env "ts k" s] inv by simp
  ultimately show ?thesis by blast
qed

theorem disconnect_wakes_poller_witness:
  "\<exists>s s' tr st. reachable sample_jni_env True (sample_threads, s) \<and>
     turn sample_jni_env 1 (Advance sample_in) (sample_threads, s) = Some (sample_threads(1 := Returned True), s') \<and>
     trace sample_jni_env True (sample_threads(1 := Returned True), s') tr st \<and> fst st 0 = Returned True \<and> offline (snd st)"
proof -
  obtain s where s: "reachable sample_jni_env True (sample_threads, s)" "sample_online s" using sample_polling by blast
  let ?s = "s\<lparr>os_event := os_event s + 1\<rparr>" and ?ts = "sample_threads(1 := Returned True)"
  have t: "turn sample_jni_env 1 (Advance sample_in) (sample_threads, s) = Some (?ts, ?s)"
    using s(2) by (simp add: sample_threads_def sample_online_def)
  have "?ts 0 = PE_fd sample_rbuf" "sample_online ?s" "0 < os_event ?s" "\<And>l. \<not> holds (?ts l)"
    using s(2) by (simp_all add: sample_threads_def sample_online_def)
  from stop_run [of ?ts 0, OF this] obtain s' where
    r: "trace sample_jni_env True (?ts, ?s) (replicate 9 (0, Advance sample_in)) (?ts(0 := Returned True), s')" by blast
  have "list_all uninterrupted (replicate 9 (0, Advance sample_in))" "sample_threads 1 = DC_write 8"
    "polling (sample_threads 0)" "rank (sample_threads 0) \<le> length (filter (\<lambda>(l, a). l = 0) (replicate 9 (0 :: nat, Advance sample_in)))"
    by (simp_all add: sample_in_def sample_stop_def sample_threads_def list_all_iff)
  with disconnect_wakes_poller [OF sample_strings s(1) _ _ t r, of 0 8] s(1) t show ?thesis by blast
qed

text \<open>
  The poll loop is for one thread. If a second thread may enter \<^verbatim>\<open>pollEvent\<close>, the threads can reach a
  state in which the next step of one of them uses descriptors the other has closed.
\<close>

theorem second_poller_unsafe:
  "\<exists>ts s i. reachable sample_jni_env False (ts, s) \<and> enabled sample_jni_env False 0 (Advance i) (ts, s) \<and>
     turn sample_jni_env 0 (Advance i) (ts, s) = None"
proof -
  let ?env = "sample_jni_env" and ?idle = "\<lambda>_ :: nat. Returned True"
  obtain s where s: "reachable ?env False (sample_threads, s)" "sample_online s" using sample_polling by blast
  let ?s = "s\<lparr>os_event := os_event s + 1\<rparr>"
  from reach_advance [OF s(1), of 0 sample_in] s(2)
  have "reachable ?env False (?idle(1 := DC_write 8, 0 := PE_event sample_rbuf 7), s)"
    by (simp add: sample_threads_def waits_def sample_online_def fun_upd_twist)
  from reach_advance [OF this, of 0 sample_in] s(2)
  have "reachable ?env False (?idle(1 := DC_write 8, 0 := PE_poll sample_rbuf 7 8), s)"
    by (simp add: waits_def sample_online_def)
  from reach_enter [OF this, of 2 "Call_pollEvent sample_rbuf"]
  have "reachable ?env False (?idle(1 := DC_write 8, 0 := PE_poll sample_rbuf 7 8, 2 := PE_fd sample_rbuf), s)"
    by (simp add: sample_rbuf_def)
  from reach_advance [OF this, of 1 sample_in] s(2)
  have r: "reachable ?env False (?idle(1 := DC_write 8, 0 := PE_poll sample_rbuf 7 8, 2 := PE_fd sample_rbuf, 1 := Returned True), ?s)"
    (is "reachable _ _ (?ts, _)") by (simp add: waits_def sample_online_def)
  have "?ts 2 = PE_fd sample_rbuf" "sample_online ?s" "0 < os_event ?s" "\<And>l. \<not> holds (?ts l)"
    using s(2) by (simp_all add: sample_online_def)
  from stop_run [of ?ts 2, OF this] obtain s' where t: "trace ?env False (?ts, ?s) (replicate 9 (2, Advance sample_in)) (?ts(2 := Returned True), s')"
    "os_fds s' = {}" "os_event s' = 0" by blast
  let ?i = "sample_in\<lparr>si_poll := sample_stop\<lparr>pi_disconnect := False\<rparr>\<rparr>"
  have "enabled ?env False 0 (Advance ?i) (?ts(2 := Returned True), s')" "turn ?env 0 (Advance ?i) (?ts(2 := Returned True), s') = None"
    using t(2,3) by (simp_all add: waits_def)
  with reach_trace [OF t(1) r] show ?thesis by blast
qed



end
