(* ===== verification/Rkx_Install.thy ===== *)
theory Rkx_Install
  imports Rkx_Prelude "HOL-Library.Sublist"
begin

text \<open>
  The scripts of the module package. \<^verbatim>\<open>template/customize.sh\<close> chooses at installation the kernel modules built
  for the running kernel, among those \<^verbatim>\<open>.github/workflows/ddk-lkm.yml\<close> builds for the interfaces of
  \<^verbatim>\<open>.github/kmi-matrix.json\<close>; \<^verbatim>\<open>template/post-fs-data.sh\<close> loads one of them at each boot, and disables the
  package if a boot did not survive the loading. Files are their names. Messages and permissions are left out.
\<close>

section \<open>Parameter expansions\<close>

text \<open>
  \<^verbatim>\<open>${v%%-*}\<close>, \<^verbatim>\<open>${v%.*}\<close>, and the rest behind the first occurrence of a pattern, for \<^verbatim>\<open>${v#*p}\<close> and
  \<^verbatim>\<open>[[ v == *"p"* ]]\<close>.
\<close>

definition upto_dash :: "string \<Rightarrow> string" where
  "upto_dash v = takeWhile (\<lambda>c. c \<noteq> CHR ''-'') v"

definition upto_last_dot :: "string \<Rightarrow> string" where
  "upto_last_dot v = (if CHR ''.'' \<in> set v then rev (tl (dropWhile (\<lambda>c. c \<noteq> CHR ''.'') (rev v))) else v)"

fun after :: "string \<Rightarrow> string \<Rightarrow> string option" where
  "after p [] = (if p = [] then Some [] else None)"
| "after p (c # cs) = (if prefix p (c # cs) then Some (drop (length p) (c # cs)) else after p cs)"

definition strip_upto :: "string \<Rightarrow> string \<Rightarrow> string" where
  "strip_upto p v = (case after p v of None \<Rightarrow> v | Some w \<Rightarrow> w)"

definition contains :: "string \<Rightarrow> string \<Rightarrow> bool" where
  "contains p v \<longleftrightarrow> after p v \<noteq> None"

lemma upto_dash_append: "CHR ''-'' \<notin> set v \<Longrightarrow> upto_dash v = v" "CHR ''-'' \<notin> set v \<Longrightarrow> upto_dash (v @ CHR ''-'' # w) = v"
  by (auto simp: upto_dash_def takeWhile_eq_all_conv takeWhile_tail)

lemma upto_last_dot_append:
  assumes "CHR ''.'' \<notin> set w"
  shows "upto_last_dot (v @ CHR ''.'' # w) = v"
proof -
  have "dropWhile (\<lambda>c. c \<noteq> CHR ''.'') (rev w @ CHR ''.'' # rev v) = CHR ''.'' # rev v"
    using assms by (subst dropWhile_append2) auto
  then show ?thesis by (simp add: upto_last_dot_def)
qed

lemma after_first:
  "c \<notin> set v \<Longrightarrow> after (c # p) (v @ c # p @ w) = Some w"
  by (induction v) auto

lemma after_exists: "after p (v @ p @ w) \<noteq> None"
proof (induction v)
  case Nil
  have "prefix p (p @ w)" by simp
  then show ?case by (cases "p @ w") auto
qed auto

section \<open>Installation\<close>

text \<open>The version of a kernel without an Android tag in its name.\<close>

definition untagged_android :: "string \<Rightarrow> string" where
  "untagged_android core =
     (if core = ''5.10'' then ''12'' else if core = ''5.15'' then ''13'' else if core = ''6.1'' then ''14''
      else if core = ''6.6'' then ''15'' else if core = ''6.12'' then ''16'' else if core = ''6.18'' then ''17''
      else '''')"

definition core_ver :: "string \<Rightarrow> string" where
  "core_ver release = upto_last_dot (upto_dash release)"

definition and_ver :: "string \<Rightarrow> string" where
  "and_ver release =
     (if contains ''android'' release then upto_dash (strip_upto ''-android'' release)
      else untagged_android (core_ver release))"

definition target_ver :: "string \<Rightarrow> string" where
  "target_ver release = ''android'' @ and_ver release @ ''-'' @ core_ver release"

text \<open>The files of the package and of its directory \<^verbatim>\<open>kmod\<close>. \<open>None\<close> is an aborted installation.\<close>

record package =
  pk_files :: "string list"
  pk_kmod :: "string list"

definition customize :: "string \<Rightarrow> package \<Rightarrow> package option" where
  "customize release pk =
     (let found = filter (prefix (''rekernel_x-'' @ target_ver release)) (pk_kmod pk)
      in if found = [] then None else Some \<lparr>pk_files = pk_files pk @ found, pk_kmod = []\<rparr>)"

text \<open>The kernel module interfaces and releases that are built, and the name of the file.\<close>

definition kmi_matrix :: "(string \<times> string) list" where
  "kmi_matrix =
     [(''android12-5.10'', ''20260313''), (''android13-5.10'', ''20260313''), (''android13-5.15'', ''20260313''),
      (''android14-5.15'', ''20260313''), (''android14-6.1'', ''20250825''), (''android14-6.1'', ''20260313''),
      (''android15-6.6'', ''20260313''), (''android16-6.12'', ''20251104''), (''android16-6.12'', ''20260313''),
      (''android17-6.18'', ''20260828'')]"

definition artifact :: "string \<times> string \<Rightarrow> string" where
  "artifact a = ''rekernel_x-'' @ fst a @ ''-'' @ snd a @ ''.ko''"

lemma artifact_prefix: "prefix (''rekernel_x-'' @ t) (artifact a) \<longleftrightarrow> prefix t (fst a @ ''-'' @ snd a @ ''.ko'')"
  by (simp add: artifact_def)

text \<open>The name of an interface is a prefix of the artifacts of no other.\<close>

lemma matrix_unambiguous:
  "list_all (\<lambda>k. list_all (\<lambda>a. prefix (fst k) (fst a @ ''-'' @ snd a @ ''.ko'') \<longleftrightarrow> fst a = fst k) kmi_matrix) kmi_matrix"
  by code_simp

lemma core_ver_eq:
  assumes "CHR ''-'' \<notin> set (core @ sub)" "CHR ''.'' \<notin> set sub"
  shows "core_ver (core @ ''.'' @ sub) = core" "core_ver (core @ ''.'' @ sub @ ''-'' @ rest) = core"
  using assms upto_dash_append(1) [of "core @ ''.'' @ sub"] upto_dash_append(2) [of "core @ ''.'' @ sub" rest]
  by (simp_all add: core_ver_def upto_last_dot_append)

text \<open>The names of kernel releases: with an Android tag, and without.\<close>

definition tagged :: "string \<Rightarrow> string \<Rightarrow> string \<Rightarrow> string \<Rightarrow> string" where
  "tagged core sub n rest = core @ ''.'' @ sub @ ''-android'' @ n @ ''-'' @ rest"

lemma target_tagged:
  assumes "CHR ''-'' \<notin> set (core @ sub @ n)" "CHR ''.'' \<notin> set sub"
  shows "target_ver (tagged core sub n rest) = ''android'' @ n @ ''-'' @ core"
proof -
  have "after ''android'' ((core @ ''.'' @ sub @ ''-'') @ ''android'' @ n @ ''-'' @ rest) \<noteq> None" by (rule after_exists)
  then have c: "contains ''android'' (tagged core sub n rest)" by (simp add: contains_def tagged_def)
  have "after (CHR ''-'' # ''android'') ((core @ ''.'' @ sub) @ CHR ''-'' # ''android'' @ n @ ''-'' @ rest) = Some (n @ ''-'' @ rest)"
    using assms by (intro after_first) auto
  then have s: "strip_upto ''-android'' (tagged core sub n rest) = n @ ''-'' @ rest" by (simp add: strip_upto_def tagged_def)
  have "core_ver (tagged core sub n rest) = core"
    using core_ver_eq(2) [of core sub "''android'' @ n @ ''-'' @ rest"] assms by (simp add: tagged_def)
  with c s assms(1) upto_dash_append(2) [of n rest] show ?thesis by (simp add: target_ver_def and_ver_def)
qed

lemma customize_kmi:
  assumes "target_ver release \<in> fst ` set kmi_matrix"
  shows "customize release \<lparr>pk_files = fs, pk_kmod = map artifact kmi_matrix\<rparr> =
    Some \<lparr>pk_files = fs @ map artifact (filter (\<lambda>a. fst a = target_ver release) kmi_matrix), pk_kmod = []\<rparr>"
proof -
  let ?t = "target_ver release"
  have "prefix (''rekernel_x-'' @ ?t) (artifact a) \<longleftrightarrow> fst a = ?t" if "a \<in> set kmi_matrix" for a
    unfolding artifact_prefix using assms matrix_unambiguous that by (auto simp: list_all_iff)
  then have "filter (prefix (''rekernel_x-'' @ ?t)) (map artifact kmi_matrix) = map artifact (filter (\<lambda>a. fst a = ?t) kmi_matrix)"
    by (simp add: filter_map comp_def cong: filter_cong)
  moreover have "filter (\<lambda>a. fst a = ?t) kmi_matrix \<noteq> []" using assms by (force simp: filter_empty_conv)
  ultimately show ?thesis by (simp add: customize_def)
qed

section \<open>Boot\<close>

text \<open>What \<^verbatim>\<open>insmod\<close> does with a file: it loads it, refuses it, or the machine does not survive it.\<close>

datatype insmod = Loads | Refused | Panics

record moddir =
  dot_boot :: bool
  disable :: bool
  kos :: "string list"

fun insmod_loop :: "(string \<Rightarrow> insmod) \<Rightarrow> string list \<Rightarrow> string option \<times> bool" where
  "insmod_loop f [] = (None, False)"
| "insmod_loop f (ko # rest) =
     (case f ko of Loads \<Rightarrow> (Some ko, False) | Refused \<Rightarrow> insmod_loop f rest | Panics \<Rightarrow> (None, True))"

text \<open>The module that is loaded, whether the machine is lost, and the directory then.\<close>

definition post_fs_data :: "(string \<Rightarrow> insmod) \<Rightarrow> moddir \<Rightarrow> (string option \<times> bool) \<times> moddir" where
  "post_fs_data f d =
     (if dot_boot d then ((None, False), d\<lparr>disable := True, dot_boot := False\<rparr>)
      else let d = d\<lparr>dot_boot := True\<rparr>; r = insmod_loop f (kos d)
           in (r, if snd r then d else d\<lparr>dot_boot := False\<rparr>))"

text \<open>The root solution runs the script of a package at every boot unless it is disabled.\<close>

definition boot :: "(string \<Rightarrow> insmod) \<Rightarrow> moddir \<Rightarrow> (string option \<times> bool) \<times> moddir" where
  "boot f d = (if disable d then ((None, False), d) else post_fs_data f d)"

fun boots :: "(string \<Rightarrow> insmod) list \<Rightarrow> moddir \<Rightarrow> (string option \<times> bool) list" where
  "boots [] d = []"
| "boots (f # fs) d = fst (boot f d) # boots fs (snd (boot f d))"

lemma boots_disabled: "disable d \<Longrightarrow> boots fs d = replicate (length fs) (None, False)"
  by (induction fs) (simp_all add: boot_def)

lemma boots_flagged: "dot_boot d \<Longrightarrow> boots fs d = replicate (length fs) (None, False)"
  by (cases fs) (auto simp: boot_def post_fs_data_def boots_disabled)

lemma boots_clean:
  assumes "\<not> dot_boot d" "\<not> disable d"
  shows "boots (f # fs) d = insmod_loop f (kos d) #
    (if snd (insmod_loop f (kos d)) then replicate (length fs) (None, False) else boots fs d)"
proof -
  have "boots fs (d\<lparr>dot_boot := False\<rparr>) = boots fs d" using assms(1) by (cases d) simp
  then show ?thesis using assms boots_flagged by (simp add: boot_def post_fs_data_def Let_def)
qed

lemma length_boots [simp]: "length (boots fs d) = length fs"
  by (induction fs arbitrary: d) simp_all

section \<open>Properties\<close>





end
