(* ===== verification/Spec2Isabelle.thy ===== *)
theory Spec2Isabelle
  imports Rkx_Kp_Safety Rkx_Main Rkx_Client_System Rkx_Install
begin

text \<open>
  A verification development of ReKernel-X (\<^verbatim>\<open>src/\<close>): a Linux kernel module that reports
  binder, signal and network events of frozen Android processes over generic netlink and frees
  superseded asynchronous binder transactions, and the native client library that receives the events.

  \<^bold>\<open>The program.\<close> The module (\<^verbatim>\<open>LKM-Source\<close>) attaches trace hooks, a packet hook and a
  kprobe. The hooks turn what they see into events, which \<^verbatim>\<open>rkx_genl.c\<close> encodes and multicasts. The
  same file handles four commands, which change two hash tables: the monitored uids, read by the packet hook,
  and the free-async rules, read by the kprobe. The client (\<^verbatim>\<open>Develop/rekernel_x\<close>) joins the multicast
  group, passes each event to a Java callback, and sends the commands. The package scripts (\<^verbatim>\<open>template\<close>)
  install the module for the running kernel and load it at boot.

  \<^bold>\<open>Conventions.\<close> Machine integers are words of their width. Memory is a byte list; an access out of
  bounds, a null or dangling reference, a double close, or a JNI call with an exception pending is the value
  \<^const>\<open>None\<close>. Results of the kernel, of system calls and of JNI functions are fields of environment records;
  what the code relies on of them is stated by predicates whose names end in \<open>_ok\<close>.

  \<^bold>\<open>Theories of the module\<close> (each names its source file in its first paragraph).
  \<^item> \<open>Rkx_Prelude\<close>, \<open>Rkx_Wire\<close>: bytes, C strings, words; the netlink format.
  \<^item> \<open>Rkx_Uapi\<close>, \<open>Rkx_Frozen\<close>, \<open>Rkx_Hook\<close>: \<^verbatim>\<open>rkx.h\<close>, \<^verbatim>\<open>rkx_frozen.c\<close>, and the
    contracts that all hooks and registrations share (locales \<open>event_hook\<close>, \<open>registration\<close>).
  \<^item> \<open>Rkx_Tables\<close>, \<open>Rkx_Netuid\<close>, \<open>Rkx_Free_Async\<close>: the hash tables refine a set of uids and a map from
    name and code to strategy (locale \<open>keyed_table\<close>, interpreted on both).
  \<^item> \<open>Rkx_Token\<close>, \<open>Rkx_Binder\<close>, \<open>Rkx_Signal\<close>, \<open>Rkx_Netfilter\<close>: the hooks. They stay in bounds and
    report what they should; packet lengths are exact.
  \<^item> \<open>Rkx_Binder_Alloc\<close>, \<open>Rkx_Binder_Kp\<close>, \<open>Rkx_Kp_Safety\<close>: the copy out of binder buffers and the kprobe.
    The probe retires the first superseded transaction, safely under every interleaving of \<open>kp_step\<close>.
  \<^item> \<open>Rkx_Genl\<close>, \<open>Rkx_Main\<close>: encoder, command handlers, policy; initialisation and exit.

  \<^bold>\<open>Theories of the client.\<close>
  \<^item> \<open>Rkx_Client_Uapi\<close>: \<^verbatim>\<open>rkx_uapi.h\<close> and the constants, callback signatures and native methods of the
    Java files; they agree with \<^verbatim>\<open>rkx.h\<close> and with the functions the library exports.
  \<^item> \<open>Rkx_Nla\<close>: \<^verbatim>\<open>rkx_nla.h\<close>. The reader inverts the format and is safe on all bytes; the builder
    appends, refuses, or overflows where its 16-bit length wraps around.
  \<^item> \<open>Rkx_Client_Recv\<close>: the event dispatch of \<^verbatim>\<open>rkx_jni.cpp\<close>, from bytes to callback calls.
  \<^item> \<open>Rkx_Client\<close>: the rest of that file. \<open>client\<close> holds its globals together with the open descriptors,
    joined groups, sent messages, references and held strings.
  \<^item> \<open>Rkx_Client_Conn\<close>, \<open>Rkx_Client_Req\<close>, \<open>Rkx_Client_Safety\<close>: connecting is all or nothing and finds the
    family as the module registers it; the four requests share a contract (locale \<open>client_request\<close>);
    \<open>client_step\<close> interleaves whole calls and poll rounds, and the poll loop delivers every event.
  \<^item> \<open>Rkx_Client_Threads\<close>, \<open>Rkx_Client_Race\<close>, \<open>Rkx_Client_System\<close>: the same functions as threads that
    interleave at every shared access. \<open>micro\<close> is one step of a thread at a position (\<open>thread\<close>); a thread that
    runs alone computes what the whole functions compute. \<open>assertion\<close> is what a thread knows at a position,
    \<open>share\<close> what it owns, and each step keeps both against the others. \<open>reachable\<close> and \<open>trace\<close> are the runs of
    any number of threads: they are safe and leak nothing, and a disconnection ends the poll loop.

  \<^bold>\<open>Theory of the package\<close>: \<open>Rkx_Install\<close>, for \<^verbatim>\<open>customize.sh\<close>, \<^verbatim>\<open>post-fs-data.sh\<close> and the build matrix. The
  installation takes the files of exactly one interface; a boot that fails disables the package.

  This theory composes the parts: the contract of the five hooks, and requests from the Java call to the
  table of the module.

  \<^bold>\<open>Bounds and termination.\<close> No definition uses fuel. Two loops are partial functions: \<open>buffer_copy_loop\<close>,
  proved to return the contents of a readable buffer, and \<open>nlmsg_loop\<close>, proved to return on padded datagrams
  of at most 8192 bytes. \<open>pollEvent\<close> runs over a list of poll results and is shown to
  return once the eventfd is readable; \<open>rank\<close> bounds the steps until then. Replies of the controller have at most 4089 of the 4096 bytes of their
  array, because \<^verbatim>\<open>strcmp\<close> with the group name may read seven bytes behind an unterminated one. Names have
  less than 65528 bytes, where the builder wraps around. Strings of the Java machine can be created. A callback
  may throw if each message carries one payload, as those of the module do. At most one thread polls: with two,
  a step can use a closed descriptor (\<open>second_poller_unsafe\<close>).

  \<^bold>\<open>Not modelled.\<close> Logging (\<^verbatim>\<open>rkx_log.h\<close>), which has no effect on the state; the prototypes at the end of
  \<^verbatim>\<open>rkx.h\<close>; build files; the size of the receive buffer; calls of the library from inside the callback. In
  the threads of the client a message is dispatched in one step and the callback mutex makes each of its
  sections one step; memory is sequentially consistent, as the atomics of the code are. In the interleavings of the
  kprobe each function is one step.
\<close>

section \<open>The hooks, together\<close>

text \<open>
  What every hook of the module promises the kernel: it returns, sends at most one well-formed event,
  and none before the netlink family is up.
\<close>

definition event_contract :: "(bool \<Rightarrow> rkx_event list option) \<Rightarrow> bool" where
  "event_contract hook \<longleftrightarrow> (\<forall>ready. \<exists>evs. hook ready = Some evs \<and> length evs \<le> 1 \<and>
     list_all event_wf evs \<and> (\<not> ready \<longrightarrow> evs = []))"

lemma event_contractI:
  assumes "\<And>ready. \<exists>evs. hook ready = Some evs \<and> length evs \<le> 1 \<and> list_all event_wf evs"
    and "hook False = Some []"
  shows "event_contract hook"
  unfolding event_contract_def
proof
  fix ready
  show "\<exists>evs. hook ready = Some evs \<and> length evs \<le> 1 \<and> list_all event_wf evs \<and> (\<not> ready \<longrightarrow> evs = [])"
    using assms(1) [of ready] assms(2) by (cases ready) auto
qed

section \<open>Properties\<close>

text \<open>
  C12: no hook can crash the kernel or flood the listeners. Given the documented behaviour of the user
  copies and of the packet functions, each of the five hooks returns for every input, without reading
  or writing out of bounds, and sends at most one event, whose name is a terminated string.
\<close>

theorem hooks_contract:
  assumes "uaccess_ok benv" "nf_env_ok nenv pkt"
  shows "event_contract (\<lambda>ready. rkx_binder_alloc_new_buf_locked_vh benv ready alloc) \<and>
    event_contract (\<lambda>ready. rkx_binder_reply_vh benv ready reply) \<and>
    event_contract (\<lambda>ready. rkx_binder_trans_vh benv ready txn) \<and>
    event_contract (\<lambda>ready. rkx_do_send_sig_info_vh k ready sig) \<and>
    event_contract (\<lambda>ready. map_option snd (rkx_nf_local_in nenv ready pkt))"
  using alloc_hook.hook_wf [OF TrueI] alloc_hook.hook_quiet [OF TrueI]
    reply_hook.hook_wf [OF TrueI] reply_hook.hook_quiet [OF TrueI]
    trans_hook.hook_wf [OF assms(1)] trans_hook.hook_quiet [OF assms(1)]
    sig_hook.hook_wf [OF TrueI] sig_hook.hook_quiet [OF TrueI]
    nf_hook.hook_wf [OF assms(2)] nf_hook.hook_quiet [OF assms(2)]
  by (intro conjI event_contractI)

theorem hooks_contract_witness:
  "event_contract (\<lambda>ready. rkx_binder_trans_vh sample_binder_env ready
     (Some (proc_of 1 1), proc_of 2 0, sample_tr)) \<and>
   event_contract (\<lambda>ready. map_option snd (rkx_nf_local_in sample_nf_env ready sample_nf_input))"
  using hooks_contract [OF sample_uaccess sample_nf_ok] by blast



section \<open>From the client to the module\<close>

text \<open>
  The attribute table the netlink core passes to a handler for a message with the attributes \<open>as\<close>: as the
  documentation of \<^verbatim>\<open>nla_parse\<close> has it, the payload of the last attribute of each type.
\<close>

definition kernel_attrs :: "(u16 \<times> bytes) list \<Rightarrow> genl_attrs" where
  "kernel_attrs as a = map_option snd (attr_lookup as (unat (attr_code a)))"

lemma kernel_attrs_monitor: "kernel_attrs (monitor_attrs uid) = uid_attrs uid"
proof
  fix a
  show "kernel_attrs (monitor_attrs uid) a = uid_attrs uid a"
    by (cases a) (simp_all add: kernel_attrs_def monitor_attrs_def attr_lookup_def NLA_TYPE_MASK_def uid_attrs_def)
qed

definition rule_message :: "bytes \<Rightarrow> s32 \<Rightarrow> s32 \<Rightarrow> (u16 \<times> bytes) list" where
  "rule_message name code strategy =
     rule_attrs_of name code @ [(attr_code RKX_A_FREE_ASYNC_STRATEGY, [ucast strategy])]"

lemma kernel_attrs_rule: "kernel_attrs (rule_message name code strategy) = rule_attrs (cstr name) code (ucast strategy)"
proof
  fix a
  show "kernel_attrs (rule_message name code strategy) a = rule_attrs (cstr name) code (ucast strategy) a"
    by (cases a) (simp_all add: kernel_attrs_def rule_message_def rule_attrs_of_def attr_lookup_def NLA_TYPE_MASK_def
        rule_attrs_def)
qed

lemma rule_attrs_validated:
  "attrs_validated (rule_attrs (cstr name) code strategy) \<longleftrightarrow> strlen name < RKX_INTERFACETOKEN_BUFF_SIZE"
proof -
  have "0 \<in> set (take 140 (cstr name @ [0])) \<longleftrightarrow> strlen name < 140"
  proof (cases "strlen name < 140")
    case True
    then show ?thesis by (simp add: strlen_def)
  next
    case False
    then show ?thesis using cstr_nonzero [of name] by (auto simp: strlen_def dest: in_set_takeD)
  qed
  then have "policy_accepts (NLA_NUL_STRING 139) (cstr name @ [0]) \<longleftrightarrow> strlen name < 140" by simp
  then show ?thesis
    unfolding attrs_validated_def rule_attrs_def RKX_INTERFACETOKEN_BUFF_SIZE_def
    by (auto simp: RKX_INTERFACETOKEN_BUFF_SIZE_def split: if_splits)
qed

lemma request_success:
  assumes "request_result re msg s = Some (True, s')"
  shows "os_sent s' = os_sent s @ [(re_socket re, msg)]"
  using assms by (auto simp: request_result_def request_sent_def split: if_splits)

lemma rule_request_success:
  assumes "rule_request_result re rpcName code name limit msg s = Some (True, s')"
  shows "os_sent s' = os_sent s @ [(re_socket re, msg)] \<and> 0 < strlen name \<and> -1 \<le> sint code \<and> strlen name < limit"
  using assms by (auto simp: rule_request_result_def request_sent_def split: if_splits)

text \<open>
  C18: monitoring a uid, from the Java call to the store of the module. When \<^verbatim>\<open>addMonitorNet\<close> reports
  success, the one message it sent carries attributes that the policy of the module accepts, and the handler
  of its command, whenever the module handles it with memory available, succeeds and makes exactly that uid
  monitored in addition to those before.
\<close>

theorem monitor_end_to_end:
  assumes "client_inv s" "req_env_ok 128 re s" "addMonitorNet uid re s = Some (True, s')"
    and "rules_inv (ge_hash env) st" "ge_kmalloc_uid env \<noteq> None"
  shows "\<exists>as h st'. os_sent s' = os_sent s @ [(re_socket re, request_msg s RKX_C_ADD_MONITOR_NET as)] \<and>
    attrs_validated (kernel_attrs as) \<and> rkx_genl_ops RKX_C_ADD_MONITOR_NET = Some h \<and>
    h env (kernel_attrs as) st = Some (0, st') \<and> rules_inv (ge_hash env) st' \<and>
    (\<forall>u. rkx_net_uid_monitored_rcu (ge_hash env) (rr_uids st') u \<longleftrightarrow>
       u = uid \<or> rkx_net_uid_monitored_rcu (ge_hash env) (rr_uids st) u)"
proof -
  let ?st = "st\<lparr>rr_uids := rkx_add_net_uid (ge_hash env) (ge_kmalloc_uid env) uid (rr_uids st)\<rparr>"
  have inv: "net_uid_inv (ge_hash env) (rr_uids st)" "fa_inv (ge_hash env) (rr_rules st)"
    using assms(4) by (auto simp: rules_inv_def)
  note add = add_net_uid [OF inv(1), of "ge_kmalloc_uid env" uid]
  have sent: "os_sent s' = os_sent s @ [(re_socket re, request_msg s RKX_C_ADD_MONITOR_NET (monitor_attrs uid))]"
    using assms(3) unfolding addMonitorNet_eq [OF assms(1,2)] by (rule request_success)
  have h: "rkx_genl_monitor_net env (kernel_attrs (monitor_attrs uid)) st = Some (0, ?st)"
    by (simp add: kernel_attrs_monitor rkx_genl_monitor_net_def uid_attrs_def get_u32_ok)
  have "rules_inv (ge_hash env) ?st" using inv add(1) by (simp add: rules_inv_def)
  moreover have "\<forall>u. rkx_net_uid_monitored_rcu (ge_hash env) (rr_uids ?st) u \<longleftrightarrow>
      u = uid \<or> rkx_net_uid_monitored_rcu (ge_hash env) (rr_uids st) u"
    using monitored_iff [OF add(1)] monitored_iff [OF inv(1)] add(2) assms(5) by simp
  moreover have "attrs_validated (kernel_attrs (monitor_attrs uid))"
    by (simp add: kernel_attrs_monitor uid_attrs_validated)
  ultimately show ?thesis
    using sent h by (intro exI [of _ "monitor_attrs uid"] exI [of _ rkx_genl_monitor_net] exI [of _ ?st]) simp
qed

lemma sample_add_net: "\<exists>s'. addMonitorNet 10086 (sample_req 128 None) connected_client = Some (True, s')"
  unfolding addMonitorNet_eq [OF connected_client_inv(1) sample_req_ok(2)]
  using connected_client_inv(2) by (simp add: request_result_def sample_req_def)

theorem monitor_end_to_end_witness:
  "\<exists>as h st'. h sample_genl_env (kernel_attrs as) init_rules = Some (0, st') \<and>
     rkx_genl_ops RKX_C_ADD_MONITOR_NET = Some h \<and> rkx_net_uid_monitored_rcu sample_hash (rr_uids st') 10086"
proof -
  obtain s' where s': "addMonitorNet 10086 (sample_req 128 None) connected_client = Some (True, s')"
    using sample_add_net by blast
  have inv: "rules_inv (ge_hash sample_genl_env) init_rules" "ge_kmalloc_uid sample_genl_env \<noteq> None"
    by (simp_all add: sample_genl_env_def init_rules_inv)
  from monitor_end_to_end [OF connected_client_inv(1) sample_req_ok(2) s' inv] show ?thesis
    unfolding sample_genl_hash by blast
qed

text \<open>
  C7: a free-async rule, from the Java call to the lookup of the probe. When \<^verbatim>\<open>addFreeAsync\<close> reports
  success for a name that fits the module's array and a strategy the module knows, the message it sent passes the
  policy, and the handler of its command stores the rule, so that a lookup for that interface and code then
  answers with that strategy. For a longer name the client still reports success, and sends a message that
  the policy of the module rejects.
\<close>

theorem rule_end_to_end:
  assumes "client_inv s" "req_env_ok 256 re s" "re_GetStringUTFChars re = Some name"
    and "addFreeAsync True code strategy re s = Some (True, s')"
  shows "\<exists>as. os_sent s' = os_sent s @ [(re_socket re, request_msg s RKX_C_ADD_FREE_ASYNC as)] \<and>
    (attrs_validated (kernel_attrs as) \<longleftrightarrow> strlen name < RKX_INTERFACETOKEN_BUFF_SIZE) \<and>
    (\<forall>env st out. strlen name < RKX_INTERFACETOKEN_BUFF_SIZE \<and> rkx_free_async_strategy_valid (ucast strategy) \<and>
       rules_inv (ge_hash env) st \<and> ge_kmalloc_rule env \<noteq> None \<and> entry_count (rkx_free_async_map (rr_rules st)) < 2 ^ 30 \<longrightarrow>
       (\<exists>h st'. rkx_genl_ops RKX_C_ADD_FREE_ASYNC = Some h \<and> h env (kernel_attrs as) st = Some (0, st') \<and>
          rkx_free_async_lookup_rcu (ge_hash env) (rr_rules st') (Some name) code (Some out) = (True, Some (ucast strategy))))"
proof -
  let ?as = "rule_message name code strategy" and ?v = "ucast strategy :: u8"
  have r: "os_sent s' = os_sent s @ [(re_socket re, request_msg s RKX_C_ADD_FREE_ASYNC ?as)]" "0 < strlen name" "-1 \<le> sint code"
    using assms(4) unfolding addFreeAsync_eq [OF assms(1-3)] rule_message_def
    by (auto dest: rule_request_success)
  have lookup: "\<exists>h st'. rkx_genl_ops RKX_C_ADD_FREE_ASYNC = Some h \<and> h env (kernel_attrs ?as) st = Some (0, st') \<and>
      rkx_free_async_lookup_rcu (ge_hash env) (rr_rules st') (Some name) code (Some out) = (True, Some ?v)"
    if ok: "strlen name < RKX_INTERFACETOKEN_BUFF_SIZE" "rkx_free_async_strategy_valid ?v" and inv: "rules_inv (ge_hash env) st"
      and mem: "ge_kmalloc_rule env \<noteq> None" and few: "entry_count (rkx_free_async_map (rr_rules st)) < 2 ^ 30" for env st out
  proof -
    let ?n = "cstr name @ [0]"
    let ?res = "rkx_add_free_async (ge_hash env) (ge_kmalloc_rule env) (Some ?n) code ?v (rr_rules st)"
    have fa: "fa_inv (ge_hash env) (rr_rules st)" using inv by (simp add: rules_inv_def)
    have c: "cstr ?n = cstr name" "strlen ?n = strlen name" by (simp_all add: strlen_def cstr_append_nul cstr_nonzero)
    have args: "add_args_ok ?n code ?v" using ok r(2,3) by (simp add: add_args_ok_def c)
    note add = add_free_async [OF fa args, of "ge_kmalloc_rule env", unfolded c]
    have rc: "fst ?res = 0" and rules: "rules (snd ?res) = (rules (rr_rules st))((cstr name, code) \<mapsto> ?v)"
      using add(2,3) mem by simp_all
    have "entry_count (rkx_free_async_map (snd ?res)) < 2 ^ 31"
      using entry_count_add_le [of "ge_hash env" "ge_kmalloc_rule env" "Some ?n" code ?v "rr_rules st"] few by simp
    from lookup_correct [OF add(1) this, of name code out] rules
    have "rkx_free_async_lookup_rcu (ge_hash env) (snd ?res) (Some name) code (Some out) = (True, Some ?v)"
      by (simp add: rule_for_def)
    moreover have "rkx_genl_add_free_async env (kernel_attrs ?as) st = Some (0, st\<lparr>rr_rules := snd ?res\<rparr>)"
      using rc by (simp add: kernel_attrs_rule rkx_genl_add_free_async_def rule_attrs_def get_u32_ok get_u8_ok case_prod_beta)
    ultimately show ?thesis by auto
  qed
  show ?thesis
    using r(1) lookup by (intro exI [of _ ?as]) (auto simp: kernel_attrs_rule rule_attrs_validated)
qed

text \<open>A name of 150 bytes: the client succeeds, and the module rejects the message.\<close>

theorem rule_end_to_end_witness:
  "\<exists>s' as. addFreeAsync True 3 1 (sample_req 256 (Some (replicate 150 65 @ [0]))) connected_client = Some (True, s') \<and>
     os_sent s' = [(9, request_msg connected_client RKX_C_ADD_FREE_ASYNC as)] \<and> \<not> attrs_validated (kernel_attrs as)"
proof -
  let ?name = "replicate 150 65 @ [0 :: u8]"
  let ?re = "sample_req 256 (Some ?name)"
  have l: "strlen ?name = 150" by (simp add: strlen_def cstr_append_nul)
  have ok: "req_env_ok 256 ?re connected_client" by (rule sample_req_ok) simp_all
  have name: "re_GetStringUTFChars ?re = Some ?name" "re_socket ?re = 9" "os_sent connected_client = []"
    by (simp_all add: sample_req_def connected_client_def loaded_client_def client_init_def)
  obtain s' where s': "addFreeAsync True 3 1 ?re connected_client = Some (True, s')"
    unfolding addFreeAsync_eq [OF connected_client_inv(1) ok name(1)] rule_request_result_def l
    using connected_client_inv(2) by (simp add: sample_req_def)
  from rule_end_to_end [OF connected_client_inv(1) ok name(1) s'] s' show ?thesis
    unfolding l name(2,3) RKX_INTERFACETOKEN_BUFF_SIZE_def by auto
qed

end
